(* ===== verification/Prelude.thy ===== *)
theory Prelude
  imports Main "HOL-Library.Word" "HOL-Library.List_Lexorder" "HOL-Library.Char_ord"
    "HOL-Library.Multiset" "HOL-Library.Sublist"
begin

text \<open>
  What the components share: the types that stand for Go's strings, integers and times,
  the counters Go keeps in maps (a missing key reads as zero, and the code deletes an
  entry when it reaches zero), facts on sorted lists of model ids, and the lifting of a
  one-step invariant to a whole run of events.
\<close>

section \<open>Types\<close>

type_synonym model_id = string

text \<open>
  \<open>time.Time\<close> is an \<open>int\<close> of nanoseconds on one time line; the zero \<open>time.Time\<close> is \<open>0\<close>.
  \<open>time.Duration\<close> is an \<open>int\<close> of nanoseconds, except where its 64-bit wrap-around is visible.
\<close>

type_synonym gtime = int
type_synonym gdur = int
type_synonym int64 = "64 word"

definition is_zero_time :: "gtime \<Rightarrow> bool" where
  "is_zero_time t = (t = 0)"

definition second :: gdur where
  "second = 1000000000"

text \<open>\<open>Time.Sub\<close> saturates at the limits of an \<open>int64\<close>.\<close>

definition time_sub :: "gtime \<Rightarrow> gtime \<Rightarrow> gdur" where
  "time_sub a b = max (- (2 ^ 63)) (min (2 ^ 63 - 1) (a - b))"

section \<open>Signed 64-bit arithmetic\<close>

text \<open>Go's \<open>int64\<close> is a word read with \<open>sint\<close>; addition and subtraction agree with the integers
  while the result is in range.\<close>

lemma sint64_add:
  fixes a b :: int64
  assumes "- (2 ^ 63) \<le> sint a + sint b" "sint a + sint b < 2 ^ 63"
  shows "sint (a + b) = sint a + sint b"
proof -
  have "sint (a + b) = signed_take_bit 63 (sint a + sint b)"
    by (simp add: sint_word_ariths)
  also have "\<dots> = sint a + sint b"
    using assms by (intro signed_take_bit_int_eq_self) simp_all
  finally show ?thesis .
qed

lemma sint64_diff:
  fixes a b :: int64
  assumes "- (2 ^ 63) \<le> sint a - sint b" "sint a - sint b < 2 ^ 63"
  shows "sint (a - b) = sint a - sint b"
proof -
  have "sint (a - b) = signed_take_bit 63 (sint a - sint b)"
    by (simp add: sint_word_ariths)
  also have "\<dots> = sint a - sint b"
    using assms by (intro signed_take_bit_int_eq_self) simp_all
  finally show ?thesis .
qed

lemma sint64_bounds: "- (2 ^ 63) \<le> sint (a :: int64)" "sint (a :: int64) < 2 ^ 63"
  using sint_greater_eq [of a] sint_less [of a] by simp_all

lemmas int64_simps = word_sless_alt word_sle_eq

section \<open>Counters in maps\<close>

named_theorems counter_simps

definition cnt :: "('k \<rightharpoonup> int) \<Rightarrow> 'k \<Rightarrow> int" where
  "cnt m k = (case m k of None \<Rightarrow> 0 | Some v \<Rightarrow> v)"

definition incr :: "'k \<Rightarrow> ('k \<rightharpoonup> int) \<Rightarrow> ('k \<rightharpoonup> int)" where
  "incr k m = m(k \<mapsto> cnt m k + 1)"

text \<open>\<open>m[k]--; if m[k] == 0 { delete(m, k) }\<close>\<close>

definition decr :: "'k \<Rightarrow> ('k \<rightharpoonup> int) \<Rightarrow> ('k \<rightharpoonup> int)" where
  "decr k m = (if cnt m k - 1 = 0 then m(k := None) else m(k \<mapsto> cnt m k - 1))"

text \<open>Only positive values are stored.\<close>

definition pos_counts :: "('k \<rightharpoonup> int) \<Rightarrow> bool" where
  "pos_counts m = (\<forall>k v. m k = Some v \<longrightarrow> 0 < v)"

lemma cnt_empty [counter_simps, simp]: "cnt Map.empty k = 0"
  by (simp add: cnt_def)

lemma cnt_upd [counter_simps, simp]: "cnt (m(k \<mapsto> v)) j = (if j = k then v else cnt m j)"
  by (simp add: cnt_def)

lemma cnt_del [counter_simps, simp]: "cnt (m(k := None)) j = (if j = k then 0 else cnt m j)"
  by (simp add: cnt_def)

lemma cnt_incr [counter_simps, simp]: "cnt (incr k m) j = (if j = k then cnt m k + 1 else cnt m j)"
  by (simp add: incr_def)

lemma cnt_decr [counter_simps, simp]: "cnt (decr k m) j = (if j = k then cnt m k - 1 else cnt m j)"
  by (auto simp: decr_def)

lemma pos_counts_empty [simp]: "pos_counts Map.empty"
  by (simp add: pos_counts_def)

lemma pos_counts_nonneg: "pos_counts m \<Longrightarrow> 0 \<le> cnt m k"
  by (auto simp: pos_counts_def cnt_def split: option.split dest: order.strict_implies_order)

lemma pos_counts_del [simp]: "pos_counts m \<Longrightarrow> pos_counts (m(k := None))"
  by (auto simp: pos_counts_def)

lemma pos_counts_upd [simp]: "pos_counts m \<Longrightarrow> 0 < v \<Longrightarrow> pos_counts (m(k \<mapsto> v))"
  by (auto simp: pos_counts_def)

lemma pos_counts_incr [simp]: "pos_counts m \<Longrightarrow> pos_counts (incr k m)"
  using pos_counts_nonneg [of m k] by (simp add: incr_def)

lemma pos_counts_decr [simp]: "pos_counts m \<Longrightarrow> 0 < cnt m k \<Longrightarrow> pos_counts (decr k m)"
  by (simp add: decr_def)

text \<open>A decrement that reaches zero removes the key.\<close>

lemma decr_zero_absent: "cnt m k = 1 \<Longrightarrow> decr k m k = None"
  by (simp add: decr_def)

section \<open>Sorted lists of ids\<close>

text \<open>
  Go iterates over a map in an unspecified order. The model takes the keys as a list in
  that order; a result computed from the sorted keys does not depend on it.
\<close>

lemma sort_perm_eq: "mset xs = mset ys \<Longrightarrow> sort xs = sort (ys :: 'a::linorder list)"
  by (metis properties_for_sort mset_sort sorted_sort)

lemma sort_distinct_set_eq:
  assumes "distinct xs" "distinct ys" "set xs = set ys"
  shows "sort xs = sort (ys :: 'a::linorder list)"
  by (rule sort_perm_eq) (use assms set_eq_iff_mset_eq_distinct in blast)

lemma sort_filter_sorted: "sorted xs \<Longrightarrow> sort (filter p xs) = filter p (xs :: 'a::linorder list)"
  by (simp add: filter_sort [symmetric] sorted_sort_id)

section \<open>Lists up to order\<close>

lemma mset_concat_map: "mset xs = mset ys \<Longrightarrow> mset (concat (map f xs)) = mset (concat (map f ys))"
proof -
  have "mset (concat (map f zs)) = sum_mset (image_mset (mset \<circ> f) (mset zs))" for zs :: "'a list"
    by (induction zs) auto
  then show "mset xs = mset ys \<Longrightarrow> ?thesis" by simp
qed

lemma map_of_mset:
  assumes "mset xs = mset ys" "distinct (map fst xs)"
  shows "map_of xs = map_of ys"
proof (rule ext)
  fix k
  have m: "mset (map fst xs) = mset (map fst ys)" using assms(1) by simp
  have d: "distinct (map fst ys)" using assms(2) mset_eq_imp_distinct_iff [OF m] by simp
  have "map_of xs k = Some v \<longleftrightarrow> map_of ys k = Some v" for v
    using map_of_eq_Some_iff [OF assms(2)] map_of_eq_Some_iff [OF d] mset_eq_setD [OF assms(1)]
    by simp
  then show "map_of xs k = map_of ys k" by (metis not_None_eq)
qed

section \<open>Fallible computations\<close>

definition and_then :: "'e + 'a \<Rightarrow> ('a \<Rightarrow> 'e + 'b) \<Rightarrow> 'e + 'b" where
  "and_then r f = (case r of Inl e \<Rightarrow> Inl e | Inr x \<Rightarrow> f x)"

lemma and_then_simps [simp]: "and_then (Inl e) f = Inl e" "and_then (Inr x) f = f x"
  by (simp_all add: and_then_def)

lemma and_then_Inr [simp]: "(and_then r f = Inr y) = (\<exists>x. r = Inr x \<and> f x = Inr y)"
  by (cases r) auto

lemma if_Inr [simp]:
  "((if b then Inl e else r) = Inr y) = (\<not> b \<and> r = Inr y)"
  by simp

section \<open>Runs of events\<close>

text \<open>
  A component is a step function on its state. An invariant that every admissible event
  keeps holds after every run of admissible events.
\<close>

fun run :: "('s \<Rightarrow> 'e \<Rightarrow> 's) \<Rightarrow> 's \<Rightarrow> 'e list \<Rightarrow> 's" where
  "run step s [] = s"
| "run step s (e # es) = run step (step s e) es"

fun run_ok :: "('s \<Rightarrow> 'e \<Rightarrow> 's) \<Rightarrow> ('s \<Rightarrow> 'e \<Rightarrow> bool) \<Rightarrow> 's \<Rightarrow> 'e list \<Rightarrow> bool" where
  "run_ok step ok s [] = True"
| "run_ok step ok s (e # es) = (ok s e \<and> run_ok step ok (step s e) es)"

lemma run_append [simp]: "run step s (xs @ ys) = run step (run step s xs) ys"
  by (induction xs arbitrary: s) auto

lemma run_ok_append [simp]:
  "run_ok step ok s (xs @ ys) = (run_ok step ok s xs \<and> run_ok step ok (run step s xs) ys)"
  by (induction xs arbitrary: s) auto

lemma run_ok_True [simp]: "run_ok step (\<lambda>_ _. True) s es"
  by (induction es arbitrary: s) auto

locale machine =
  fixes step :: "'s \<Rightarrow> 'e \<Rightarrow> 's"
    and ok :: "'s \<Rightarrow> 'e \<Rightarrow> bool"
    and inv :: "'s \<Rightarrow> bool"
  assumes inv_step: "inv s \<Longrightarrow> ok s e \<Longrightarrow> inv (step s e)"
begin

lemma inv_run: "inv s \<Longrightarrow> run_ok step ok s es \<Longrightarrow> inv (run step s es)"
  by (induction es arbitrary: s) (auto intro: inv_step)

lemma inv_prefix: "inv s \<Longrightarrow> run_ok step ok s (es @ fs) \<Longrightarrow> inv (run step s es)"
  by (simp add: inv_run)

end

end
