(* ===== verification/Config.thy ===== *)
theory Config
  imports Prelude
begin

text \<open>
  The configuration of \<^verbatim>\<open>internal/config/config.go\<close>: the raw file as the YAML decoder yields it,
  the key checks of \<open>Load\<close>, the validation of \<open>toConfig\<close>, \<open>toModel\<close>, \<open>toGPU\<close>, \<open>resource\<close> and
  \<open>validateInferencePath\<close>, and the lookups \<open>Index\<close>, \<open>Resolve\<close>, \<open>LoadBound\<close>, \<open>AllowsPath\<close>.

  The YAML decoder and \<open>url.Parse\<close> are parameters. A pointer that may be nil is an option. The
  maps of models are association lists in the order Go ranges over them; the errors are values of
  \<open>config_error\<close>, one constructor per message. Strings are byte strings; \<open>ToLower\<close> is modelled on
  ASCII letters.
\<close>

section \<open>Results\<close>

datatype config_error =
    CfgParse string
  | CfgForbidden string string
  | CfgModelNotMapping string
  | CfgBothPaths string
  | CfgOldPaths string
  | CfgTimeoutsNotMapping string
  | CfgTimeoutKey string string
  | CfgLogLevel string
  | CfgNotPositive string
  | CfgQueueSize
  | CfgNoModels
  | CfgEmptyId
  | CfgIdCollides string
  | CfgAliasCollides string string string
  | CfgPreload string
  | CfgDevice
  | CfgMargin
  | CfgRequired string string
  | CfgNegative string string
  | CfgResidual string
  | CfgMaxConcurrency string
  | CfgConcurrencyExceeds string
  | CfgConcurrencyLimit string
  | CfgBaseURL string
  | CfgPath string string
  | CfgControlPath string string
  | CfgPrepareEmpty string
  | CfgPrepareRelative string
  | CfgAliasEmpty string
  | CfgAliasIsId string

section \<open>Strings\<close>

text \<open>The encodings of the characters \<open>strings.TrimSpace\<close> removes.\<close>

definition space_runes :: "string list" where
  "space_runes =
     map (\<lambda>n. [char_of n]) [9, 10, 11, 12, 13, 32 :: nat]
     @ map (map char_of)
        ([[194, 133], [194, 160], [225, 154, 128]]
         @ map (\<lambda>n. [226, 128, n]) [128 ..< 139]
         @ [[226, 128, 168], [226, 128, 169], [226, 128, 175], [226, 129, 159],
            [227, 128, 128 :: nat]])"

function strip_runes :: "string list \<Rightarrow> string \<Rightarrow> string" where
  "strip_runes ws s =
     (case find (\<lambda>w. w \<noteq> [] \<and> prefix w s) ws of
        None \<Rightarrow> s
      | Some w \<Rightarrow> strip_runes ws (drop (length w) s))"
  by pat_completeness auto
termination
  by (relation "measure (\<lambda>(ws, s). length s)")
    (auto simp: find_Some_iff simp flip: length_greater_0_conv dest!: prefix_length_le)

declare strip_runes.simps [simp del]

definition trim_space :: "string \<Rightarrow> string" where
  "trim_space s = rev (strip_runes (map rev space_runes) (rev (strip_runes space_runes s)))"

definition trim_slashes :: "string \<Rightarrow> string" where
  "trim_slashes s = rev (dropWhile (\<lambda>c. c = CHR ''/'') (rev s))"

definition blank :: "string \<Rightarrow> bool" where
  "blank s = (trim_space s = '''')"

definition lower_char :: "char \<Rightarrow> char" where
  "lower_char c = (if CHR ''A'' \<le> c \<and> c \<le> CHR ''Z'' then char_of (of_char c + 32 :: nat) else c)"

section \<open>The raw file\<close>

datatype yaml =
    YNull
  | YBool bool
  | YInt int
  | YFloat string
  | YStr string
  | YSeq "yaml list"
  | YMap "(string \<times> yaml) list"

record raw_profile =
  rp_profileId :: "string option"
  rp_loadPeak :: "int64 option"
  rp_inferencePeak :: "int64 option"
  rp_residual :: "int64 option"
  rp_maxConcurrency :: "int option"
  rp_limits :: "(string \<times> yaml) list"

record raw_model =
  rm_baseURL :: "string option"
  rm_name :: string
  rm_aliases :: "string list"
  rm_concurrencyLimit :: "int option"
  rm_unlisted :: "bool option"
  rm_prepare :: "string list option"
  rm_timeouts :: "(string \<rightharpoonup> int) option"
  rm_profile :: "raw_profile option"
  rm_inferencePath :: "string option"
  rm_maxBody :: "int64 option"

record raw_gpu =
  rg_device :: "string option"
  rg_margin :: "int64 option"
  rg_maxAge :: "int option"

record raw_file =
  rf_listen :: "string option"
  rf_logLevel :: "string option"
  rf_healthCheckTimeout :: "int option"
  rf_unloadTimeout :: "int option"
  rf_queueTimeout :: "int option"
  rf_prepareTimeout :: "int option"
  rf_statusTimeout :: "int option"
  rf_drainTimeout :: "int option"
  rf_shutdownTimeout :: "int option"
  rf_maxQueueSize :: "int option"
  rf_preload :: "string list"
  rf_gpu :: "raw_gpu option"
  rf_models :: "(string \<times> raw_model) list"

section \<open>The configuration\<close>

record profile =
  pr_profileId :: string
  pr_loadPeak :: int64
  pr_inferencePeak :: int64
  pr_residual :: int64
  pr_maxConcurrency :: int
  pr_limits :: "(string \<times> yaml) list"

definition no_profile :: profile where
  "no_profile = \<lparr>pr_profileId = '''', pr_loadPeak = 0, pr_inferencePeak = 0, pr_residual = 0,
     pr_maxConcurrency = 0, pr_limits = []\<rparr>"

record model =
  m_id :: string
  m_baseURL :: string
  m_name :: string
  m_aliases :: "string list"
  m_concurrencyLimit :: int
  m_unlisted :: bool
  m_prepare :: "string list option"
  m_prepareTimeout :: gdur
  m_healthCheckTimeout :: gdur
  m_unloadTimeout :: gdur
  m_profile :: profile
  m_inferencePath :: string
  m_maxBody :: int64

record gpu =
  g_device :: string
  g_margin :: int64
  g_maxAge :: gdur

record config =
  c_listen :: string
  c_logLevel :: string
  c_healthCheckTimeout :: gdur
  c_unloadTimeout :: gdur
  c_queueTimeout :: gdur
  c_prepareTimeout :: gdur
  c_statusTimeout :: gdur
  c_drainTimeout :: gdur
  c_shutdownTimeout :: gdur
  c_maxQueueSize :: int
  c_preload :: "string list"
  c_gpu :: gpu
  c_models :: "(string \<times> model) list"
  c_aliases :: "(string \<rightharpoonup> string) option"

section \<open>Fields\<close>

definition pick_string :: "string option \<Rightarrow> string \<Rightarrow> string" where
  "pick_string v fallback =
     (case v of None \<Rightarrow> fallback | Some s \<Rightarrow> if s = '''' then fallback else s)"

definition pick_int :: "int option \<Rightarrow> int \<Rightarrow> int" where
  "pick_int v fallback = (case v of None \<Rightarrow> fallback | Some n \<Rightarrow> n)"

text \<open>\<open>time.Duration(n) * time.Second\<close> is a 64-bit product.\<close>

definition dur_seconds :: "int \<Rightarrow> gdur" where
  "dur_seconds n = signed_take_bit 63 (n * second)"

definition seconds :: "string \<Rightarrow> int option \<Rightarrow> int \<Rightarrow> config_error + gdur" where
  "seconds name v fallback =
     (let n = pick_int v fallback in
      if n \<le> 0 then Inl (CfgNotPositive name) else Inr (dur_seconds n))"

definition non_neg :: "string \<Rightarrow> string \<Rightarrow> int64 option \<Rightarrow> config_error + int64" where
  "non_neg i name v =
     (case v of
        None \<Rightarrow> Inl (CfgRequired i name)
      | Some x \<Rightarrow> if x <s 0 then Inl (CfgNegative i name) else Inr x)"

datatype log_level = LevelDebug | LevelInfo | LevelWarn | LevelError

definition parse_log_level :: "string \<Rightarrow> config_error + log_level" where
  "parse_log_level level =
     (let s = map lower_char (trim_space level) in
      if s = ''debug'' then Inr LevelDebug else if s = ''info'' then Inr LevelInfo
      else if s = ''warn'' then Inr LevelWarn else if s = ''error'' then Inr LevelError
      else Inl (CfgLogLevel level))"

definition control_paths :: "string set" where
  "control_paths = {''/control/status'', ''/control/load'', ''/control/unload''}"

definition validate_inference_path :: "string \<Rightarrow> string \<Rightarrow> config_error + unit" where
  "validate_inference_path i path =
     (if blank path \<or> path \<noteq> trim_space path then Inl (CfgPath i path)
      else if \<not> prefix ''/'' path then Inl (CfgPath i path)
      else if sublist ''..'' path \<or> sublist ''?'' path then Inl (CfgPath i path)
      else if path \<in> control_paths then Inl (CfgControlPath i path)
      else Inr ())"

section \<open>A model\<close>

definition resource ::
  "string \<Rightarrow> int \<Rightarrow> raw_model \<Rightarrow> config_error + profile \<times> string \<times> int64" where
  "resource i concurrency rm =
     (case rm_profile rm of
        None \<Rightarrow> Inl (CfgRequired i ''resourceProfile'')
      | Some p \<Rightarrow>
          if (case rp_profileId p of None \<Rightarrow> True | Some s \<Rightarrow> blank s)
          then Inl (CfgRequired i ''profileId'')
          else
            and_then (non_neg i ''loadPeakBytes'' (rp_loadPeak p)) (\<lambda>load.
            and_then (non_neg i ''inferencePeakBytes'' (rp_inferencePeak p)) (\<lambda>inf.
            and_then (non_neg i ''unloadedResidualBytes'' (rp_residual p)) (\<lambda>residual.
            let peak = (if load <s inf then inf else load) in
            if peak <s residual then Inl (CfgResidual i)
            else if (case rp_maxConcurrency p of None \<Rightarrow> True | Some n \<Rightarrow> n \<le> 0)
              then Inl (CfgMaxConcurrency i)
            else if the (rp_maxConcurrency p) < concurrency then Inl (CfgConcurrencyExceeds i)
            else if (case rm_inferencePath rm of None \<Rightarrow> True | Some s \<Rightarrow> blank s)
              then Inl (CfgRequired i ''inferencePath'')
            else
              and_then (validate_inference_path i (the (rm_inferencePath rm))) (\<lambda>_.
              case rm_maxBody rm of
                None \<Rightarrow> Inl (CfgRequired i ''maxBodyBytes'')
              | Some body \<Rightarrow>
                  if body <s 0 then Inl (CfgNegative i ''maxBodyBytes'')
                  else Inr (\<lparr>pr_profileId = trim_space (the (rp_profileId p)),
                             pr_loadPeak = load, pr_inferencePeak = inf,
                             pr_residual = residual,
                             pr_maxConcurrency = the (rp_maxConcurrency p),
                             pr_limits = rp_limits p\<rparr>,
                            the (rm_inferencePath rm), body))))))"

text \<open>An override of a timeout: the default when the model names none.\<close>

definition model_timeout ::
  "string \<Rightarrow> raw_model \<Rightarrow> string \<Rightarrow> gdur \<Rightarrow> config_error + gdur" where
  "model_timeout i rm key dflt =
     (case rm_timeouts rm of
        None \<Rightarrow> Inr dflt
      | Some ts \<Rightarrow>
          (case ts key of
             None \<Rightarrow> Inr dflt
           | Some v \<Rightarrow> seconds (''models.'' @ i @ ''.timeouts.'' @ key) (Some v) 0))"

fun check_aliases :: "string \<Rightarrow> string list \<Rightarrow> config_error + unit" where
  "check_aliases i [] = Inr ()"
| "check_aliases i (a # as) =
     (if blank a then Inl (CfgAliasEmpty i)
      else if a = i then Inl (CfgAliasIsId i)
      else check_aliases i as)"

definition to_model ::
  "(string \<Rightarrow> (string \<times> string) option) \<Rightarrow> string \<Rightarrow> config \<Rightarrow> raw_model \<Rightarrow> config_error + model" where
  "to_model parse_url i globals rm =
     (if (case rm_baseURL rm of None \<Rightarrow> True | Some s \<Rightarrow> blank s)
      then Inl (CfgRequired i ''baseURL'')
      else if (case parse_url (the (rm_baseURL rm)) of
                 None \<Rightarrow> True | Some (scheme, hst) \<Rightarrow> scheme = '''' \<or> hst = '''')
      then Inl (CfgBaseURL i)
      else
        let lim = pick_int (rm_concurrencyLimit rm) 1 in
        if lim \<le> 0 then Inl (CfgConcurrencyLimit i)
        else
          and_then (model_timeout i rm ''prepareTimeout'' (c_prepareTimeout globals)) (\<lambda>pt.
          and_then (model_timeout i rm ''healthCheckTimeout'' (c_healthCheckTimeout globals)) (\<lambda>ht.
          and_then (model_timeout i rm ''unloadTimeout'' (c_unloadTimeout globals)) (\<lambda>ut.
          if rm_prepare rm = Some [] then Inl (CfgPrepareEmpty i)
          else if (case rm_prepare rm of None \<Rightarrow> False | Some argv \<Rightarrow> \<not> prefix ''/'' (hd argv))
            then Inl (CfgPrepareRelative i)
          else
            and_then (check_aliases i (rm_aliases rm)) (\<lambda>_.
            Inr \<lparr>m_id = i, m_baseURL = trim_slashes (the (rm_baseURL rm)),
                 m_name = (if rm_name rm = '''' then i else rm_name rm),
                 m_aliases = rm_aliases rm, m_concurrencyLimit = lim,
                 m_unlisted = (case rm_unlisted rm of None \<Rightarrow> False | Some b \<Rightarrow> b),
                 m_prepare = rm_prepare rm, m_prepareTimeout = pt, m_healthCheckTimeout = ht,
                 m_unloadTimeout = ut, m_profile = no_profile, m_inferencePath = '''',
                 m_maxBody = 0\<rparr>)))))"

definition load_bound :: "model \<Rightarrow> int64" where
  "load_bound m =
     (if pr_loadPeak (m_profile m) <s pr_inferencePeak (m_profile m)
      then pr_inferencePeak (m_profile m) else pr_loadPeak (m_profile m))"

definition allows_path :: "model \<Rightarrow> string \<Rightarrow> bool" where
  "allows_path m path = (m_inferencePath m \<noteq> '''' \<and> m_inferencePath m = path)"

section \<open>The file\<close>

definition to_gpu :: "raw_gpu option \<Rightarrow> config_error + gpu" where
  "to_gpu raw =
     (case raw of
        None \<Rightarrow> Inl CfgDevice
      | Some g \<Rightarrow>
          (case rg_device g of
             None \<Rightarrow> Inl CfgDevice
           | Some dev \<Rightarrow>
               if blank dev then Inl CfgDevice
               else
                 let margin = (case rg_margin g of None \<Rightarrow> 0 | Some x \<Rightarrow> x) in
                 if margin <s 0 then Inl CfgMargin
                 else and_then (seconds ''gpu.maxObservationAge'' (rg_maxAge g) 5) (\<lambda>age.
                   Inr \<lparr>g_device = trim_space dev, g_margin = margin, g_maxAge = age\<rparr>)))"

text \<open>The aliases of one model, entered after its id.\<close>

fun add_aliases ::
  "string \<Rightarrow> string list \<Rightarrow> (string \<rightharpoonup> string) \<Rightarrow> config_error + (string \<rightharpoonup> string)" where
  "add_aliases i [] tab = Inr tab"
| "add_aliases i (a # as) tab =
     (case tab a of
        Some other \<Rightarrow> Inl (CfgAliasCollides a i other)
      | None \<Rightarrow> add_aliases i as (tab(a \<mapsto> i)))"

text \<open>The loop over the models.\<close>

fun add_models ::
  "(string \<Rightarrow> (string \<times> string) option) \<Rightarrow> config \<Rightarrow> (string \<times> raw_model) list \<Rightarrow>
     (string \<times> model) list \<Rightarrow> (string \<rightharpoonup> string) \<Rightarrow>
     config_error + (string \<times> model) list \<times> (string \<rightharpoonup> string)" where
  "add_models parse_url globals [] ms tab = Inr (ms, tab)"
| "add_models parse_url globals ((i, rm) # rest) ms tab =
     (if blank i then Inl CfgEmptyId
      else
        and_then (to_model parse_url i globals rm) (\<lambda>m.
        case tab i of
          Some _ \<Rightarrow> Inl (CfgIdCollides i)
        | None \<Rightarrow>
            and_then (add_aliases i (m_aliases m) (tab(i \<mapsto> i))) (\<lambda>tab'.
            add_models parse_url globals rest (ms @ [(i, m)]) tab')))"

fun check_preload :: "(string \<times> model) list \<Rightarrow> string list \<Rightarrow> config_error + unit" where
  "check_preload ms [] = Inr ()"
| "check_preload ms (i # is) =
     (if map_of ms i = None then Inl (CfgPreload i) else check_preload ms is)"

text \<open>The last loop: the profile, the path and the body limit of each model.\<close>

fun add_resources ::
  "(string \<times> raw_model) list \<Rightarrow> (string \<times> model) list \<Rightarrow> config_error + (string \<times> model) list" where
  "add_resources raws [] = Inr []"
| "add_resources raws ((i, m) # rest) =
     and_then (resource i (m_concurrencyLimit m) (the (map_of raws i))) (\<lambda>(p, path, body).
     and_then (add_resources raws rest) (\<lambda>ms.
     Inr ((i, m\<lparr>m_profile := p, m_inferencePath := path, m_maxBody := body\<rparr>) # ms)))"

text \<open>The part of \<open>toConfig\<close> before the loops: the global settings.\<close>

definition global_settings :: "raw_file \<Rightarrow> config_error + config" where
  "global_settings raw =
     and_then (parse_log_level (pick_string (rf_logLevel raw) ''info'')) (\<lambda>_.
     and_then (seconds ''healthCheckTimeout'' (rf_healthCheckTimeout raw) 120) (\<lambda>hc.
     and_then (seconds ''unloadTimeout'' (rf_unloadTimeout raw) 30) (\<lambda>ul.
     and_then (seconds ''queueTimeout'' (rf_queueTimeout raw) 180) (\<lambda>qt.
     and_then (seconds ''prepareTimeout'' (rf_prepareTimeout raw) 60) (\<lambda>pt.
     and_then (seconds ''statusTimeout'' (rf_statusTimeout raw) 5) (\<lambda>st.
     and_then (seconds ''drainTimeout'' (rf_drainTimeout raw) 180) (\<lambda>dt.
     and_then (seconds ''shutdownTimeout'' (rf_shutdownTimeout raw) 60) (\<lambda>sd.
     if pick_int (rf_maxQueueSize raw) 256 \<le> 0 then Inl CfgQueueSize
     else Inr \<lparr>c_listen = pick_string (rf_listen raw) '':8080'',
                c_logLevel = pick_string (rf_logLevel raw) ''info'',
                c_healthCheckTimeout = hc, c_unloadTimeout = ul, c_queueTimeout = qt,
                c_prepareTimeout = pt, c_statusTimeout = st, c_drainTimeout = dt,
                c_shutdownTimeout = sd, c_maxQueueSize = pick_int (rf_maxQueueSize raw) 256,
                c_preload = rf_preload raw,
                c_gpu = \<lparr>g_device = '''', g_margin = 0, g_maxAge = 0\<rparr>,
                c_models = [], c_aliases = Some Map.empty\<rparr>))))))))"

definition to_config ::
  "(string \<Rightarrow> (string \<times> string) option) \<Rightarrow> raw_file \<Rightarrow> config_error + config" where
  "to_config parse_url raw =
     and_then (global_settings raw) (\<lambda>cfg.
     if rf_models raw = [] then Inl CfgNoModels
     else
       and_then (add_models parse_url cfg (rf_models raw) [] Map.empty) (\<lambda>(ms, tab).
       and_then (check_preload ms (c_preload cfg)) (\<lambda>_.
       and_then (to_gpu (rf_gpu raw)) (\<lambda>g.
       and_then (add_resources (rf_models raw) ms) (\<lambda>ms'.
       Inr (cfg\<lparr>c_gpu := g, c_models := ms', c_aliases := Some tab\<rparr>))))))"

section \<open>The key checks of \<open>Load\<close>\<close>

definition forbidden_keys :: "string list" where
  "forbidden_keys = [''cmd'', ''cmdStop'', ''env'', ''proxy'', ''checkEndpoint'', ''groups'', ''macros'']"

definition allowed_timeouts :: "string set" where
  "allowed_timeouts = {''prepareTimeout'', ''healthCheckTimeout'', ''unloadTimeout''}"

definition reject_keys ::
  "(string \<times> yaml) list \<Rightarrow> string list \<Rightarrow> string \<Rightarrow> config_error + unit" where
  "reject_keys m forbidden whr =
     (case find (\<lambda>k. map_of m k \<noteq> None) forbidden of
        Some k \<Rightarrow> Inl (CfgForbidden whr k)
      | None \<Rightarrow> Inr ())"

definition check_model_keys :: "string \<times> yaml \<Rightarrow> config_error + unit" where
  "check_model_keys im =
     (case snd im of
        YMap m \<Rightarrow>
          and_then (reject_keys m forbidden_keys (''model '' @ fst im)) (\<lambda>_.
          let oldPaths = map_of m ''inferencePaths'' \<noteq> None;
              newPath = map_of m ''inferencePath'' \<noteq> None
          in if oldPaths \<and> newPath then Inl (CfgBothPaths (fst im))
             else if oldPaths then Inl (CfgOldPaths (fst im))
             else case map_of m ''timeouts'' of
               None \<Rightarrow> Inr ()
             | Some (YMap tm) \<Rightarrow>
                 (case find (\<lambda>k. k \<notin> allowed_timeouts) (map fst tm) of
                    Some k \<Rightarrow> Inl (CfgTimeoutKey (fst im) k)
                  | None \<Rightarrow> Inr ())
             | Some _ \<Rightarrow> Inl (CfgTimeoutsNotMapping (fst im)))
      | _ \<Rightarrow> Inl (CfgModelNotMapping (fst im)))"

fun check_models_keys :: "(string \<times> yaml) list \<Rightarrow> config_error + unit" where
  "check_models_keys [] = Inr ()"
| "check_models_keys (im # rest) = and_then (check_model_keys im) (\<lambda>_. check_models_keys rest)"

definition load ::
  "(string \<Rightarrow> string + (string \<times> yaml) list) \<Rightarrow> (string \<Rightarrow> string + raw_file) \<Rightarrow>
     (string \<Rightarrow> (string \<times> string) option) \<Rightarrow> string \<Rightarrow> config_error + config" where
  "load decode_map decode_file parse_url data =
     (case decode_map data of
        Inl e \<Rightarrow> Inl (CfgParse e)
      | Inr root \<Rightarrow>
          and_then (reject_keys root forbidden_keys '''') (\<lambda>_.
          and_then (case map_of root ''models'' of
                      Some (YMap ms) \<Rightarrow> check_models_keys ms
                    | _ \<Rightarrow> Inr ()) (\<lambda>_.
          case decode_file data of
            Inl e \<Rightarrow> Inl (CfgParse e)
          | Inr raw \<Rightarrow> to_config parse_url raw)))"

section \<open>Lookups\<close>

definition index_models :: "config \<Rightarrow> string \<rightharpoonup> string" where
  "index_models c =
     fold (\<lambda>(i, m) tab. fold (\<lambda>a t. t(a \<mapsto> i)) (m_aliases m) (tab(i \<mapsto> i))) (c_models c) Map.empty"

text \<open>A configuration that did not come out of \<open>toConfig\<close> has no alias table; it is built on use.\<close>

definition resolve :: "config \<Rightarrow> string \<Rightarrow> string option" where
  "resolve c x = (case c_aliases c of None \<Rightarrow> index_models c x | Some tab \<Rightarrow> tab x)"

definition model_of :: "config \<Rightarrow> string \<Rightarrow> model option" where
  "model_of c x =
     (case resolve c x of None \<Rightarrow> None | Some i \<Rightarrow> map_of (c_models c) i)"

section \<open>Blank strings\<close>

text \<open>A string with a printable ASCII character is not blank.\<close>

lemma space_runes_bytes:
  "w \<in> set space_runes \<Longrightarrow> c \<in> set w \<Longrightarrow> (of_char c :: nat) < 33 \<or> 128 \<le> (of_char c :: nat)"
  by (auto simp: space_runes_def)

lemma strip_runes_keeps:
  "c \<in> set s \<Longrightarrow> \<forall>w \<in> set ws. c \<notin> set w \<Longrightarrow> c \<in> set (strip_runes ws s)"
proof (induction ws s rule: strip_runes.induct)
  case (1 ws s)
  show ?case
  proof (cases "find (\<lambda>w. w \<noteq> [] \<and> prefix w s) ws")
    case None
    then show ?thesis using 1 by (simp add: strip_runes.simps [of ws s])
  next
    case (Some w)
    then have w: "w \<in> set ws" "prefix w s" by (auto simp: find_Some_iff)
    then obtain t where t: "s = w @ t" by (auto simp: prefix_def)
    have "c \<in> set (drop (length w) s)" using 1(2,3) w(1) t by auto
    then show ?thesis using 1(1) [OF Some] 1(3) Some by (simp add: strip_runes.simps [of ws s])
  qed
qed

lemma printable_not_blank:
  assumes "c \<in> set s" "33 \<le> (of_char c :: nat)" "(of_char c :: nat) < 128"
  shows "\<not> blank s"
proof -
  have n: "\<forall>w \<in> set space_runes. c \<notin> set w" using space_runes_bytes assms(2,3) by fastforce
  then have "c \<in> set (rev (strip_runes space_runes s))" using strip_runes_keeps [OF assms(1)] by simp
  then have "c \<in> set (trim_space s)"
    unfolding trim_space_def set_rev using n by (intro strip_runes_keeps) auto
  then show ?thesis by (auto simp: blank_def)
qed

lemma not_blank_Cons [simp]:
  "33 \<le> (of_char c :: nat) \<Longrightarrow> (of_char c :: nat) < 128 \<Longrightarrow> \<not> blank (c # s)"
  by (rule printable_not_blank [of c]) auto

text \<open>Nothing is trimmed from a string that begins and ends with a printable ASCII character.\<close>

lemma strip_runes_id:
  assumes "\<forall>w \<in> set ws. hd s \<notin> set w"
  shows "strip_runes ws s = s"
proof -
  have "\<not> prefix w s" if "w \<in> set ws" "w \<noteq> []" for w
    using assms that by (cases w; cases s) auto
  then have "find (\<lambda>w. w \<noteq> [] \<and> prefix w s) ws = None" by (auto simp: find_None_iff)
  then show ?thesis by (simp add: strip_runes.simps [of ws s])
qed

lemma trim_space_id:
  assumes "33 \<le> (of_char (hd s) :: nat)" "(of_char (hd s) :: nat) < 128"
    and "33 \<le> (of_char (last s) :: nat)" "(of_char (last s) :: nat) < 128"
  shows "trim_space s = s"
proof -
  have h: "\<forall>w \<in> set space_runes. hd s \<notin> set w" and l: "\<forall>w \<in> set space_runes. last s \<notin> set w"
    using space_runes_bytes assms by fastforce+
  have "strip_runes (map rev space_runes) (rev s) = rev s"
    by (rule strip_runes_id) (use l in \<open>auto simp: hd_rev\<close>)
  then show ?thesis by (simp add: trim_space_def strip_runes_id [OF h])
qed

section \<open>The tables as closed forms\<close>

definition model_names :: "string \<times> model \<Rightarrow> string list" where
  "model_names im = fst im # m_aliases (snd im)"

definition enter :: "string \<Rightarrow> string list \<Rightarrow> (string \<rightharpoonup> string) \<Rightarrow> (string \<rightharpoonup> string)" where
  "enter i xs tab = (\<lambda>x. if x \<in> set xs then Some i else tab x)"

fun enter_all :: "(string \<times> model) list \<Rightarrow> (string \<rightharpoonup> string) \<Rightarrow> (string \<rightharpoonup> string)" where
  "enter_all [] tab = tab"
| "enter_all (im # ms) tab = enter_all ms (enter (fst im) (model_names im) tab)"

lemma enter_Cons: "enter i (x # xs) tab = enter i xs (tab(x \<mapsto> i))"
  by (rule ext) (simp add: enter_def)

lemma dom_enter [simp]: "dom (enter i xs tab) = dom tab \<union> set xs"
  by (auto simp: enter_def split: if_splits)

lemma fold_enter: "fold (\<lambda>a t. t(a \<mapsto> i)) xs tab = enter i xs tab"
proof (induction xs arbitrary: tab)
  case Nil
  then show ?case by (simp add: enter_def)
next
  case (Cons x xs)
  show ?case unfolding fold_simps Cons.IH enter_Cons by simp
qed

lemma index_models_enter: "index_models c = enter_all (c_models c) Map.empty"
proof -
  have "fold (\<lambda>(i, m) tab. fold (\<lambda>a t. t(a \<mapsto> i)) (m_aliases m) (tab(i \<mapsto> i))) ms tab = enter_all ms tab"
    for ms tab
    by (induction ms arbitrary: tab) (auto simp: fold_enter enter_Cons model_names_def)
  then show ?thesis by (simp add: index_models_def)
qed

lemma enter_all_cong:
  "map model_names ms' = map model_names ms \<Longrightarrow> map fst ms' = map fst ms \<Longrightarrow>
     enter_all ms' tab = enter_all ms tab"
proof (induction ms' arbitrary: ms tab)
  case (Cons im ms')
  then obtain jn ns where "ms = jn # ns" by (cases ms) auto
  with Cons show ?case by simp
qed simp

lemma enter_all_lookup:
  assumes "distinct (concat (map model_names ns))"
  shows "enter_all ns tab x = Some j \<longleftrightarrow>
     (\<exists>im \<in> set ns. x \<in> set (model_names im) \<and> fst im = j)
     \<or> (\<forall>im \<in> set ns. x \<notin> set (model_names im)) \<and> tab x = Some j"
  using assms
proof (induction ns arbitrary: tab)
  case Nil
  then show ?case by simp
next
  case (Cons im ns)
  have d: "x \<in> set (model_names im) \<Longrightarrow> im' \<in> set ns \<Longrightarrow> x \<notin> set (model_names im')" for im'
    using Cons.prems by auto
  show ?case
    using Cons.prems d by (auto simp: Cons.IH enter_def)
qed

lemma add_aliases_iff:
  "add_aliases i as tab = Inr tab' \<longleftrightarrow>
     distinct as \<and> set as \<inter> dom tab = {} \<and> tab' = enter i as tab"
proof (induction as arbitrary: tab)
  case Nil
  then show ?case by (auto simp: enter_def)
next
  case (Cons a as)
  show ?case
  proof (cases "tab a")
    case None
    then have "add_aliases i (a # as) tab = Inr tab' \<longleftrightarrow>
        distinct as \<and> set as \<inter> dom (tab(a \<mapsto> i)) = {} \<and> tab' = enter i as (tab(a \<mapsto> i))"
      by (simp add: Cons.IH del: dom_fun_upd fun_upd_apply)
    also have "\<dots> \<longleftrightarrow> distinct (a # as) \<and> set (a # as) \<inter> dom tab = {} \<and> tab' = enter i (a # as) tab"
      unfolding enter_Cons dom_fun_upd using None by auto
    finally show ?thesis .
  qed auto
qed

definition model_entry ::
  "(string \<Rightarrow> (string \<times> string) option) \<Rightarrow> config \<Rightarrow> string \<times> raw_model \<Rightarrow> string \<times> model \<Rightarrow> bool" where
  "model_entry pu g r im = (fst im = fst r \<and> \<not> blank (fst r) \<and> to_model pu (fst r) g (snd r) = Inr (snd im))"

lemma add_models_iff:
  "add_models pu g raws ms tab = Inr (ms', tab') \<longleftrightarrow>
     (\<exists>ns. list_all2 (model_entry pu g) raws ns \<and> ms' = ms @ ns
        \<and> distinct (concat (map model_names ns))
        \<and> set (concat (map model_names ns)) \<inter> dom tab = {}
        \<and> tab' = enter_all ns tab)"
proof (induction raws arbitrary: ms tab)
  case Nil
  then show ?case by auto
next
  case (Cons r rest)
  obtain i rm where r: "r = (i, rm)" by (cases r)
  show ?case
  proof (cases "\<exists>m. model_entry pu g r (i, m) \<and> distinct (model_names (i, m))
      \<and> set (model_names (i, m)) \<inter> dom tab = {}")
    case True
    then obtain m where m: "model_entry pu g r (i, m)" "distinct (model_names (i, m))"
      "set (model_names (i, m)) \<inter> dom tab = {}" by blast
    define tab1 where "tab1 = enter i (model_names (i, m)) tab"
    have "add_aliases i (m_aliases m) (tab(i \<mapsto> i)) = Inr tab1"
      using m(2,3)
      by (auto simp: add_aliases_iff tab1_def model_names_def enter_Cons simp del: fun_upd_apply)
    then have eq: "add_models pu g (r # rest) ms tab = add_models pu g rest (ms @ [(i, m)]) tab1"
      using m by (auto simp: r model_entry_def model_names_def split: option.split)
    have uniq: "model_entry pu g r im \<longleftrightarrow> im = (i, m)" for im
      using m(1) by (cases im) (auto simp: model_entry_def r)
    have "(\<exists>ns. list_all2 (model_entry pu g) rest ns \<and> ms' = (ms @ [(i, m)]) @ ns
        \<and> distinct (concat (map model_names ns))
        \<and> set (concat (map model_names ns)) \<inter> dom tab1 = {} \<and> tab' = enter_all ns tab1)
      \<longleftrightarrow> (\<exists>ns. list_all2 (model_entry pu g) (r # rest) ns \<and> ms' = ms @ ns
        \<and> distinct (concat (map model_names ns))
        \<and> set (concat (map model_names ns)) \<inter> dom tab = {} \<and> tab' = enter_all ns tab)"
      (is "?L = ?R")
    proof
      assume ?L
      then obtain ns where "list_all2 (model_entry pu g) rest ns" "ms' = (ms @ [(i, m)]) @ ns"
        "distinct (concat (map model_names ns))"
        "set (concat (map model_names ns)) \<inter> dom tab1 = {}" "tab' = enter_all ns tab1" by blast
      then show ?R using m
        by (intro exI [of _ "(i, m) # ns"]) (auto simp: tab1_def)
    next
      assume ?R
      then obtain ns where "list_all2 (model_entry pu g) rest ns" "ms' = ms @ (i, m) # ns"
        "distinct (concat (map model_names ((i, m) # ns)))"
        "set (concat (map model_names ((i, m) # ns))) \<inter> dom tab = {}"
        "tab' = enter_all ((i, m) # ns) tab"
        by (auto simp: list_all2_Cons1 uniq)
      then show ?L by (intro exI [of _ ns]) (auto simp: tab1_def)
    qed
    then show ?thesis unfolding eq Cons.IH .
  next
    case False
    have "add_models pu g (r # rest) ms tab \<noteq> Inr (ms', tab')"
    proof
      assume "add_models pu g (r # rest) ms tab = Inr (ms', tab')"
      then obtain m t where "\<not> blank i" "to_model pu i g rm = Inr m" "tab i = None"
        "add_aliases i (m_aliases m) (tab(i \<mapsto> i)) = Inr t"
        by (auto simp: r split: if_splits option.splits)
      then show False using False
        by (auto simp: add_aliases_iff model_entry_def model_names_def r simp del: fun_upd_apply)
    qed
    moreover have "\<not> (\<exists>ns. list_all2 (model_entry pu g) (r # rest) ns
        \<and> distinct (concat (map model_names ns)) \<and> set (concat (map model_names ns)) \<inter> dom tab = {})"
    proof
      assume "\<exists>ns. list_all2 (model_entry pu g) (r # rest) ns
        \<and> distinct (concat (map model_names ns)) \<and> set (concat (map model_names ns)) \<inter> dom tab = {}"
      then obtain im ns where "model_entry pu g r im" "distinct (model_names im)"
        "set (model_names im) \<inter> dom tab = {}"
        by (auto simp: list_all2_Cons1 Int_Un_distrib2)
      then show False using False by (cases im) (auto simp: model_entry_def r)
    qed
    ultimately show ?thesis by blast
  qed
qed

section \<open>What an accepted file guarantees\<close>

definition model_ok :: "string \<Rightarrow> model \<Rightarrow> bool" where
  "model_ok i m =
     (m_id m = i \<and> \<not> blank i \<and> 0 < m_concurrencyLimit m
      \<and> m_concurrencyLimit m \<le> pr_maxConcurrency (m_profile m)
      \<and> 0 \<le> sint (pr_loadPeak (m_profile m)) \<and> 0 \<le> sint (pr_inferencePeak (m_profile m))
      \<and> 0 \<le> sint (pr_residual (m_profile m))
      \<and> sint (pr_residual (m_profile m)) \<le> sint (load_bound m)
      \<and> prefix ''/'' (m_inferencePath m) \<and> \<not> sublist ''..'' (m_inferencePath m)
      \<and> m_inferencePath m \<notin> control_paths \<and> 0 \<le> sint (m_maxBody m)
      \<and> (\<forall>a \<in> set (m_aliases m). \<not> blank a \<and> a \<noteq> i))"

definition config_ok :: "config \<Rightarrow> bool" where
  "config_ok c =
     (c_models c \<noteq> [] \<and> 0 < c_maxQueueSize c \<and> g_device (c_gpu c) \<noteq> ''''
      \<and> 0 \<le> sint (g_margin (c_gpu c))
      \<and> distinct (concat (map model_names (c_models c)))
      \<and> (\<forall>(i, m) \<in> set (c_models c). model_ok i m)
      \<and> (\<forall>i \<in> set (c_preload c). map_of (c_models c) i \<noteq> None))"

lemma distinct_model_keys: "distinct (concat (map model_names ms)) \<Longrightarrow> distinct (map fst ms)"
  by (induction ms) (force simp: model_names_def)+

lemma check_aliases_iff:
  "check_aliases i as = Inr () \<longleftrightarrow> (\<forall>a \<in> set as. \<not> blank a \<and> a \<noteq> i)"
  by (induction as) auto

lemma check_preload_iff: "check_preload ms is = Inr () \<longleftrightarrow> (\<forall>i \<in> set is. map_of ms i \<noteq> None)"
  by (induction "is") auto

lemma to_model_ok:
  "to_model pu i g rm = Inr m \<Longrightarrow>
     m_id m = i \<and> 0 < m_concurrencyLimit m \<and> (\<forall>a \<in> set (m_aliases m). \<not> blank a \<and> a \<noteq> i)"
  by (auto simp: to_model_def Let_def check_aliases_iff split: if_splits)

lemma non_neg_ok: "non_neg i n v = Inr x \<Longrightarrow> 0 \<le> sint x"
  by (auto simp: non_neg_def int64_simps split: option.splits if_splits)

lemma resource_ok:
  assumes "resource i n rm = Inr (p, path, body)"
    and "m_profile m = p" "m_inferencePath m = path" "m_maxBody m = body" "m_concurrencyLimit m = n"
  shows "model_ok i m \<longleftrightarrow> m_id m = i \<and> \<not> blank i \<and> 0 < m_concurrencyLimit m
      \<and> (\<forall>a \<in> set (m_aliases m). \<not> blank a \<and> a \<noteq> i)"
proof -
  have "n \<le> pr_maxConcurrency p \<and> 0 \<le> sint (pr_loadPeak p) \<and> 0 \<le> sint (pr_inferencePeak p)
      \<and> 0 \<le> sint (pr_residual p)
      \<and> sint (pr_residual p) \<le> sint (if pr_loadPeak p <s pr_inferencePeak p
                                    then pr_inferencePeak p else pr_loadPeak p)
      \<and> prefix ''/'' path \<and> \<not> sublist ''..'' path \<and> path \<notin> control_paths \<and> 0 \<le> sint body"
    using assms(1)
    by (auto simp: resource_def Let_def int64_simps validate_inference_path_def
        dest!: non_neg_ok split: option.splits if_splits)
  then show ?thesis using assms(2-5) by (auto simp: model_ok_def load_bound_def)
qed

text \<open>The last loop keeps ids, names and limits, and fills in the profile.\<close>

definition resource_entry ::
  "(string \<times> raw_model) list \<Rightarrow> string \<times> model \<Rightarrow> string \<times> model \<Rightarrow> bool" where
  "resource_entry raws im jn =
     (\<exists>p path body. resource (fst im) (m_concurrencyLimit (snd im)) (the (map_of raws (fst im)))
          = Inr (p, path, body)
        \<and> jn = (fst im, (snd im)\<lparr>m_profile := p, m_inferencePath := path, m_maxBody := body\<rparr>))"

lemma add_resources_iff:
  "add_resources raws ms = Inr ms' \<longleftrightarrow> list_all2 (resource_entry raws) ms ms'"
proof (induction ms arbitrary: ms')
  case Nil
  then show ?case by auto
next
  case (Cons im ms)
  obtain i m where im: "im = (i, m)" by (cases im)
  show ?case
  proof (cases "resource i (m_concurrencyLimit m) (the (map_of raws i))")
    case (Inl e)
    then show ?thesis by (simp add: im list_all2_Cons1 resource_entry_def)
  next
    case (Inr x)
    obtain p path body where "x = (p, path, body)" by (cases x)
    then show ?thesis using Inr Cons.IH
      by (auto simp: im list_all2_Cons1 resource_entry_def)
  qed
qed

lemma resource_entry_names: "resource_entry raws im jn \<Longrightarrow> model_names jn = model_names im \<and> fst jn = fst im"
  by (auto simp: resource_entry_def model_names_def)

lemma list_all2_map_eq: "list_all2 P xs ys \<Longrightarrow> (\<And>x y. P x y \<Longrightarrow> f y = f x) \<Longrightarrow> map f ys = map f xs"
  by (induction rule: list_all2_induct) auto

lemma list_all2_source: "list_all2 P xs ys \<Longrightarrow> y \<in> set ys \<Longrightarrow> \<exists>x \<in> set xs. P x y"
  by (induction rule: list_all2_induct) auto

lemma to_config_iff:
  "to_config pu raw = Inr c \<longleftrightarrow>
     (\<exists>g ms tab gg ms'. global_settings raw = Inr g \<and> rf_models raw \<noteq> []
        \<and> add_models pu g (rf_models raw) [] Map.empty = Inr (ms, tab)
        \<and> check_preload ms (c_preload g) = Inr () \<and> to_gpu (rf_gpu raw) = Inr gg
        \<and> add_resources (rf_models raw) ms = Inr ms'
        \<and> c = g\<lparr>c_gpu := gg, c_models := ms', c_aliases := Some tab\<rparr>)"
  by (auto simp: to_config_def)

lemma global_settings_ok:
  "global_settings raw = Inr g \<Longrightarrow> 0 < c_maxQueueSize g \<and> c_preload g = rf_preload raw"
  by (auto simp: global_settings_def)

lemma to_config_ok:
  assumes "to_config pu raw = Inr c"
  shows "config_ok c \<and> c_aliases c = Some (index_models c)"
proof -
  obtain g ms tab gg ms' where gs: "global_settings raw = Inr g"
    and ne: "rf_models raw \<noteq> []"
    and am: "add_models pu g (rf_models raw) [] Map.empty = Inr (ms, tab)"
    and cp: "check_preload ms (c_preload g) = Inr ()"
    and gg: "to_gpu (rf_gpu raw) = Inr gg" and ar: "add_resources (rf_models raw) ms = Inr ms'"
    and c: "c = g\<lparr>c_gpu := gg, c_models := ms', c_aliases := Some tab\<rparr>"
    using assms unfolding to_config_iff by blast
  have e: "list_all2 (model_entry pu g) (rf_models raw) ms" and d: "distinct (concat (map model_names ms))"
    and tab: "tab = enter_all ms Map.empty"
    using am by (auto simp: add_models_iff)
  have re: "list_all2 (resource_entry (rf_models raw)) ms ms'" using ar by (simp add: add_resources_iff)
  have names: "map model_names ms' = map model_names ms" and keys: "map fst ms' = map fst ms"
    by (rule list_all2_map_eq [OF re], use resource_entry_names in blast)+
  have enter: "enter_all ms' t = enter_all ms t" for t
    by (rule enter_all_cong [OF names keys])
  have ok: "model_ok i m" if mem: "(i, m) \<in> set ms'" for i m
  proof -
    obtain im where im: "im \<in> set ms" "resource_entry (rf_models raw) im (i, m)"
      using list_all2_source [OF re mem] by blast
    define m0 where "m0 = snd im"
    have "im = (i, m0)" using im(2) by (cases im) (auto simp: resource_entry_def m0_def)
    with im have m0: "(i, m0) \<in> set ms" "resource_entry (rf_models raw) (i, m0) (i, m)" by simp_all
    obtain r where "model_entry pu g r (i, m0)" using list_all2_source [OF e m0(1)] by blast
    then obtain rm where "model_entry pu g (i, rm) (i, m0)" by (cases r) (auto simp: model_entry_def)
    then have "\<not> blank i" "to_model pu i g rm = Inr m0" by (simp_all add: model_entry_def)
    moreover obtain p path body where
      "resource i (m_concurrencyLimit m0) (the (map_of (rf_models raw) i)) = Inr (p, path, body)"
      "m = m0\<lparr>m_profile := p, m_inferencePath := path, m_maxBody := body\<rparr>"
      using m0(2) by (auto simp: resource_entry_def)
    ultimately show ?thesis using resource_ok [of i "m_concurrencyLimit m0"] to_model_ok by simp
  qed
  have gpu: "g_device gg \<noteq> '''' \<and> 0 \<le> sint (g_margin gg)"
    using gg by (auto simp: to_gpu_def Let_def int64_simps blank_def split: option.splits if_splits)
  have pre: "\<forall>i \<in> set (c_preload g). map_of ms' i \<noteq> None"
    using cp keys by (auto simp: check_preload_iff map_of_eq_None_iff simp flip: set_map)
  have "ms' \<noteq> []" using e re ne by auto
  then show ?thesis
    using global_settings_ok [OF gs] d names ok gpu pre enter
    by (auto simp: c config_ok_def index_models_enter tab)
qed

lemma resolve_iff:
  assumes "config_ok c" "c_aliases c = Some (index_models c) \<or> c_aliases c = None"
  shows "resolve c x = Some i \<longleftrightarrow> (\<exists>m. (i, m) \<in> set (c_models c) \<and> (x = i \<or> x \<in> set (m_aliases m)))"
proof -
  have "resolve c x = enter_all (c_models c) Map.empty x"
    using assms(2) by (auto simp: resolve_def index_models_enter)
  also have "\<dots> = Some i \<longleftrightarrow> (\<exists>im \<in> set (c_models c). x \<in> set (model_names im) \<and> fst im = i)"
    using assms(1) by (subst enter_all_lookup) (simp_all add: config_ok_def)
  also have "\<dots> \<longleftrightarrow> (\<exists>m. (i, m) \<in> set (c_models c) \<and> (x = i \<or> x \<in> set (m_aliases m)))"
    by (auto simp: model_names_def) (metis fst_conv snd_conv)+
  finally show ?thesis .
qed

lemma model_of_id:
  assumes "config_ok c" "c_aliases c = Some (index_models c)" "(i, m) \<in> set (c_models c)"
    and "x = i \<or> x \<in> set (m_aliases m)"
  shows "model_of c x = Some m"
proof -
  have "resolve c x = Some i" using assms by (auto simp: resolve_iff)
  moreover have "distinct (map fst (c_models c))"
    using assms(1) by (simp add: config_ok_def distinct_model_keys)
  ultimately show ?thesis using assms(3) by (simp add: model_of_def)
qed

section \<open>The order of the models does not matter\<close>

definition same_config :: "config \<Rightarrow> config \<Rightarrow> bool" where
  "same_config c d =
     (mset (c_models d) = mset (c_models c) \<and> c_aliases d = c_aliases c
      \<and> d\<lparr>c_models := [], c_aliases := None\<rparr> = c\<lparr>c_models := [], c_aliases := None\<rparr>)"

lemma enter_all_perm:
  assumes "mset ns = mset ms" "distinct (concat (map model_names ms))"
  shows "enter_all ns tab = enter_all ms tab"
proof (rule ext)
  fix x
  have d: "distinct (concat (map model_names ns))"
    using assms(2) mset_eq_imp_distinct_iff [OF mset_concat_map [OF assms(1), of model_names]] by simp
  have s: "set ns = set ms" using assms(1) by (rule mset_eq_setD)
  have "enter_all ns tab x = Some j \<longleftrightarrow> enter_all ms tab x = Some j" for j
    using enter_all_lookup [OF d, of tab x j] enter_all_lookup [OF assms(2), of tab x j] s by simp
  then show "enter_all ns tab x = enter_all ms tab x"
    by (metis not_None_eq)
qed

lemma list_all2_mset:
  assumes "list_all2 P xs ys" "mset xs = mset xs'"
  obtains ys' where "list_all2 P xs' ys'" "mset ys' = mset ys"
  using list_all2_reorder_left_invariance [OF assms(1)] assms(2) by metis

lemma to_config_perm:
  assumes c: "to_config pu raw = Inr c" and p: "mset models' = mset (rf_models raw)"
    and keys: "distinct (map fst (rf_models raw))"
  shows "\<exists>d. to_config pu (raw\<lparr>rf_models := models'\<rparr>) = Inr d \<and> same_config c d"
proof -
  obtain g ms tab gg ms' where gs: "global_settings raw = Inr g"
    and ne: "rf_models raw \<noteq> []"
    and am: "add_models pu g (rf_models raw) [] Map.empty = Inr (ms, tab)"
    and cp: "check_preload ms (c_preload g) = Inr ()"
    and gg: "to_gpu (rf_gpu raw) = Inr gg" and ar: "add_resources (rf_models raw) ms = Inr ms'"
    and ceq: "c = g\<lparr>c_gpu := gg, c_models := ms', c_aliases := Some tab\<rparr>"
    using c unfolding to_config_iff by blast
  have e: "list_all2 (model_entry pu g) (rf_models raw) ms"
    and d: "distinct (concat (map model_names ms))" and tab: "tab = enter_all ms Map.empty"
    using am by (auto simp: add_models_iff)
  obtain ns where ns: "list_all2 (model_entry pu g) models' ns" "mset ns = mset ms"
    using list_all2_mset [OF e p [symmetric]] .
  have dn: "distinct (concat (map model_names ns))"
    using d mset_eq_imp_distinct_iff [OF mset_concat_map [OF ns(2), of model_names]] by simp
  have am': "add_models pu g models' [] Map.empty = Inr (ns, tab)"
    using ns dn enter_all_perm [OF ns(2) d] tab by (auto simp: add_models_iff)
  have km: "map_of models' = map_of (rf_models raw)"
    by (rule map_of_mset [OF p [symmetric] keys, symmetric])
  have ms: "mset (map fst ns) = mset (map fst ms)" using ns(2) by simp
  have re: "list_all2 (resource_entry models') ms ms'"
    using ar km by (simp add: add_resources_iff resource_entry_def [abs_def])
  obtain ns' where ns': "list_all2 (resource_entry models') ns ns'" "mset ns' = mset ms'"
    using list_all2_mset [OF re ns(2) [symmetric]] .
  have "check_preload ns (c_preload g) = Inr ()"
    using cp mset_eq_setD [OF ns(2)] by (auto simp: check_preload_iff map_of_eq_None_iff)
  moreover have "models' \<noteq> []" using ne p by auto
  moreover have "global_settings (raw\<lparr>rf_models := models'\<rparr>) = Inr g"
    using gs by (simp add: global_settings_def)
  ultimately have "to_config pu (raw\<lparr>rf_models := models'\<rparr>) =
      Inr (g\<lparr>c_gpu := gg, c_models := ns', c_aliases := Some tab\<rparr>)"
    unfolding to_config_iff using am' gg ns'(1) by (auto simp: add_resources_iff)
  then show ?thesis using ns'(2) by (auto simp: same_config_def ceq)
qed

section \<open>Timeouts\<close>

text \<open>A timeout is the configured number of seconds until the product leaves 64 bits.\<close>

lemma dur_seconds_exact:
  assumes "0 \<le> n" "n \<le> 9223372036"
  shows "dur_seconds n = n * second"
  unfolding dur_seconds_def second_def
  using assms by (intro signed_take_bit_int_eq_self) simp_all

lemma seconds_exact:
  "seconds name v dflt = Inr d \<Longrightarrow> pick_int v dflt \<le> 9223372036 \<Longrightarrow>
     d = pick_int v dflt * second \<and> 0 < d"
  using dur_seconds_exact [of "pick_int v dflt"]
  by (auto simp: seconds_def Let_def second_def split: if_splits)

lemma seconds_wraps: "seconds name (Some 9223372037) dflt = Inr (- 9223372036709551616)"
  by (simp add: seconds_def pick_int_def dur_seconds_def second_def signed_take_bit_eq_take_bit_shift
      take_bit_eq_mod)

end
