(* ===== verification/Resource.thy ===== *)
theory Resource
  imports Prelude
begin

text \<open>
  The GPU budget arithmetic of \<^verbatim>\<open>internal/resource\<close>: snapshots of the device, holds,
  \<open>Headroom\<close>, \<open>Fits\<close> and \<open>Fresh\<close> of \<^verbatim>\<open>admit.go\<close>, the fixed observer of \<^verbatim>\<open>fake.go\<close>. Bytes
  are 64-bit words read as signed, so the sum of \<open>Fits\<close> wraps exactly where the Go sum
  does. The NVML observer is a call into a third-party library and is not modelled.
\<close>

section \<open>Data\<close>

record snapshot =
  deviceID :: string
  total :: "64 word"
  free :: "64 word"
  used :: "64 word"
  observedAt :: gtime
  snap_ok :: bool

record hold =
  hold_id :: model_id
  bound :: int64
  attributed :: int64

definition zero_snapshot :: snapshot where
  "zero_snapshot = \<lparr>deviceID = '''', total = 0, free = 0, used = 0, observedAt = 0, snap_ok = False\<rparr>"

section \<open>Operations\<close>

definition headroom :: "int64 \<Rightarrow> int64 \<Rightarrow> int64" where
  "headroom b a = (if b <=s a then 0 else b - a)"

fun fits_loop :: "int64 \<Rightarrow> int64 \<Rightarrow> hold list \<Rightarrow> bool" where
  "fits_loop room total_held [] = True"
| "fits_loop room total_held (h # hs) =
     (let total_held' = total_held + headroom (bound h) (attributed h) in
      if room <s total_held' then False else fits_loop room total_held' hs)"

definition fits :: "int64 \<Rightarrow> int64 \<Rightarrow> hold list \<Rightarrow> bool" where
  "fits fr margin holds =
     (if fr <s 0 \<or> margin <s 0 \<or> fr <s margin then False
      else fits_loop (fr - margin) 0 holds)"

definition fresh :: "snapshot \<Rightarrow> gtime \<Rightarrow> gdur \<Rightarrow> bool" where
  "fresh s now maxAge =
     (if \<not> snap_ok s \<or> deviceID s = '''' \<or> is_zero_time (observedAt s) \<or> maxAge \<le> 0 then False
      else if now < observedAt s then False
      else time_sub now (observedAt s) \<le> maxAge)"

section \<open>The fixed observer\<close>

record fake =
  fake_snap :: snapshot
  fake_err :: bool

definition fake_observe :: "fake \<Rightarrow> gtime \<Rightarrow> snapshot option" where
  "fake_observe f now =
     (if fake_err f then None
      else Some ((fake_snap f)
        \<lparr>observedAt := (if is_zero_time (observedAt (fake_snap f)) then now
                       else observedAt (fake_snap f)),
         snap_ok := True\<rparr>))"

definition generous :: "string \<Rightarrow> fake" where
  "generous device =
     \<lparr>fake_snap = \<lparr>deviceID = device, total = push_bit 30 80, free = push_bit 30 80,
                   used = 0, observedAt = 0, snap_ok = True\<rparr>,
      fake_err = False\<rparr>"

section \<open>The sum of the holds\<close>

text \<open>
  \<open>held\<close> is the headroom as an integer. As long as the holds together stay below \<open>2 ^ 63\<close> the
  loop with its early exit computes the plain comparison of the budget with the sum.
\<close>

definition held :: "hold \<Rightarrow> int" where
  "held h = max 0 (sint (bound h) - sint (attributed h))"

definition hold_wf :: "hold \<Rightarrow> bool" where
  "hold_wf h = (0 \<le> sint (attributed h))"

lemma sint_headroom:
  "0 \<le> sint a \<Longrightarrow> sint (headroom b a) = max 0 (sint b - sint a)"
  using sint64_bounds [of a] sint64_bounds [of b]
  by (auto simp: headroom_def int64_simps sint64_diff)

lemma fits_loop_exact:
  "list_all hold_wf hs \<Longrightarrow> 0 \<le> sint acc \<Longrightarrow> sint acc + (\<Sum>h\<leftarrow>hs. held h) < 2 ^ 63 \<Longrightarrow> sint acc \<le> sint room \<Longrightarrow>
     fits_loop room acc hs = (sint acc + (\<Sum>h\<leftarrow>hs. held h) \<le> sint room)"
proof (induction hs arbitrary: acc)
  case Nil
  then show ?case by simp
next
  case (Cons h hs)
  have nn: "0 \<le> (\<Sum>h\<leftarrow>hs. held h)" by (rule sum_list_nonneg) (auto simp: held_def)
  have h: "sint (headroom (bound h) (attributed h)) = held h"
    using Cons.prems(1) by (simp add: sint_headroom held_def hold_wf_def)
  have h0: "0 \<le> held h" by (simp add: held_def)
  have s: "sint (acc + headroom (bound h) (attributed h)) = sint acc + held h"
    using Cons.prems h h0 nn by (subst sint64_add) auto
  show ?case
  proof (cases "sint acc + held h \<le> sint room")
    case True
    with Cons.prems s h0 show ?thesis
      by (simp add: Let_def int64_simps Cons.IH add.assoc)
  next
    case False
    with s nn show ?thesis by (simp add: Let_def int64_simps)
  qed
qed

lemma fits_exact:
  assumes "list_all hold_wf hs" "(\<Sum>h\<leftarrow>hs. held h) < 2 ^ 63"
  shows "fits fr margin hs =
    (0 \<le> sint margin \<and> sint margin \<le> sint fr \<and> (\<Sum>h\<leftarrow>hs. held h) \<le> sint fr - sint margin)"
proof (cases "0 \<le> sint fr \<and> 0 \<le> sint margin \<and> sint margin \<le> sint fr")
  case True
  then have d: "sint (fr - margin) = sint fr - sint margin"
    using sint64_bounds [of fr] by (intro sint64_diff) auto
  show ?thesis
    using True assms d fits_loop_exact [of hs 0 "fr - margin"]
    by (auto simp: fits_def int64_simps)
next
  case False
  then show ?thesis by (auto simp: fits_def int64_simps)
qed

lemma fits_perm:
  assumes "mset hs = mset gs" "list_all hold_wf hs" "(\<Sum>h\<leftarrow>hs. held h) < 2 ^ 63"
  shows "fits fr margin hs = fits fr margin gs"
proof -
  have set: "set hs = set gs" using assms(1) by (rule mset_eq_setD)
  have eq: "(\<Sum>h\<leftarrow>hs. held h) = (\<Sum>h\<leftarrow>gs. held h)"
    using assms(1) by (metis mset_map sum_mset_sum_list)
  have "list_all hold_wf gs" using assms(2) set by (simp add: list_all_iff)
  then show ?thesis using assms eq by (simp add: fits_exact)
qed

lemma fits_margin_nonneg: "fits fr margin hs \<Longrightarrow> 0 \<le> sint margin \<and> sint margin \<le> sint fr"
  by (auto simp: fits_def int64_simps split: if_splits)

lemma fresh_iff:
  assumes "maxAge < 2 ^ 63 - 1"
  shows "fresh s now maxAge =
    (snap_ok s \<and> deviceID s \<noteq> '''' \<and> observedAt s \<noteq> 0 \<and> 0 < maxAge \<and>
     observedAt s \<le> now \<and> now - observedAt s \<le> maxAge)"
  using assms by (auto simp: fresh_def is_zero_time_def time_sub_def)

end
