(* ===== verification/GoError.thy ===== *)
theory GoError
  imports Prelude
begin

text \<open>
  Error values. \<open>sched_error\<close> are the package variables of \<^verbatim>\<open>internal/router/scheduler/errors.go\<close>
  with the HTTP status, code and message each carries. \<open>goerr\<close> is the error values that reach the
  scheduler and the runtime client, as the chains that \<open>errors.Is\<close> and \<open>errors.As\<close> walk: the
  repository's own error types, and those of the standard library it inspects.
\<close>

section \<open>The scheduler's errors\<close>

datatype sched_error =
    ErrModelNotFound
  | ErrQueueFull
  | ErrQueueTimeout
  | ErrDrainTimeout
  | ErrUnloadBlocked
  | ErrShutdown
  | ErrLoadFailed
  | ErrResources
  | ErrNotBooted
  | ErrLifecyclePending

fun err_status :: "sched_error \<Rightarrow> int" where
  "err_status ErrModelNotFound = 404"
| "err_status ErrQueueFull = 429"
| "err_status ErrQueueTimeout = 504"
| "err_status ErrDrainTimeout = 504"
| "err_status ErrUnloadBlocked = 502"
| "err_status ErrShutdown = 503"
| "err_status ErrLoadFailed = 502"
| "err_status ErrResources = 503"
| "err_status ErrNotBooted = 503"
| "err_status ErrLifecyclePending = 503"

fun err_code :: "sched_error \<Rightarrow> string" where
  "err_code ErrModelNotFound = ''NOT_FOUND''"
| "err_code ErrQueueFull = ''QUEUE_FULL''"
| "err_code ErrQueueTimeout = ''QUEUE_TIMEOUT''"
| "err_code ErrDrainTimeout = ''DRAIN_TIMEOUT''"
| "err_code ErrUnloadBlocked = ''UNLOAD_FAILED''"
| "err_code ErrShutdown = ''SHUTDOWN''"
| "err_code ErrLoadFailed = ''LOAD_FAILED''"
| "err_code ErrResources = ''RESOURCES''"
| "err_code ErrNotBooted = ''NOT_READY''"
| "err_code ErrLifecyclePending = ''LIFECYCLE_PENDING''"

fun err_msg :: "sched_error \<Rightarrow> string" where
  "err_msg ErrModelNotFound = ''model not found''"
| "err_msg ErrQueueFull = ''queue is full''"
| "err_msg ErrQueueTimeout = ''queue timeout''"
| "err_msg ErrDrainTimeout = ''drain timed out''"
| "err_msg ErrUnloadBlocked = ''unload failed; next load blocked''"
| "err_msg ErrShutdown = ''router is shutting down''"
| "err_msg ErrLoadFailed = ''load failed''"
| "err_msg ErrResources = ''gpu budget is not available''"
| "err_msg ErrNotBooted = ''gpu observation is not ready''"
| "err_msg ErrLifecyclePending = ''model lifecycle is still pending''"

definition sched_error_text :: "sched_error \<Rightarrow> string" where
  "sched_error_text e = (if err_msg e \<noteq> '''' then err_msg e else err_code e)"

section \<open>Error chains\<close>

datatype goerr =
    Sched sched_error
  | CodeError string string
  | ControlFault int string string
  | DeadlineExceeded
  | Canceled
  | IoEOF
  | IoUnexpectedEOF
  | NetOpError bool string
  | UrlError string goerr
  | Wrapped string goerr
  | Plain string

text \<open>\<open>errors.Is\<close> for the sentinel values, \<open>errors.As\<close> for the first match along the chain.\<close>

fun err_is :: "goerr \<Rightarrow> goerr \<Rightarrow> bool" where
  "err_is (UrlError p e) t = (UrlError p e = t \<or> err_is e t)"
| "err_is (Wrapped p e) t = (Wrapped p e = t \<or> err_is e t)"
| "err_is e t = (e = t)"

fun as_sched :: "goerr \<Rightarrow> sched_error option" where
  "as_sched (Sched e) = Some e"
| "as_sched (UrlError _ e) = as_sched e"
| "as_sched (Wrapped _ e) = as_sched e"
| "as_sched _ = None"

text \<open>The \<open>Timeout()\<close> method of the values that have one.\<close>

fun has_timeout :: "goerr \<Rightarrow> bool" where
  "has_timeout DeadlineExceeded = True"
| "has_timeout (NetOpError t _) = t"
| "has_timeout (UrlError _ e) = has_timeout e"
| "has_timeout _ = False"

text \<open>\<open>errors.As\<close> to \<open>net.Error\<close>, \<open>*net.OpError\<close> and \<open>*url.Error\<close>.\<close>

fun as_net :: "goerr \<Rightarrow> goerr option" where
  "as_net DeadlineExceeded = Some DeadlineExceeded"
| "as_net (NetOpError t s) = Some (NetOpError t s)"
| "as_net (UrlError p e) = Some (UrlError p e)"
| "as_net (Wrapped _ e) = as_net e"
| "as_net _ = None"

fun as_op :: "goerr \<Rightarrow> goerr option" where
  "as_op (NetOpError t s) = Some (NetOpError t s)"
| "as_op (UrlError _ e) = as_op e"
| "as_op (Wrapped _ e) = as_op e"
| "as_op _ = None"

fun as_url :: "goerr \<Rightarrow> goerr option" where
  "as_url (UrlError p e) = Some e"
| "as_url (Wrapped _ e) = as_url e"
| "as_url _ = None"

text \<open>The text of \<open>Error()\<close>.\<close>

fun err_text :: "goerr \<Rightarrow> string" where
  "err_text (Sched e) = sched_error_text e"
| "err_text (CodeError c m) = (if m \<noteq> '''' then m else c)"
| "err_text (ControlFault _ c _) = (if c \<noteq> '''' then c else ''control error'')"
| "err_text DeadlineExceeded = ''context deadline exceeded''"
| "err_text Canceled = ''context canceled''"
| "err_text IoEOF = ''EOF''"
| "err_text IoUnexpectedEOF = ''unexpected EOF''"
| "err_text (NetOpError _ s) = s"
| "err_text (UrlError p e) = p @ '': '' @ err_text e"
| "err_text (Wrapped p e) = p @ err_text e"
| "err_text (Plain s) = s"

lemma as_url_size: "as_url e = Some e' \<Longrightarrow> size e' < size e"
  by (induction e) auto

lemma err_is_sched: "err_is e (Sched x) \<Longrightarrow> as_sched e = Some x"
  by (induction e) auto

lemma as_sched_iff: "(as_sched e = Some x) = err_is e (Sched x)"
  by (induction e) auto

end
