(* ===== verification/Runtime_Types.thy ===== *)
theory Runtime_Types
  imports GoError
begin

text \<open>
  The vocabulary of \<^verbatim>\<open>internal/runtime/runtime.go\<close> (local state, wire state, residency, control
  status) and the status matrix of \<^verbatim>\<open>internal/runtime/recover.go\<close> that the scheduler's recovery
  works on: \<open>ClassifyRecovery\<close> and \<open>ClassifyStatusErr\<close> with \<open>isEndpointDown\<close> of \<^verbatim>\<open>client.go\<close>.
\<close>

section \<open>States and statuses\<close>

datatype rstate =
    StateUnknown
  | StateStopped
  | StateStarting
  | StateReady
  | StateStopping
  | StateFailed
  | StateShutdown

text \<open>A wire value is any string until \<open>validateStatus\<close> has seen it: \<open>WireOther\<close>, \<open>ResidencyOther\<close>.\<close>

datatype wire_state =
    WireUnloaded
  | WireLoading
  | WireReady
  | WireUnloading
  | WireFailed
  | WireOther string

datatype residency =
    ResidencyResident
  | ResidencyNotResident
  | ResidencyUnknown
  | ResidencyOther string

definition wire_state_of :: "string \<Rightarrow> wire_state" where
  "wire_state_of s =
     (if s = ''unloaded'' then WireUnloaded else if s = ''loading'' then WireLoading
      else if s = ''ready'' then WireReady else if s = ''unloading'' then WireUnloading
      else if s = ''failed'' then WireFailed else WireOther s)"

definition residency_of :: "string \<Rightarrow> residency" where
  "residency_of s =
     (if s = ''resident'' then ResidencyResident
      else if s = ''not_resident'' then ResidencyNotResident
      else if s = ''unknown'' then ResidencyUnknown else ResidencyOther s)"

record last_error =
  le_code :: string
  le_message :: string

record status =
  wire :: wire_state
  resid :: residency
  activeRequests :: int
  lastError :: "last_error option"

text \<open>The zero \<open>Status\<close>, which a failed read returns beside its error.\<close>

definition zero_status :: status where
  "zero_status = \<lparr>wire = WireOther '''', resid = ResidencyOther '''', activeRequests = 0, lastError = None\<rparr>"

section \<open>The recovery matrix\<close>

datatype recovery_class =
    RecInvalid
  | RecReadyIdle
  | RecReadyBusy
  | RecUnloadedIdle
  | RecFailedNotResidentIdle
  | RecFailedNotResidentBusy
  | RecFailedOccupied
  | RecInProgress

datatype status_err_kind = StatusErrNone | StatusErrEndpointDown | StatusErrOther

datatype apply_code = ApplyApplied | ApplyBusy | ApplyStale

definition classify_recovery :: "status \<Rightarrow> recovery_class" where
  "classify_recovery st =
     (if wire st = WireReady \<and> resid st = ResidencyResident \<and> activeRequests st = 0
        then RecReadyIdle
      else if wire st = WireReady \<and> resid st = ResidencyResident \<and> activeRequests st > 0
        then RecReadyBusy
      else if wire st = WireUnloaded \<and> resid st = ResidencyNotResident \<and> activeRequests st = 0
        then RecUnloadedIdle
      else if wire st = WireFailed \<and> resid st = ResidencyNotResident \<and> activeRequests st = 0
        then RecFailedNotResidentIdle
      else if wire st = WireFailed \<and> resid st = ResidencyNotResident \<and> activeRequests st > 0
        then RecFailedNotResidentBusy
      else if wire st = WireFailed \<and> (resid st = ResidencyResident \<or> resid st = ResidencyUnknown)
        then RecFailedOccupied
      else if wire st = WireLoading \<or> wire st = WireUnloading
        then RecInProgress
      else RecInvalid)"

section \<open>Endpoint errors\<close>

definition to_lower_char :: "char \<Rightarrow> char" where
  "to_lower_char c = (if CHR ''A'' \<le> c \<and> c \<le> CHR ''Z'' then char_of (of_char c + 32 :: nat) else c)"

definition contains :: "string \<Rightarrow> string \<Rightarrow> bool" where
  "contains s t = sublist t s"

text \<open>
  The recursion of \<open>isEndpointDown\<close> goes into the error a \<open>*url.Error\<close> wraps. A \<open>*url.Error\<close> or
  a \<open>*net.OpError\<close> in the chain decides before the text is looked at.
\<close>

function is_endpoint_down :: "goerr \<Rightarrow> bool" where
  "is_endpoint_down e =
     (if err_is e IoEOF \<or> err_is e IoUnexpectedEOF then True
      else if (case as_net e of Some n \<Rightarrow> has_timeout n | None \<Rightarrow> False) then False
      else if as_op e \<noteq> None then True
      else (case as_url e of
              Some inner \<Rightarrow> (if has_timeout inner then False else is_endpoint_down inner)
            | None \<Rightarrow>
                contains (err_text e) ''connection refused''
                \<or> contains (err_text e) ''connection reset''
                \<or> contains (err_text e) ''server closed''
                \<or> contains (map to_lower_char (err_text e)) ''eof''))"
  by pat_completeness auto
termination
  by (relation "measure size") (auto dest: as_url_size)

declare is_endpoint_down.simps [simp del]

definition is_timeout :: "goerr \<Rightarrow> bool" where
  "is_timeout e =
     ((case as_net e of Some n \<Rightarrow> has_timeout n | None \<Rightarrow> False)
      \<or> (case as_url e of Some inner \<Rightarrow> has_timeout inner | None \<Rightarrow> False))"

definition classify_status_err :: "goerr option \<Rightarrow> status_err_kind" where
  "classify_status_err err =
     (case err of
        None \<Rightarrow> StatusErrNone
      | Some e \<Rightarrow> if is_endpoint_down e then StatusErrEndpointDown else StatusErrOther)"

section \<open>Lemmas\<close>

lemma classify_ready_idle_iff:
  "classify_recovery st = RecReadyIdle \<longleftrightarrow>
     wire st = WireReady \<and> resid st = ResidencyResident \<and> activeRequests st = 0"
  by (auto simp: classify_recovery_def)

lemma classify_unloaded_iff:
  "classify_recovery st = RecUnloadedIdle \<longleftrightarrow>
     wire st = WireUnloaded \<and> resid st = ResidencyNotResident \<and> activeRequests st = 0"
  by (auto simp: classify_recovery_def)

lemma classify_failed_idle_iff:
  "classify_recovery st = RecFailedNotResidentIdle \<longleftrightarrow>
     wire st = WireFailed \<and> resid st = ResidencyNotResident \<and> activeRequests st = 0"
  by (auto simp: classify_recovery_def)

text \<open>Only a status with no active request may change the local state to ready or stopped.\<close>

lemma classify_idle_active:
  "classify_recovery st \<in> {RecReadyIdle, RecUnloadedIdle, RecFailedNotResidentIdle} \<Longrightarrow>
     activeRequests st = 0"
  by (auto simp: classify_recovery_def split: if_splits)

lemma as_url_as_net: "as_url e = Some i \<Longrightarrow> \<exists>p. as_net e = Some (UrlError p i)"
  by (induction e) auto

lemma is_timeout_as_net:
  "is_timeout e = (case as_net e of Some n \<Rightarrow> has_timeout n | None \<Rightarrow> False)"
  using as_url_as_net [of e] by (cases "as_url e") (auto simp: is_timeout_def)

text \<open>A timeout anywhere the client can see it is never taken for a dead endpoint, unless the
  chain ends in an EOF.\<close>

lemma timeout_not_endpoint_down:
  assumes "is_timeout e" "\<not> err_is e IoEOF" "\<not> err_is e IoUnexpectedEOF"
  shows "\<not> is_endpoint_down e"
  using assms
  by (subst is_endpoint_down.simps) (simp add: is_timeout_as_net)

lemma endpoint_down_eof: "is_endpoint_down (Wrapped p (UrlError q IoEOF))"
  by (subst is_endpoint_down.simps) simp

end
