(* ===== verification/Core_Props.thy ===== *)
theory Core_Props
  imports Config Resource Runtime_Types
begin

text \<open>
  The properties of the components that keep no state: the budget arithmetic, the configuration
  and the status matrix of recovery.
\<close>

section \<open>Concrete values\<close>

definition demo_hold :: "model_id \<Rightarrow> int64 \<Rightarrow> hold" where
  "demo_hold i b = \<lparr>hold_id = i, bound = b, attributed = 0\<rparr>"

definition demo_raw_model :: "string \<Rightarrow> raw_model" where
  "demo_raw_model alias =
     \<lparr>rm_baseURL = Some ''http://localhost:9000/'', rm_name = '''', rm_aliases = [alias],
      rm_concurrencyLimit = None, rm_unlisted = None, rm_prepare = None, rm_timeouts = None,
      rm_profile = Some \<lparr>rp_profileId = Some ''p'', rp_loadPeak = Some 60, rp_inferencePeak = Some 70,
                         rp_residual = Some 5, rp_maxConcurrency = Some 1, rp_limits = []\<rparr>,
      rm_inferencePath = Some ''/v1/chat'', rm_maxBody = Some 1000\<rparr>"

definition demo_raw :: raw_file where
  "demo_raw =
     \<lparr>rf_listen = None, rf_logLevel = None, rf_healthCheckTimeout = None, rf_unloadTimeout = None,
      rf_queueTimeout = Some 30, rf_prepareTimeout = None, rf_statusTimeout = None,
      rf_drainTimeout = None, rf_shutdownTimeout = None, rf_maxQueueSize = None,
      rf_preload = [''a''],
      rf_gpu = Some \<lparr>rg_device = Some ''gpu0'', rg_margin = Some 10, rg_maxAge = None\<rparr>,
      rf_models = [(''a'', demo_raw_model ''first''), (''b'', demo_raw_model ''second'')]\<rparr>"

definition demo_url :: "string \<Rightarrow> (string \<times> string) option" where
  "demo_url s = Some (''http'', ''localhost:9000'')"

definition demo_built :: "string \<Rightarrow> string \<Rightarrow> model" where
  "demo_built i alias =
     \<lparr>m_id = i, m_baseURL = ''http://localhost:9000'', m_name = i, m_aliases = [alias],
      m_concurrencyLimit = 1, m_unlisted = False, m_prepare = None, m_prepareTimeout = 60 * second,
      m_healthCheckTimeout = 120 * second, m_unloadTimeout = 30 * second,
      m_profile = \<lparr>pr_profileId = ''p'', pr_loadPeak = 60, pr_inferencePeak = 70, pr_residual = 5,
                   pr_maxConcurrency = 1, pr_limits = []\<rparr>,
      m_inferencePath = ''/v1/chat'', m_maxBody = 1000\<rparr>"

lemma demo_path: "validate_inference_path i ''/v1/chat'' = Inr ()"
proof -
  have "\<not> sublist ''..'' ''/v1/chat''" "\<not> sublist ''?'' ''/v1/chat''" "''/v1/chat'' \<notin> control_paths"
    by code_simp+
  then show ?thesis by (simp add: validate_inference_path_def trim_space_id)
qed

lemma demo_resource:
  "resource i 1 (demo_raw_model alias) =
     Inr (\<lparr>pr_profileId = ''p'', pr_loadPeak = 60, pr_inferencePeak = 70, pr_residual = 5,
           pr_maxConcurrency = 1, pr_limits = []\<rparr>, ''/v1/chat'', 1000)"
  by (simp add: resource_def demo_raw_model_def non_neg_def demo_path trim_space_id int64_simps)

lemma demo_global: "\<exists>g. global_settings demo_raw = Inr g \<and> c_preload g = [''a'']
   \<and> c_prepareTimeout g = 60 * second \<and> c_healthCheckTimeout g = 120 * second \<and> c_unloadTimeout g = 30 * second"
  by (simp add: global_settings_def demo_raw_def pick_string_def pick_int_def parse_log_level_def
      trim_space_id lower_char_def seconds_def dur_seconds_exact)

lemma demo_accepted: "\<exists>c. to_config demo_url demo_raw = Inr c
    \<and> c_models c = [(''a'', demo_built ''a'' ''first''), (''b'', demo_built ''b'' ''second'')]"
proof -
  obtain g where g: "global_settings demo_raw = Inr g" "c_preload g = [''a'']"
    "c_prepareTimeout g = 60 * second" "c_healthCheckTimeout g = 120 * second"
    "c_unloadTimeout g = 30 * second"
    using demo_global by blast
  have m: "to_model demo_url i g (demo_raw_model al) =
      Inr ((demo_built i al)\<lparr>m_profile := no_profile, m_inferencePath := '''', m_maxBody := 0\<rparr>)"
    if "\<not> blank al" "al \<noteq> i" for i al
    using that g
    by (simp add: to_model_def demo_url_def demo_raw_model_def demo_built_def pick_int_def
        model_timeout_def trim_slashes_def)
  show ?thesis
    using g
    by (simp add: to_config_def demo_raw_def m to_gpu_def seconds_def pick_int_def dur_seconds_exact
        demo_resource demo_built_def int64_simps second_def)
qed

section \<open>Properties\<close>

text \<open>C36: A configuration that toConfig accepts is well-formed: at least one model, distinct names
  throughout, every model with a positive concurrency limit within its profile, non-negative peaks,
  a residual not above the load bound and an inference path that is absolute and no control path, a
  non-negative margin, a device, and only registered models to preload; and its alias table is the
  one Index would build.\<close>

theorem accepted_configuration:
  "to_config parse_url raw = Inr c \<Longrightarrow> config_ok c \<and> c_aliases c = Some (index_models c)"
  by (rule to_config_ok)

theorem accepted_configuration_witness:
  "\<exists>c. to_config demo_url demo_raw = Inr c
     \<and> c_models c = [(''a'', demo_built ''a'' ''first''), (''b'', demo_built ''b'' ''second'')] \<and> config_ok c"
  using demo_accepted accepted_configuration [of demo_url demo_raw] by blast

text \<open>C37: In an accepted configuration every id and every alias names exactly one model: looking up a
  name gives the model whose id or alias it is, and fails for every other name.\<close>

theorem names_resolve:
  assumes "to_config parse_url raw = Inr c"
  shows "(resolve c x = Some i) = (\<exists>m. (i, m) \<in> set (c_models c) \<and> (x = i \<or> x \<in> set (m_aliases m)))
    \<and> (\<forall>(j, m) \<in> set (c_models c). x = j \<or> x \<in> set (m_aliases m) \<longrightarrow> model_of c x = Some m)"
  using to_config_ok [OF assms] resolve_iff [of c x i] model_of_id [of c _ _ x] by blast

theorem names_resolve_witness:
  "\<exists>c. to_config demo_url demo_raw = Inr c \<and> resolve c ''second'' = Some ''b''
     \<and> model_of c ''second'' = Some (demo_built ''b'' ''second'')"
proof -
  obtain c where c: "to_config demo_url demo_raw = Inr c"
    "c_models c = [(''a'', demo_built ''a'' ''first''), (''b'', demo_built ''b'' ''second'')]"
    using demo_accepted by blast
  show ?thesis
    using names_resolve [OF c(1), of "''second''" "''b''"] c
    by (auto simp: demo_built_def)
qed

text \<open>C38: Whether a file is accepted, and the configuration it gives, do not depend on the order in which
  Go ranges over the map of models.\<close>

theorem configuration_ignores_map_order:
  assumes "to_config parse_url raw = Inr c" "mset models' = mset (rf_models raw)"
    and "distinct (map fst (rf_models raw))"
  shows "\<exists>d. to_config parse_url (raw\<lparr>rf_models := models'\<rparr>) = Inr d \<and> same_config c d"
  by (rule to_config_perm [OF assms])

theorem configuration_ignores_map_order_witness:
  "\<exists>d. to_config demo_url (demo_raw\<lparr>rf_models := rev (rf_models demo_raw)\<rparr>) = Inr d"
proof -
  obtain c where c: "to_config demo_url demo_raw = Inr c" using demo_accepted by blast
  have "distinct (map fst (rf_models demo_raw))" by (simp add: demo_raw_def)
  from configuration_ignores_map_order [OF c _ this, of "rev (rf_models demo_raw)"]
  show ?thesis by auto
qed

text \<open>C39: As long as the holds together stay below 2 to the 63, the loop over them with its early exit
  decides exactly whether they fit: the margin is not negative and not above the free bytes, and the
  unattributed parts of the holds are within what remains.\<close>

theorem budget_is_exact:
  assumes "list_all hold_wf hs" "(\<Sum>h\<leftarrow>hs. held h) < 2 ^ 63"
  shows "fits fr mg hs =
    (0 \<le> sint mg \<and> sint mg \<le> sint fr \<and> (\<Sum>h\<leftarrow>hs. held h) \<le> sint fr - sint mg)"
  by (rule fits_exact [OF assms])

theorem budget_is_exact_witness:
  "fits 100 10 [demo_hold ''a'' 60, demo_hold ''b'' 30] \<and> \<not> fits 100 10 [demo_hold ''a'' 60, demo_hold ''b'' 31]"
proof -
  have "list_all hold_wf [demo_hold ''a'' 60, demo_hold ''b'' b]" for b by (simp add: hold_wf_def demo_hold_def)
  from budget_is_exact [OF this, of 30 100 10] budget_is_exact [OF this, of 31 100 10]
  show ?thesis by (simp add: held_def demo_hold_def)
qed

text \<open>The sum of the holds is a 64-bit sum: two holds whose headrooms pass the largest 64-bit integer together
  are taken to fit in a hundred bytes.\<close>

theorem budget_sum_wraps:
  "fits 100 0 [demo_hold ''a'' 5, demo_hold ''b'' 9223372036854775807]
   \<and> list_all hold_wf [demo_hold ''a'' 5, demo_hold ''b'' 9223372036854775807]
   \<and> 100 < (\<Sum>h\<leftarrow>[demo_hold ''a'' 5, demo_hold ''b'' 9223372036854775807]. held h)"
proof (intro conjI)
  show "fits 100 0 [demo_hold ''a'' 5, demo_hold ''b'' 9223372036854775807]" by code_simp
qed (simp_all add: hold_wf_def held_def demo_hold_def)

text \<open>Only a status with no active request, in one of three combinations of state and residency,
  lets recovery change the local state: ready and resident, or unloaded or failed and not resident.\<close>

theorem status_matrix:
  "(classify_recovery st = RecReadyIdle)
      = (wire st = WireReady \<and> resid st = ResidencyResident \<and> activeRequests st = 0)
   \<and> (classify_recovery st = RecUnloadedIdle)
      = (wire st = WireUnloaded \<and> resid st = ResidencyNotResident \<and> activeRequests st = 0)
   \<and> (classify_recovery st = RecFailedNotResidentIdle)
      = (wire st = WireFailed \<and> resid st = ResidencyNotResident \<and> activeRequests st = 0)
   \<and> (classify_recovery st = RecInProgress) = (wire st = WireLoading \<or> wire st = WireUnloading)"
  using classify_ready_idle_iff classify_unloaded_iff classify_failed_idle_iff
  by (auto simp: classify_recovery_def)

text \<open>A status that timed out is never taken for a dead endpoint (which would run the prepare
  command), unless an EOF is in the chain.\<close>

theorem timeouts_are_not_a_dead_endpoint:
  assumes "is_timeout e" "\<not> err_is e IoEOF" "\<not> err_is e IoUnexpectedEOF"
  shows "classify_status_err (Some e) = StatusErrOther"
  using timeout_not_endpoint_down [OF assms] by (simp add: classify_status_err_def)

theorem timeouts_are_not_a_dead_endpoint_witness:
  "classify_status_err (Some (UrlError ''Get http://localhost:9000/control/status'' DeadlineExceeded)) = StatusErrOther"
  by (rule timeouts_are_not_a_dead_endpoint) (simp_all add: is_timeout_def)

text \<open>A timeout of the configuration is the given number of seconds and positive, up to the largest
  number of seconds a 64-bit duration holds; one second more is accepted and becomes negative.\<close>

theorem timeouts_are_seconds:
  "(\<forall>d. seconds name v dflt = Inr d \<longrightarrow> pick_int v dflt \<le> 9223372036 \<longrightarrow>
      d = pick_int v dflt * second \<and> 0 < d)
   \<and> seconds name (Some 9223372037) dflt = Inr (- 9223372036709551616)"
  using seconds_exact seconds_wraps by blast

theorem timeouts_are_seconds_witness:
  "seconds ''queueTimeout'' (Some 30) 180 = Inr 30000000000 \<and> (0 :: int) < 30000000000"
proof -
  obtain d where d: "seconds ''queueTimeout'' (Some 30) 180 = Inr d" by (simp add: seconds_def pick_int_def)
  then show ?thesis
    using timeouts_are_seconds [of "''queueTimeout''" "Some 30" 180]
    by (auto simp: pick_int_def second_def)
qed

end
