(* ===== verification/Fifo.thy ===== *)
theory Fifo
  imports Runtime_Types
begin

text \<open>
  The state of \<open>scheduler.FIFO\<close> (\<^verbatim>\<open>internal/router/scheduler/fifo.go\<close>, \<^verbatim>\<open>scheduler.go\<close>) and its
  elementary operations: the record, what the scheduler asks of its host (\<open>Effects\<close>, \<open>Swapper\<close>,
  \<open>Decider\<close>, \<open>RecoveryHost\<close>), the effects it emits, gates, drain deadlines and slot counts.

  The host is a record of the answers the scheduler may ask for while it handles one event. Calls
  that only act on the outside are recorded, in order, in the ghost field \<open>out\<close>. A Go map from
  which a missing key reads as the zero value is a partial map read with \<open>cnt\<close>; a map to \<open>bool\<close>
  that only ever stores \<open>true\<close> is the set of its keys.
\<close>

section \<open>Requests, events, effects\<close>

record req =
  req_id :: nat
  req_model :: model_id
  req_admit :: bool

datatype eff =
    EAdmit nat "goerr option"
  | EGrantError nat goerr
  | EGrantServe nat model_id bool
  | EStartUnload "model_id list" gtime
  | ERemind gtime
  | EStartLoad model_id
  | EBeginProbe nat model_id
  | EStartReply model_id bool

datatype phase = PhaseIdle | PhaseUnloading | PhaseLoading | PhaseRecover | PhaseSample

section \<open>The host\<close>

type_synonym evictor = "model_id \<Rightarrow> model_id list \<Rightarrow> model_id list"
type_synonym decider = "model_id \<Rightarrow> model_id list \<Rightarrow> goerr + model_id list"

datatype planner =
    NoPlanner
  | Swapper evictor
  | Decider evictor decider

record facts =
  f_states :: "(model_id \<times> rstate) list"
  f_markers :: "model_id set"
  f_inflight :: "model_id set"

text \<open>
  \<open>serve_taken\<close>, \<open>ctx_done\<close> and \<open>admit_taken\<close> are the outcomes of the channel operations on a
  request: whether its caller takes the grant, whether its context is done, whether the send on
  its admit channel goes through.
\<close>

record host =
  model_state :: "model_id \<Rightarrow> rstate option"
  running_models :: "(model_id \<times> rstate) list"
  clock_now :: gtime
  planner :: planner
  recovery_facts :: "facts option"
  serve_taken :: "nat \<Rightarrow> bool"
  ctx_done :: "nat \<Rightarrow> bool"
  admit_taken :: "nat \<Rightarrow> bool"

section \<open>The scheduler's state\<close>

record fifo =
  limits :: "model_id \<rightharpoonup> int"
  maxQ :: int
  nextID :: nat
  queued :: "req list"
  pending :: "model_id \<rightharpoonup> int"
  httpIn :: "model_id \<rightharpoonup> int"
  backend :: "model_id \<rightharpoonup> int"
  unresolved :: "model_id \<rightharpoonup> int"
  dispatchGen :: "model_id \<Rightarrow> nat"
  quietGen :: "model_id \<Rightarrow> nat"
  gateClosed :: "model_id set"
  gateAt :: "model_id \<rightharpoonup> gtime"
  drain :: gdur
  drainArmed :: bool
  unloadFail :: "model_id set"
  phase :: phase
  swapTarget :: model_id
  swapEvict :: "model_id list"
  unloadBegan :: bool
  tokenSeq :: nat
  recoverToken :: nat
  recoverOwner :: nat
  recoverModel :: model_id
  statusOrder :: "model_id list"
  statusPos :: nat
  needSample :: "model_id set"
  checked :: "model_id set"
  sawResources :: bool
  sawLifecycle :: bool
  skipRest :: bool
  inflightModel :: model_id
  probeStarted :: "model_id \<rightharpoonup> nat"
  acceptLate :: "nat set"
  seen :: "nat \<Rightarrow> model_id set"
  out :: "eff list"

text \<open>
  \<open>NewFIFO\<close>. The configuration is the part it reads: \<open>MaxQueueSize\<close>, \<open>DrainTimeout\<close> and the
  concurrency limit of each model; \<open>None\<close> is a nil configuration.
\<close>

record fifo_cfg =
  fc_maxQueue :: int
  fc_drain :: gdur
  fc_models :: "(model_id \<times> int) list"

definition new_fifo :: "fifo_cfg option \<Rightarrow> fifo" where
  "new_fifo cfg =
     \<lparr>limits = (case cfg of
          None \<Rightarrow> Map.empty
        | Some c \<Rightarrow> map_of (map (\<lambda>(id, lim). (id, if lim \<le> 0 then 1 else lim)) (fc_models c))),
      maxQ = (case cfg of None \<Rightarrow> 256 | Some c \<Rightarrow> if fc_maxQueue c > 0 then fc_maxQueue c else 256),
      nextID = 0, queued = [],
      pending = Map.empty, httpIn = Map.empty, backend = Map.empty, unresolved = Map.empty,
      dispatchGen = (\<lambda>_. 0), quietGen = (\<lambda>_. 0),
      gateClosed = {}, gateAt = Map.empty,
      drain = (case cfg of None \<Rightarrow> 180 * second
               | Some c \<Rightarrow> if fc_drain c > 0 then fc_drain c else 180 * second),
      drainArmed = False, unloadFail = {},
      phase = PhaseIdle, swapTarget = '''', swapEvict = [], unloadBegan = False,
      tokenSeq = 0, recoverToken = 0, recoverOwner = 0, recoverModel = '''',
      statusOrder = [], statusPos = 0, needSample = {}, checked = {},
      sawResources = False, sawLifecycle = False, skipRest = False, inflightModel = '''',
      probeStarted = Map.empty, acceptLate = {}, seen = (\<lambda>_. {}), out = []\<rparr>"

section \<open>Elementary operations\<close>

definition emit :: "eff \<Rightarrow> fifo \<Rightarrow> fifo" where
  "emit e s = s\<lparr>out := out s @ [e]\<rparr>"

definition slots :: "fifo \<Rightarrow> model_id \<Rightarrow> int" where
  "slots s m = cnt (pending s) m + cnt (httpIn s) m + cnt (unresolved s) m"

definition limit :: "fifo \<Rightarrow> model_id \<Rightarrow> int" where
  "limit s m = (case limits s m of Some n \<Rightarrow> if n > 0 then n else 1 | None \<Rightarrow> 1)"

definition protected :: "fifo \<Rightarrow> model_id \<Rightarrow> bool" where
  "protected s m =
     (cnt (pending s) m + cnt (httpIn s) m + cnt (unresolved s) m + cnt (backend s) m > 0)"

definition any_busy :: "fifo \<Rightarrow> model_id list \<Rightarrow> bool" where
  "any_busy s ids =
     list_ex (\<lambda>i. cnt (pending s) i + cnt (httpIn s) i + cnt (unresolved s) i
                   + cnt (backend s) i > 0) ids"

definition close_gate :: "host \<Rightarrow> model_id \<Rightarrow> fifo \<Rightarrow> fifo" where
  "close_gate h i s =
     s\<lparr>gateAt := (if i \<notin> gateClosed s then (gateAt s)(i \<mapsto> clock_now h) else gateAt s),
       gateClosed := insert i (gateClosed s)\<rparr>"

definition open_gate :: "model_id \<Rightarrow> fifo \<Rightarrow> fifo" where
  "open_gate i s = s\<lparr>gateClosed := gateClosed s - {i}, gateAt := (gateAt s)(i := None)\<rparr>"

definition drain_deadline :: "host \<Rightarrow> fifo \<Rightarrow> model_id list \<Rightarrow> gtime" where
  "drain_deadline h s ids =
     fold (\<lambda>i deadline. case gateAt s i of
               None \<Rightarrow> deadline
             | Some at \<Rightarrow> if at + drain s < deadline then at + drain s else deadline)
          ids (clock_now h + drain s)"

definition drain_expired :: "host \<Rightarrow> fifo \<Rightarrow> model_id list \<Rightarrow> bool" where
  "drain_expired h s ids =
     (if drain s \<le> 0 then False
      else list_ex (\<lambda>i. case gateAt s i of
                       None \<Rightarrow> False
                     | Some at \<Rightarrow> \<not> clock_now h < at + drain s) ids)"

definition arm_drain :: "host \<Rightarrow> model_id list \<Rightarrow> fifo \<Rightarrow> fifo" where
  "arm_drain h ids s =
     (if drainArmed s then s
      else emit (ERemind (drain_deadline h s ids)) (s\<lparr>drainArmed := True\<rparr>))"

text \<open>
  \<open>runningIDs\<close>: while a swap is in progress its target comes first, then the running models of
  the host, in the order the map yields them.
\<close>

definition is_up :: "rstate \<Rightarrow> bool" where
  "is_up st = (st \<noteq> StateStopped \<and> st \<noteq> StateUnknown \<and> st \<noteq> StateShutdown)"

definition running_ids :: "host \<Rightarrow> fifo \<Rightarrow> model_id list" where
  "running_ids h s =
     (if swapTarget s \<noteq> '''' \<and> (phase s = PhaseLoading \<or> phase s = PhaseUnloading)
      then swapTarget s
           # map fst (filter (\<lambda>(i, st). i \<noteq> swapTarget s \<and> is_up st) (running_models h))
      else map fst (filter (\<lambda>(i, st). is_up st) (running_models h)))"

definition eviction_for :: "host \<Rightarrow> model_id \<Rightarrow> model_id list \<Rightarrow> model_id list" where
  "eviction_for h target running =
     (case planner h of
        NoPlanner \<Rightarrow> []
      | Swapper evict \<Rightarrow> evict target running
      | Decider evict _ \<Rightarrow> evict target running)"

text \<open>The choice of victims in \<open>tryDispatch\<close>: \<open>Decide\<close> when the planner has it.\<close>

definition plan_evict :: "host \<Rightarrow> model_id \<Rightarrow> model_id list \<Rightarrow> goerr + model_id list" where
  "plan_evict h target running =
     (case planner h of
        Decider _ decide \<Rightarrow> decide target running
      | Swapper evict \<Rightarrow> Inr (evict target running)
      | NoPlanner \<Rightarrow> Inr [])"

definition blocked :: "host \<Rightarrow> fifo \<Rightarrow> model_id \<Rightarrow> bool" where
  "blocked h s m =
     (case planner h of
        NoPlanner \<Rightarrow> m \<in> unloadFail s
      | _ \<Rightarrow> list_ex (\<lambda>v. v \<in> unloadFail s) (eviction_for h m (running_ids h s)))"

text \<open>
  \<open>reopenUnusedGates\<close>. The loop deletes from \<open>gateClosed\<close> every key it visits that is not needed,
  so its result is the restriction to the needed ids, in whatever order the map is visited.
\<close>

definition needed_gates :: "host \<Rightarrow> fifo \<Rightarrow> model_id set" where
  "needed_gates h s =
     (if queued s \<noteq> [] \<and> phase s = PhaseIdle
      then set (eviction_for h (req_model (hd (queued s))) (running_ids h s)) else {})
     \<union> (if phase s \<noteq> PhaseIdle \<and> unloadBegan s then set (swapEvict s) else {})"

definition reopen_unused_gates :: "host \<Rightarrow> fifo \<Rightarrow> fifo" where
  "reopen_unused_gates h s =
     (if unloadBegan s \<and> phase s \<noteq> PhaseIdle then s
      else s\<lparr>gateClosed := gateClosed s \<inter> needed_gates h s,
             gateAt := (\<lambda>i. if i \<in> gateClosed s \<and> i \<notin> needed_gates h s then None
                             else gateAt s i)\<rparr>)"

definition set_phase :: "phase \<Rightarrow> fifo \<Rightarrow> fifo" where
  "set_phase p s = s\<lparr>acceptLate := (if p \<noteq> PhaseIdle then {} else acceptLate s), phase := p\<rparr>"

text \<open>The counters a status may touch: \<open>applyBackend\<close>, which \<open>OnStatus\<close> spells out inline.\<close>

definition apply_backend :: "model_id \<Rightarrow> int \<Rightarrow> nat \<Rightarrow> fifo \<Rightarrow> fifo" where
  "apply_backend m active gen s =
     s\<lparr>backend := (if active \<le> 0 then (backend s)(m := None) else (backend s)(m \<mapsto> active)),
       unresolved :=
         (if active = 0 \<and> cnt (pending s) m = 0 \<and> cnt (httpIn s) m = 0 \<and> gen \<noteq> 0
             \<and> gen = dispatchGen s m \<and> gen = quietGen s m
          then (unresolved s)(m := None) else unresolved s)\<rparr>"

end
