(* ===== verification/Fifo_Dispatch.thy ===== *)
theory Fifo_Dispatch
  imports Fifo
begin

text \<open>
  The control flow of the scheduler: \<open>planRecovery\<close>, \<open>maybeRecover\<close> and the probe loop of
  \<^verbatim>\<open>recover.go\<close>, \<open>tryDispatch\<close> and the event handlers of \<^verbatim>\<open>fifo.go\<close>, and the handlers of probe
  results. Every recursive call of \<open>tryDispatch\<close> is its last action, after it has removed the
  head of the queue: one activation is \<open>dispatch_step\<close>, which ends with \<open>Again\<close> where the code
  calls itself, and \<open>try_dispatch\<close> is the loop.
\<close>

section \<open>Planning a recovery round\<close>

definition filter_seen :: "model_id set \<Rightarrow> model_id list \<Rightarrow> model_id list" where
  "filter_seen sn ids = filter (\<lambda>m. m \<notin> sn) ids"

text \<open>
  \<open>planRecovery\<close>. The keys of the state map are sorted first; what remains of \<open>want\<close> is ranged
  over in map order and sorted again.
\<close>

definition wants_status :: "facts \<Rightarrow> model_id set \<Rightarrow> model_id \<Rightarrow> bool" where
  "wants_status f uf m =
     (let st = map_of (f_states f) m in
      if m \<in> f_inflight f \<and> st = Some StateStarting then False
      else st = Some StateFailed \<or> st = Some StateUnknown \<or> m \<in> uf)"

definition plan_recovery ::
  "model_id \<Rightarrow> facts \<Rightarrow> model_id set \<Rightarrow> model_id list \<times> model_id list" where
  "plan_recovery target f uf =
     (let ids = sort (map fst (f_states f));
          want = filter (wants_status f uf) ids;
          samples = filter (\<lambda>m. m \<in> f_markers f) ids;
          want' = filter (\<lambda>m. m \<notin> f_markers f) want;
          status = (if target \<in> set want' then [target] else []);
          rest = filter (\<lambda>m. m \<noteq> target) want'
      in (status @ sort rest, samples))"

section \<open>The probe loop\<close>

definition mark_seen :: "nat \<Rightarrow> model_id \<Rightarrow> fifo \<Rightarrow> fifo" where
  "mark_seen i m s =
     (if i = 0 \<or> m = '''' then s else s\<lparr>seen := (seen s)(i := insert m (seen s i))\<rparr>)"

definition begin_probe :: "model_id \<Rightarrow> fifo \<Rightarrow> fifo" where
  "begin_probe m s =
     emit (EBeginProbe (recoverToken s) m)
       (mark_seen (recoverOwner s) m
         (s\<lparr>inflightModel := m, probeStarted := (probeStarted s)(m \<mapsto> recoverToken s)\<rparr>))"

text \<open>The loop of \<open>launchProbe\<close>: \<open>True\<close> when a probe was begun, \<open>False\<close> at the end of the order.\<close>

function launch_scan :: "fifo \<Rightarrow> bool \<times> fifo" where
  "launch_scan s =
     (if statusPos s < length (statusOrder s) then
        (if statusOrder s ! statusPos s \<in> checked s
         then launch_scan (s\<lparr>statusPos := Suc (statusPos s)\<rparr>)
         else (True, begin_probe (statusOrder s ! statusPos s) s))
      else (False, s))"
  by pat_completeness auto
termination
  by (relation "measure (\<lambda>s. length (statusOrder s) - statusPos s)") auto

declare launch_scan.simps [simp del]

text \<open>The fields both branches of \<open>maybeRecover\<close> set when a round begins.\<close>

definition start_round ::
  "nat \<Rightarrow> req \<Rightarrow> model_id list \<Rightarrow> model_id list \<Rightarrow> model_id \<Rightarrow> fifo \<Rightarrow> fifo" where
  "start_round tok head status samples inflight s =
     (set_phase PhaseRecover s)
       \<lparr>recoverToken := tok, recoverOwner := req_id head, recoverModel := req_model head,
        statusOrder := status, statusPos := 0, needSample := set samples, checked := {},
        sawResources := False, sawLifecycle := False, skipRest := False,
        inflightModel := inflight\<rparr>"

text \<open>
  \<open>maybeRecover\<close>: \<open>None\<close> where the code returns false (it has then changed nothing). The call of
  \<open>launchProbe\<close> at the end starts with nothing checked and a non-empty order, so it begins a
  probe (\<open>launch_scan_first\<close> below) and its fall-through to \<open>finishProbes\<close> is not reached here.
\<close>

definition maybe_recover :: "host \<Rightarrow> req \<Rightarrow> fifo \<Rightarrow> fifo option" where
  "maybe_recover h head s =
     (case recovery_facts h of
        None \<Rightarrow> None
      | Some f \<Rightarrow>
          let st = map_of (f_states f) (req_model head) in
          if st = Some StateReady then None
          else if st = Some StateStarting \<and> req_model head \<in> f_inflight f then None
          else
            let plan = plan_recovery (req_model head) f (unloadFail s);
                status = filter_seen (seen s (req_id head)) (fst plan);
                samples = snd plan
            in if status = [] \<and> samples = [] then None
               else case find (\<lambda>m. probeStarted s m \<noteq> None) status of
                 Some m \<Rightarrow>
                   Some (start_round (the (probeStarted s m)) head status samples m s)
               | None \<Rightarrow>
                   let tok = tokenSeq s + 1;
                       s1 = start_round tok head status samples '''' (s\<lparr>tokenSeq := tok\<rparr>)
                   in if status = [] then Some (set_phase PhaseSample s1)
                      else Some (snd (launch_scan s1)))"

section \<open>Dispatch\<close>

definition grant_error :: "req \<Rightarrow> goerr \<Rightarrow> fifo \<Rightarrow> fifo" where
  "grant_error r e s = emit (EGrantError (req_id r) e) s"

text \<open>Removing the head of the queue and answering it with an error.\<close>

definition fail_head :: "req \<Rightarrow> req list \<Rightarrow> goerr \<Rightarrow> fifo \<Rightarrow> fifo" where
  "fail_head head rest e s = grant_error head e (s\<lparr>queued := rest\<rparr>)"

definition fail_drain :: "req \<Rightarrow> req list \<Rightarrow> model_id list \<Rightarrow> fifo \<Rightarrow> fifo" where
  "fail_drain head rest evict s =
     fail_head head rest (Sched ErrDrainTimeout) ((fold open_gate evict s)\<lparr>drainArmed := False\<rparr>)"

definition grant_head :: "host \<Rightarrow> req \<Rightarrow> req list \<Rightarrow> fifo \<Rightarrow> fifo" where
  "grant_head h head rest s =
     (let m = req_model head;
          ok = serve_taken h (req_id head);
          s1 = emit (EGrantServe (req_id head) m ok) (s\<lparr>queued := rest\<rparr>)
      in if ok
         then s1\<lparr>dispatchGen := (dispatchGen s1)(m := dispatchGen s1 m + 1),
                 quietGen := (quietGen s1)(m := 0),
                 pending := incr m (pending s1)\<rparr>
         else s1)"

definition start_unload :: "host \<Rightarrow> req \<Rightarrow> model_id list \<Rightarrow> fifo \<Rightarrow> fifo" where
  "start_unload h head evict s =
     (let s1 = (set_phase PhaseUnloading s)
                 \<lparr>swapTarget := req_model head, swapEvict := evict, unloadBegan := True,
                  drainArmed := False\<rparr>
      in emit (EStartUnload evict (drain_deadline h s1 evict)) s1)"

definition start_load :: "req \<Rightarrow> fifo \<Rightarrow> fifo" where
  "start_load head s =
     emit (EStartLoad (req_model head)) ((set_phase PhaseLoading s)\<lparr>swapTarget := req_model head\<rparr>)"

datatype outcome = Halt fifo | Again fifo

definition dispatch_head :: "host \<Rightarrow> req \<Rightarrow> req list \<Rightarrow> fifo \<Rightarrow> outcome" where
  "dispatch_head h head rest s =
     (if blocked h s (req_model head) then Again (fail_head head rest (Sched ErrUnloadBlocked) s)
      else if slots s (req_model head) \<ge> limit s (req_model head) then Halt s
      else case plan_evict h (req_model head) (running_ids h s) of
          Inl e \<Rightarrow> Again (fail_head head rest e s)
        | Inr evict \<Rightarrow>
            let s1 = fold (close_gate h) evict s in
            if evict \<noteq> [] then
              (if drain_expired h s1 evict then Again (fail_drain head rest evict s1)
               else if any_busy s1 evict then Halt (arm_drain h evict s1)
               else if list_ex (\<lambda>v. v \<in> unloadFail s1) evict
                 then Again (fail_head head rest (Sched ErrUnloadBlocked) s1)
               else Halt (start_unload h head evict s1))
            else if model_state h (req_model head) = Some StateReady
              then Again (grant_head h head rest s1)
            else Halt (start_load head s1))"

definition dispatch_step :: "host \<Rightarrow> fifo \<Rightarrow> outcome" where
  "dispatch_step h s =
     (if phase s = PhaseRecover \<or> phase s = PhaseSample then Halt s
      else case (if phase s = PhaseIdle \<and> queued s \<noteq> []
                 then maybe_recover h (hd (queued s)) s else None) of
          Some s' \<Rightarrow> Halt s'
        | None \<Rightarrow>
            let s1 = reopen_unused_gates h s in
            (case queued s1 of
               [] \<Rightarrow> Halt s1
             | head # rest \<Rightarrow>
                 if phase s1 \<noteq> PhaseIdle then Halt s1 else dispatch_head h head rest s1))"

section \<open>The loop terminates: each round removes the head of the queue\<close>

lemma queued_emit [simp]: "queued (emit e s) = queued s"
  by (simp add: emit_def)

lemma queued_set_phase [simp]: "queued (set_phase p s) = queued s"
  by (simp add: set_phase_def)

lemma queued_open_gate [simp]: "queued (open_gate m s) = queued s"
  by (simp add: open_gate_def)

lemma queued_close_gate [simp]: "queued (close_gate h m s) = queued s"
  by (simp add: close_gate_def)

lemma queued_fold_open [simp]: "queued (fold open_gate ms s) = queued s"
  by (induction ms arbitrary: s) auto

lemma queued_fold_close [simp]: "queued (fold (close_gate h) ms s) = queued s"
  by (induction ms arbitrary: s) auto

lemma queued_reopen [simp]: "queued (reopen_unused_gates h s) = queued s"
  by (simp add: reopen_unused_gates_def)

lemma queued_fail_head [simp]: "queued (fail_head r rest e s) = rest"
  by (simp add: fail_head_def grant_error_def)

lemma queued_fail_drain [simp]: "queued (fail_drain r rest ev s) = rest"
  by (simp add: fail_drain_def)

lemma queued_grant_head [simp]: "queued (grant_head h r rest s) = rest"
  by (simp add: grant_head_def Let_def)

lemma dispatch_head_Again: "dispatch_head h r rest s = Again s' \<Longrightarrow> queued s' = rest"
  by (auto simp: dispatch_head_def Let_def split: if_splits sum.splits)

lemma dispatch_step_Again:
  assumes "dispatch_step h s = Again s'"
  shows "queued s = hd (queued s) # queued s'"
  using assms
  by (auto simp: dispatch_step_def Let_def dest!: dispatch_head_Again
      split: if_splits option.splits list.splits)

function try_dispatch :: "host \<Rightarrow> fifo \<Rightarrow> fifo" where
  "try_dispatch h s =
     (case dispatch_step h s of Halt s' \<Rightarrow> s' | Again s' \<Rightarrow> try_dispatch h s')"
  by pat_completeness auto
termination
proof (relation "measure (\<lambda>(h, s). length (queued s))")
  fix h s s'
  assume "dispatch_step h s = Again s'"
  then have "queued s = hd (queued s) # queued s'" by (rule dispatch_step_Again)
  then have "length (queued s) = Suc (length (queued s'))" by (metis length_Cons)
  then show "((h, s'), h, s) \<in> measure (\<lambda>(h, s). length (queued s))" by simp
qed simp

declare try_dispatch.simps [simp del]

end
