(* ===== verification/Fifo_Handlers.thy ===== *)
theory Fifo_Handlers
  imports Fifo_Dispatch
begin

text \<open>
  The handlers of the scheduler: one definition per \<open>On...\<close> method of \<^verbatim>\<open>fifo.go\<close> and per entry
  point of \<^verbatim>\<open>recover.go\<close>, and the step function over their events. A handler runs to its end on
  the router's loop; the host record gives the answers it gets meanwhile.
\<close>

section \<open>Admission\<close>

definition reject_admit :: "host \<Rightarrow> req \<Rightarrow> goerr \<Rightarrow> fifo \<Rightarrow> fifo" where
  "reject_admit h r e s =
     (if req_admit r then
        (if admit_taken h (req_id r) then emit (EAdmit (req_id r) (Some e)) s
         else grant_error r e s)
      else grant_error r e s)"

definition admit :: "host \<Rightarrow> req \<Rightarrow> goerr option \<Rightarrow> fifo \<Rightarrow> bool \<times> fifo" where
  "admit h r err s =
     (if \<not> req_admit r then (err = None, s)
      else if ctx_done h (req_id r) then (False, s)
      else if admit_taken h (req_id r) then (err = None, emit (EAdmit (req_id r) err) s)
      else (False, s))"

definition on_request :: "host \<Rightarrow> req \<Rightarrow> fifo \<Rightarrow> fifo" where
  "on_request h r0 s0 =
     (let s = (if req_id r0 = 0 then s0\<lparr>nextID := nextID s0 + 1\<rparr> else s0);
          r = (if req_id r0 = 0 then r0\<lparr>req_id := nextID s\<rparr> else r0)
      in if model_state h (req_model r) = None then reject_admit h r (Sched ErrModelNotFound) s
         else if int (length (queued s)) \<ge> maxQ s then reject_admit h r (Sched ErrQueueFull) s
         else (case admit h r None s of
                 (False, s1) \<Rightarrow> s1
               | (True, s1) \<Rightarrow> try_dispatch h (s1\<lparr>queued := queued s1 @ [r]\<rparr>)))"

section \<open>Leaving the queue\<close>

fun remove_req :: "nat \<Rightarrow> req list \<Rightarrow> req list" where
  "remove_req i [] = []"
| "remove_req i (q # qs) = (if req_id q = i then qs else q # remove_req i qs)"

definition drop_owner :: "nat \<Rightarrow> fifo \<Rightarrow> fifo" where
  "drop_owner i s =
     (if recoverOwner s \<noteq> i then s
      else if phase s \<noteq> PhaseRecover \<and> phase s \<noteq> PhaseSample then s
      else s\<lparr>acceptLate := (if recoverToken s \<noteq> 0 then insert (recoverToken s) (acceptLate s)
                            else acceptLate s),
             phase := PhaseIdle, recoverOwner := 0, recoverToken := 0\<rparr>)"

definition on_cancel :: "host \<Rightarrow> nat \<Rightarrow> fifo \<Rightarrow> fifo" where
  "on_cancel h i s =
     (if list_ex (\<lambda>q. req_id q = i) (queued s)
      then try_dispatch h (drop_owner i (s\<lparr>queued := remove_req i (queued s)\<rparr>))
      else s)"

definition on_queue_timeout :: "host \<Rightarrow> nat \<Rightarrow> fifo \<Rightarrow> fifo" where
  "on_queue_timeout h i s =
     (case find (\<lambda>q. req_id q = i) (queued s) of
        None \<Rightarrow> s
      | Some q \<Rightarrow>
          try_dispatch h
            (grant_error q (Sched ErrQueueTimeout)
              (drop_owner i (s\<lparr>queued := remove_req i (queued s)\<rparr>))))"

section \<open>Serving\<close>

definition on_proxy_start :: "model_id \<Rightarrow> bool \<Rightarrow> fifo \<Rightarrow> fifo" where
  "on_proxy_start m has_reply s =
     (let ok = cnt (pending s) m > 0;
          s1 = (if ok then s\<lparr>pending := decr m (pending s), httpIn := incr m (httpIn s)\<rparr> else s)
      in if has_reply then emit (EStartReply m ok) s1 else s1)"

definition on_cancel_granted :: "host \<Rightarrow> model_id \<Rightarrow> fifo \<Rightarrow> fifo" where
  "on_cancel_granted h m s =
     try_dispatch h
       (if cnt (pending s) m > 0 then s\<lparr>pending := decr m (pending s)\<rparr> else s)"

definition on_serve_done :: "host \<Rightarrow> model_id \<Rightarrow> fifo \<Rightarrow> fifo" where
  "on_serve_done h m s =
     try_dispatch h
       (if cnt (httpIn s) m > 0 then
          (let s1 = s\<lparr>httpIn := decr m (httpIn s), unresolved := incr m (unresolved s)\<rparr>
           in if cnt (pending s1) m = 0 \<and> cnt (httpIn s1) m = 0
              then s1\<lparr>quietGen := (quietGen s1)(m := dispatchGen s1 m)\<rparr> else s1)
        else s)"

definition on_status :: "host \<Rightarrow> model_id \<Rightarrow> int \<Rightarrow> goerr option \<Rightarrow> nat \<Rightarrow> fifo \<Rightarrow> fifo" where
  "on_status h m active err gen s =
     (if err \<noteq> None then s else try_dispatch h (apply_backend m active gen s))"

definition proof_gen :: "fifo \<Rightarrow> model_id \<Rightarrow> nat" where
  "proof_gen s m = quietGen s m"

definition on_backend_done :: "host \<Rightarrow> model_id \<Rightarrow> fifo \<Rightarrow> fifo" where
  "on_backend_done h m s = try_dispatch h (s\<lparr>backend := (backend s)(m := None)\<rparr>)"

section \<open>The end of an unload or a load\<close>

definition on_unload_done :: "host \<Rightarrow> goerr option \<Rightarrow> fifo \<Rightarrow> fifo" where
  "on_unload_done h err s =
     (if phase s \<noteq> PhaseUnloading then s
      else case err of
        Some e \<Rightarrow>
          let timed_out = err_is e (Sched ErrDrainTimeout);
              s1 = s\<lparr>unloadFail := (if timed_out then unloadFail s
                                    else unloadFail s \<union> set (swapEvict s)),
                     phase := PhaseIdle, unloadBegan := False\<rparr>
          in try_dispatch h
               (case queued s1 of
                  [] \<Rightarrow> s1
                | head # rest \<Rightarrow>
                    fail_head head rest
                      (Sched (if timed_out then ErrDrainTimeout else ErrUnloadBlocked)) s1)
      | None \<Rightarrow>
          try_dispatch h
            (reopen_unused_gates h
              ((fold open_gate (swapEvict s) s)
                 \<lparr>phase := PhaseIdle, unloadBegan := False, swapTarget := '''', swapEvict := []\<rparr>)))"

definition on_swap_done :: "host \<Rightarrow> model_id \<Rightarrow> goerr option \<Rightarrow> fifo \<Rightarrow> fifo" where
  "on_swap_done h m err s =
     (if phase s \<noteq> PhaseLoading \<or> m \<noteq> swapTarget s then s
      else
        let target = swapTarget s;
            s1 = s\<lparr>phase := PhaseIdle, unloadBegan := False, swapTarget := '''', swapEvict := []\<rparr>
        in case err of
             None \<Rightarrow> try_dispatch h s1
           | Some e \<Rightarrow>
               try_dispatch h
                 (case queued s1 of
                    [] \<Rightarrow> s1
                  | head # rest \<Rightarrow>
                      if req_model head = target
                      then fail_head head rest
                             (Sched (case as_sched e of Some se \<Rightarrow> se | None \<Rightarrow> ErrLoadFailed)) s1
                      else s1))"

definition on_remind :: "host \<Rightarrow> fifo \<Rightarrow> fifo" where
  "on_remind h s = try_dispatch h (s\<lparr>drainArmed := False\<rparr>)"

definition on_shutdown :: "goerr \<Rightarrow> fifo \<Rightarrow> fifo" where
  "on_shutdown e s = (fold (\<lambda>q. grant_error q e) (queued s) s)\<lparr>queued := []\<rparr>"

section \<open>Recovery\<close>

datatype recover_mode = RecoverDrop | RecoverCurrent | RecoverLate

record probe_note =
  n_token :: nat
  n_model :: model_id
  n_mode :: recover_mode
  n_class :: recovery_class
  n_kind :: status_err_kind
  n_ack :: apply_code
  n_active :: int
  n_proof :: nat
  n_applied :: bool

definition recover_mode_of :: "fifo \<Rightarrow> nat \<Rightarrow> recover_mode" where
  "recover_mode_of s token =
     (if phase s = PhaseRecover \<and> token = recoverToken s then RecoverCurrent
      else if phase s = PhaseIdle \<and> token \<in> acceptLate s then RecoverLate
      else RecoverDrop)"

definition forget_probe :: "model_id \<Rightarrow> fifo \<Rightarrow> fifo" where
  "forget_probe m s = s\<lparr>probeStarted := (probeStarted s)(m := None)\<rparr>"

definition end_round :: "fifo \<Rightarrow> fifo" where
  "end_round s = s\<lparr>phase := PhaseIdle, recoverToken := 0, recoverOwner := 0\<rparr>"

definition fail_owner :: "host \<Rightarrow> goerr \<Rightarrow> fifo \<Rightarrow> fifo" where
  "fail_owner h e s =
     (let owner = recoverOwner s;
          s1 = (end_round s)\<lparr>inflightModel := ''''\<rparr>
      in try_dispatch h
           (case queued s1 of
              [] \<Rightarrow> s1
            | head # rest \<Rightarrow> if req_id head = owner then fail_head head rest e s1 else s1))"

definition finish_probes :: "host \<Rightarrow> fifo \<Rightarrow> fifo" where
  "finish_probes h s =
     (if skipRest s then try_dispatch h (end_round s)
      else if sawResources s then fail_owner h (Sched ErrResources) s
      else if sawLifecycle s then fail_owner h (Sched ErrLifecyclePending) s
      else if needSample s \<noteq> {} then set_phase PhaseSample s
      else try_dispatch h (end_round s))"

definition launch_probe :: "host \<Rightarrow> fifo \<Rightarrow> fifo" where
  "launch_probe h s =
     (case launch_scan s of (True, s') \<Rightarrow> s' | (False, s') \<Rightarrow> finish_probes h s')"

definition absorb :: "probe_note \<Rightarrow> fifo \<Rightarrow> fifo" where
  "absorb n s =
     (if n_kind n = StatusErrEndpointDown
      then (if n_model n \<noteq> recoverModel s then s\<lparr>sawResources := True\<rparr> else s)
      else if n_kind n = StatusErrOther \<or> n_class n = RecInvalid then s\<lparr>sawResources := True\<rparr>
      else
        let s1 = (if n_applied n then apply_backend (n_model n) (n_active n) (n_proof n) s else s)
        in case n_class n of
             RecReadyIdle \<Rightarrow>
               (let s2 = (if n_applied n
                          then s1\<lparr>unloadFail := unloadFail s1 - {n_model n},
                                  needSample := needSample s1 - {n_model n}\<rparr>
                          else s1)
                in if n_model n = recoverModel s2 then s2\<lparr>skipRest := True\<rparr> else s2)
           | RecUnloadedIdle \<Rightarrow>
               (if n_applied n then s1\<lparr>needSample := insert (n_model n) (needSample s1)\<rparr> else s1)
           | RecFailedNotResidentIdle \<Rightarrow>
               (if n_applied n then s1\<lparr>needSample := insert (n_model n) (needSample s1)\<rparr> else s1)
           | RecReadyBusy \<Rightarrow> s1\<lparr>sawLifecycle := True\<rparr>
           | RecInProgress \<Rightarrow> s1\<lparr>sawLifecycle := True\<rparr>
           | RecFailedOccupied \<Rightarrow> s1\<lparr>sawResources := True\<rparr>
           | RecFailedNotResidentBusy \<Rightarrow> s1\<lparr>sawResources := True\<rparr>
           | RecInvalid \<Rightarrow> s1\<lparr>sawResources := True\<rparr>)"

definition note_late :: "host \<Rightarrow> probe_note \<Rightarrow> fifo \<Rightarrow> fifo" where
  "note_late h n s =
     (if n_ack n = ApplyStale then s
      else
        let s1 = (if n_applied n then apply_backend (n_model n) (n_active n) (n_proof n) s else s);
            s2 = (if n_applied n \<and> n_class n = RecReadyIdle
                  then s1\<lparr>unloadFail := unloadFail s1 - {n_model n}\<rparr> else s1)
        in if phase s2 = PhaseIdle then try_dispatch h s2 else s2)"

definition note_probe :: "host \<Rightarrow> probe_note \<Rightarrow> fifo \<Rightarrow> fifo" where
  "note_probe h n s0 =
     (let s = forget_probe (n_model n) s0 in
      if n_mode n = RecoverLate then note_late h n s
      else
        let s1 = mark_seen (recoverOwner s) (n_model n) s in
        if phase s1 \<noteq> PhaseRecover \<or> n_token n \<noteq> recoverToken s1 then s1
        else
          let s2 = s1\<lparr>checked := insert (n_model n) (checked s1), inflightModel := ''''\<rparr> in
          if n_ack n = ApplyStale then fail_owner h (Sched ErrResources) s2
          else if n_ack n = ApplyBusy then
            (if n_model n = recoverModel s2 \<and> model_state h (n_model n) = Some StateStarting
             then try_dispatch h (end_round s2)
             else fail_owner h (Sched ErrLifecyclePending) s2)
          else
            let s3 = absorb n s2 in
            if skipRest s3 then try_dispatch h (end_round s3)
            else launch_probe h (s3\<lparr>statusPos := Suc (statusPos s3)\<rparr>))"

definition marker_cleared :: "host \<Rightarrow> model_id \<Rightarrow> fifo \<Rightarrow> fifo" where
  "marker_cleared h m s =
     (let s1 = s\<lparr>needSample := needSample s - {m}, unloadFail := unloadFail s - {m}\<rparr>
      in if phase s1 = PhaseSample \<and> needSample s1 = {} then try_dispatch h (end_round s1) else s1)"

definition sample_failed :: "host \<Rightarrow> fifo \<Rightarrow> fifo" where
  "sample_failed h s =
     (if phase s \<noteq> PhaseSample then s else fail_owner h (Sched ErrNotBooted) s)"

section \<open>The step function\<close>

datatype fifo_event =
    OnRequest req
  | OnCancel nat
  | OnQueueTimeout nat
  | OnProxyStart model_id bool
  | OnCancelGranted model_id
  | OnServeDone model_id
  | OnStatus model_id int "goerr option" nat
  | OnBackendDone model_id
  | OnUnloadDone "goerr option"
  | OnSwapDone model_id "goerr option"
  | OnRemind
  | OnShutdown goerr
  | OnProbe probe_note
  | OnForget model_id
  | OnMarkerCleared model_id
  | OnSampleFailed

fun fifo_step :: "fifo \<Rightarrow> host \<times> fifo_event \<Rightarrow> fifo" where
  "fifo_step s (h, OnRequest r) = on_request h r s"
| "fifo_step s (h, OnCancel i) = on_cancel h i s"
| "fifo_step s (h, OnQueueTimeout i) = on_queue_timeout h i s"
| "fifo_step s (h, OnProxyStart m b) = on_proxy_start m b s"
| "fifo_step s (h, OnCancelGranted m) = on_cancel_granted h m s"
| "fifo_step s (h, OnServeDone m) = on_serve_done h m s"
| "fifo_step s (h, OnStatus m a e g) = on_status h m a e g s"
| "fifo_step s (h, OnBackendDone m) = on_backend_done h m s"
| "fifo_step s (h, OnUnloadDone e) = on_unload_done h e s"
| "fifo_step s (h, OnSwapDone m e) = on_swap_done h m e s"
| "fifo_step s (h, OnRemind) = on_remind h s"
| "fifo_step s (h, OnShutdown e) = on_shutdown e s"
| "fifo_step s (h, OnProbe n) = note_probe h n s"
| "fifo_step s (h, OnForget m) = forget_probe m s"
| "fifo_step s (h, OnMarkerCleared m) = marker_cleared h m s"
| "fifo_step s (h, OnSampleFailed) = sample_failed h s"

end
