(* ===== verification/Fifo_Cases.thy ===== *)
theory Fifo_Cases
  imports Fifo_Handlers
begin

text \<open>
  Case analysis of the scheduler's control flow, shared by every proof about it: the closed form
  of the loops over gates, what the probe loop can return, the cases of \<open>maybeRecover\<close>, of one
  activation of \<open>tryDispatch\<close>, and the induction that lifts a relation between the states before
  and after one activation to the whole loop.
\<close>


section \<open>Closed forms of the loops over gates\<close>

lemma fold_close_gate:
  "fold (close_gate h) ms s =
     s\<lparr>gateAt := (\<lambda>m. if m \<in> set ms \<and> m \<notin> gateClosed s then Some (clock_now h) else gateAt s m),
       gateClosed := gateClosed s \<union> set ms\<rparr>"
proof (induction ms arbitrary: s)
  case Nil
  then show ?case by simp
next
  case (Cons m ms)
  show ?case
    unfolding fold_simps Cons.IH by (rule fifo.equality) (auto simp: close_gate_def)
qed

lemma fold_open_gate:
  "fold open_gate ms s =
     s\<lparr>gateAt := (\<lambda>m. if m \<in> set ms then None else gateAt s m),
       gateClosed := gateClosed s - set ms\<rparr>"
proof (induction ms arbitrary: s)
  case Nil
  then show ?case by simp
next
  case (Cons m ms)
  show ?case
    unfolding fold_simps Cons.IH by (rule fifo.equality) (auto simp: open_gate_def)
qed

lemmas gate_loops = fold_close_gate fold_open_gate

lemma launch_scan_form:
  "\<exists>p \<ge> statusPos s.
     launch_scan s = (True, begin_probe (statusOrder s ! p) (s\<lparr>statusPos := p\<rparr>))
       \<and> p < length (statusOrder s) \<and> statusOrder s ! p \<notin> checked s
     \<or> launch_scan s = (False, s\<lparr>statusPos := p\<rparr>)"
proof (induction s rule: launch_scan.induct)
  case (1 s)
  show ?case
  proof (cases "statusPos s < length (statusOrder s) \<and> statusOrder s ! statusPos s \<in> checked s")
    case True
    then have eq: "launch_scan s = launch_scan (s\<lparr>statusPos := Suc (statusPos s)\<rparr>)"
      by (simp add: launch_scan.simps [of s])
    obtain p where "p \<ge> Suc (statusPos s)"
      "launch_scan s = (True, begin_probe (statusOrder s ! p) (s\<lparr>statusPos := p\<rparr>))
         \<and> p < length (statusOrder s) \<and> statusOrder s ! p \<notin> checked s
       \<or> launch_scan s = (False, s\<lparr>statusPos := p\<rparr>)"
      using "1.IH" True unfolding eq by auto
    then show ?thesis using Suc_leD by blast
  next
    case False
    then show ?thesis
      by (intro exI [of _ "statusPos s"]) (auto simp: launch_scan.simps [of s])
  qed
qed

lemma launch_scan_first:
  assumes "statusPos s = 0" "checked s = {}" "statusOrder s = m # ms"
  shows "launch_scan s = (True, begin_probe m s)"
  using assms by (simp add: launch_scan.simps [of s])


section \<open>What one activation can do\<close>

abbreviation round_status :: "facts \<Rightarrow> req \<Rightarrow> fifo \<Rightarrow> model_id list" where
  "round_status f r s \<equiv>
     filter_seen (seen s (req_id r)) (fst (plan_recovery (req_model r) f (unloadFail s)))"

abbreviation round_samples :: "facts \<Rightarrow> req \<Rightarrow> fifo \<Rightarrow> model_id list" where
  "round_samples f r s \<equiv> snd (plan_recovery (req_model r) f (unloadFail s))"

lemma maybe_recover_cases:
  assumes "maybe_recover h r s = Some s'"
  obtains
    (adopt) f m tok where "recovery_facts h = Some f" "m \<in> set (round_status f r s)"
      "probeStarted s m = Some tok"
      "s' = start_round tok r (round_status f r s) (round_samples f r s) m s"
  | (sample) f where "recovery_facts h = Some f" "round_status f r s = []"
      "round_samples f r s \<noteq> []"
      "s' = set_phase PhaseSample
              (start_round (tokenSeq s + 1) r [] (round_samples f r s) ''''
                (s\<lparr>tokenSeq := tokenSeq s + 1\<rparr>))"
  | (probe) f m ms where "recovery_facts h = Some f" "round_status f r s = m # ms"
      "\<forall>x \<in> set (m # ms). probeStarted s x = None"
      "s' = begin_probe m
              (start_round (tokenSeq s + 1) r (m # ms) (round_samples f r s) ''''
                (s\<lparr>tokenSeq := tokenSeq s + 1\<rparr>))"
proof -
  from assms obtain f where f: "recovery_facts h = Some f"
    by (auto simp: maybe_recover_def split: option.splits)
  let ?st = "round_status f r s" and ?sa = "round_samples f r s"
  let ?f = "find (\<lambda>m. probeStarted s m \<noteq> None) ?st"
  let ?s1 = "start_round (tokenSeq s + 1) r ?st ?sa '''' (s\<lparr>tokenSeq := tokenSeq s + 1\<rparr>)"
  have ne: "\<not> (?st = [] \<and> ?sa = [])"
    and eq: "s' = (case ?f of
        Some m \<Rightarrow> start_round (the (probeStarted s m)) r ?st ?sa m s
      | None \<Rightarrow> if ?st = [] then set_phase PhaseSample ?s1 else snd (launch_scan ?s1))"
    using assms f by (auto simp: maybe_recover_def Let_def split: if_splits option.splits)
  show ?thesis
  proof (cases ?f)
    case (Some m)
    then have "m \<in> set ?st" "probeStarted s m \<noteq> None" by (auto simp: find_Some_iff)
    with Some eq f show ?thesis by (auto intro: adopt)
  next
    case None
    then have none: "\<forall>x \<in> set ?st. probeStarted s x = None" by (auto simp: find_None_iff)
    show ?thesis
    proof (cases ?st)
      case Nil
      with None eq ne f show ?thesis by (auto intro: sample)
    next
      case (Cons m ms)
      have "launch_scan ?s1 = (True, begin_probe m ?s1)"
        by (rule launch_scan_first) (simp_all add: start_round_def Cons)
      then have s': "s' = begin_probe m
          (start_round (tokenSeq s + 1) r (m # ms) ?sa [] (s\<lparr>tokenSeq := tokenSeq s + 1\<rparr>))"
        using None eq Cons by simp
      show ?thesis by (rule probe [OF f Cons _ s']) (use none Cons in auto)
    qed
  qed
qed

lemma dispatch_step_cases:
  obtains
    (waiting) "phase s = PhaseRecover \<or> phase s = PhaseSample" "dispatch_step h s = Halt s"
  | (recover) r rs s' where "phase s = PhaseIdle" "queued s = r # rs"
      "maybe_recover h r s = Some s'" "dispatch_step h s = Halt s'"
  | (quiet) "queued s = [] \<or> phase s = PhaseLoading \<or> phase s = PhaseUnloading"
      "phase s \<noteq> PhaseRecover" "phase s \<noteq> PhaseSample"
      "dispatch_step h s = Halt (reopen_unused_gates h s)"
  | (head) r rs where "phase s = PhaseIdle" "queued s = r # rs" "maybe_recover h r s = None"
      "dispatch_step h s = dispatch_head h r rs (reopen_unused_gates h s)"
proof (cases "phase s = PhaseIdle \<and> queued s \<noteq> []")
  case True
  then obtain r rs where q: "queued s = r # rs" by (cases "queued s") auto
  show ?thesis
  proof (cases "maybe_recover h r s")
    case None
    with True q show ?thesis
      by (intro head) (auto simp: dispatch_step_def reopen_unused_gates_def)
  next
    case (Some s')
    with True q show ?thesis by (intro recover) (auto simp: dispatch_step_def)
  qed
next
  case False
  show ?thesis
  proof (cases "phase s = PhaseRecover \<or> phase s = PhaseSample")
    case True
    then show ?thesis by (intro waiting) (auto simp: dispatch_step_def)
  next
    case wait: False
    have "queued s = [] \<or> phase s = PhaseLoading \<or> phase s = PhaseUnloading"
      using False wait by (cases "phase s") auto
    moreover have "dispatch_step h s = Halt (reopen_unused_gates h s)"
      using False wait
      by (auto simp: dispatch_step_def Let_def reopen_unused_gates_def split: list.split)
    ultimately show ?thesis using wait by (intro quiet) auto
  qed
qed

lemma dispatch_head_cases:
  obtains
    (fail) e s1 where "dispatch_head h r rs s = Again (fail_head r rs e s1)"
      "s1 = s \<or> (\<exists>ev. s1 = fold (close_gate h) ev s)"
  | (full) "dispatch_head h r rs s = Halt s" "limit s (req_model r) \<le> slots s (req_model r)"
  | (expired) ev where "ev \<noteq> []"
      "dispatch_head h r rs s = Again (fail_drain r rs ev (fold (close_gate h) ev s))"
      "drain_expired h (fold (close_gate h) ev s) ev"
  | (busy) ev where "ev \<noteq> []"
      "dispatch_head h r rs s = Halt (arm_drain h ev (fold (close_gate h) ev s))"
      "any_busy (fold (close_gate h) ev s) ev"
      "plan_evict h (req_model r) (running_ids h s) = Inr ev"
  | (unload) ev where "ev \<noteq> []"
      "dispatch_head h r rs s = Halt (start_unload h r ev (fold (close_gate h) ev s))"
      "\<not> drain_expired h (fold (close_gate h) ev s) ev"
      "\<not> any_busy (fold (close_gate h) ev s) ev"
      "\<forall>v \<in> set ev. v \<notin> unloadFail s"
      "plan_evict h (req_model r) (running_ids h s) = Inr ev"
  | (grant) "dispatch_head h r rs s = Again (grant_head h r rs s)"
      "slots s (req_model r) < limit s (req_model r)"
      "model_state h (req_model r) = Some StateReady"
      "plan_evict h (req_model r) (running_ids h s) = Inr []"
  | (load) "dispatch_head h r rs s = Halt (start_load r s)"
      "slots s (req_model r) < limit s (req_model r)"
      "model_state h (req_model r) \<noteq> Some StateReady"
      "plan_evict h (req_model r) (running_ids h s) = Inr []"
proof (cases "blocked h s (req_model r)")
  case True
  then show ?thesis by (intro fail [of _ s]) (auto simp: dispatch_head_def)
next
  case nb: False
  show ?thesis
  proof (cases "limit s (req_model r) \<le> slots s (req_model r)")
    case True
    with nb show ?thesis by (intro full) (auto simp: dispatch_head_def)
  next
    case ns: False
    show ?thesis
    proof (cases "plan_evict h (req_model r) (running_ids h s)")
      case (Inl e)
      with nb ns show ?thesis by (intro fail [of e s]) (auto simp: dispatch_head_def)
    next
      case ev: (Inr ev)
      let ?s1 = "fold (close_gate h) ev s"
      show ?thesis
      proof (cases "ev = []")
        case True
        with nb ns ev show ?thesis
          by (cases "model_state h (req_model r) = Some StateReady")
            (intro grant; simp add: dispatch_head_def; fail | intro load; simp add: dispatch_head_def)+
      next
        case False
        consider "drain_expired h ?s1 ev"
          | "\<not> drain_expired h ?s1 ev" "any_busy ?s1 ev"
          | "\<not> drain_expired h ?s1 ev" "\<not> any_busy ?s1 ev" "list_ex (\<lambda>v. v \<in> unloadFail s) ev"
          | "\<not> drain_expired h ?s1 ev" "\<not> any_busy ?s1 ev" "\<not> list_ex (\<lambda>v. v \<in> unloadFail s) ev"
          by blast
        then show ?thesis
        proof cases
          case 1
          with nb ns ev False show ?thesis by (intro expired) (auto simp: dispatch_head_def)
        next
          case 2
          with nb ns ev False show ?thesis by (intro busy) (auto simp: dispatch_head_def)
        next
          case 3
          with nb ns ev False show ?thesis
            by (intro fail [of "Sched ErrUnloadBlocked" ?s1])
              (auto simp: dispatch_head_def fold_close_gate)
        next
          case 4
          with nb ns ev False show ?thesis
            by (intro unload [of ev]) (auto simp: dispatch_head_def fold_close_gate list_ex_iff)
        qed
      qed
    qed
  qed
qed


section \<open>The cases of a request\<close>

lemma on_request_cases:
  obtains
    (rejected) q e s0 where "on_request h r s = reject_admit h q e s0"
      "s0 = s\<lparr>nextID := nextID s0\<rparr>"
      "req_id q = (if req_id r = 0 then nextID s + 1 else req_id r)"
  | (gone) q t s0 where "admit h q None s0 = (False, t)" "on_request h r s = t"
      "s0 = s\<lparr>nextID := nextID s0\<rparr>"
  | (accepted) q t s0 where "admit h q None s0 = (True, t)"
      "on_request h r s = try_dispatch h (t\<lparr>queued := queued t @ [q]\<rparr>)"
      "s0 = s\<lparr>nextID := nextID s0\<rparr>" "\<not> maxQ s \<le> int (length (queued s))"
      "req_id q = (if req_id r = 0 then nextID s + 1 else req_id r)"
proof -
  define s0 where "s0 = (if req_id r = 0 then s\<lparr>nextID := nextID s + 1\<rparr> else s)"
  define q where "q = (if req_id r = 0 then r\<lparr>req_id := nextID s0\<rparr> else r)"
  obtain b t where adm: "admit h q None s0 = (b, t)" by (cases "admit h q None s0")
  have s0: "s0 = s\<lparr>nextID := nextID s0\<rparr>" by (simp add: s0_def)
  have f: "queued s0 = queued s" "maxQ s0 = maxQ s" by (simp_all add: s0_def)
  have i: "req_id q = (if req_id r = 0 then nextID s + 1 else req_id r)"
    by (simp add: q_def s0_def)
  have eq: "on_request h r s =
      (if model_state h (req_model q) = None then reject_admit h q (Sched ErrModelNotFound) s0
       else if int (length (queued s0)) \<ge> maxQ s0 then reject_admit h q (Sched ErrQueueFull) s0
       else case admit h q None s0 of
          (False, s1) \<Rightarrow> s1
        | (True, s1) \<Rightarrow> try_dispatch h (s1\<lparr>queued := queued s1 @ [q]\<rparr>))"
    by (simp only: on_request_def s0_def q_def Let_def)
  show ?thesis
    using eq adm s0 i f rejected gone accepted by (cases b) (auto split: if_splits)
qed

section \<open>From one activation to the loop\<close>

lemma try_dispatch_rel:
  assumes halt: "\<And>s s'. dispatch_step h s = Halt s' \<Longrightarrow> R s s'"
    and again: "\<And>s s' t. dispatch_step h s = Again s' \<Longrightarrow> R s' t \<Longrightarrow> R s t"
  shows "R s (try_dispatch h s)"
proof (induction "length (queued s)" arbitrary: s rule: less_induct)
  case less
  show ?case
  proof (cases "dispatch_step h s")
    case (Halt s')
    then show ?thesis by (simp add: try_dispatch.simps [of h s] halt)
  next
    case (Again s')
    have "queued s = hd (queued s) # queued s'" using Again by (rule dispatch_step_Again)
    then have "length (queued s') < length (queued s)" by (metis length_Cons lessI)
    then show ?thesis
      using again [OF Again less(1)] Again by (simp add: try_dispatch.simps [of h s])
  qed
qed

text \<open>The definitions that only update fields, for proofs by unfolding.\<close>

lemmas round_defs = set_phase_def start_round_def begin_probe_def mark_seen_def emit_def end_round_def

lemmas start_defs = fail_head_def fail_drain_def grant_error_def start_unload_def
  start_load_def arm_drain_def set_phase_def emit_def Let_def fold_open_gate fold_close_gate

lemmas head_defs = start_defs grant_head_def

end
