(* ===== verification/Fifo_Queue.thy ===== *)
theory Fifo_Queue
  imports Fifo_Cases
begin

text \<open>
  The order in which requests are answered. \<open>pops s t\<close> says that \<open>t\<close> has answered a prefix of
  the queue of \<open>s\<close>, each request once and in order; \<open>advances s t\<close> that the requests served so
  far, followed by those waiting, lost requests but were not reordered. The abstract
  specification of the scheduler is the list of offered ids: what is served is a subsequence.
\<close>

section \<open>Answers in the effect log\<close>

fun answer_ids :: "eff \<Rightarrow> nat list" where
  "answer_ids (EGrantError i _) = [i]"
| "answer_ids (EGrantServe i _ _) = [i]"
| "answer_ids _ = []"

fun serve_ids :: "eff \<Rightarrow> nat list" where
  "serve_ids (EGrantServe i _ _) = [i]"
| "serve_ids _ = []"

definition answered :: "eff list \<Rightarrow> nat list" where
  "answered es = concat (map answer_ids es)"

definition served :: "eff list \<Rightarrow> nat list" where
  "served es = concat (map serve_ids es)"

lemma answered_simps [simp]:
  "answered [] = []" "answered (e # es) = answer_ids e @ answered es"
  "answered (es @ fs) = answered es @ answered fs"
  by (simp_all add: answered_def)

lemma served_simps [simp]:
  "served [] = []" "served (e # es) = serve_ids e @ served es"
  "served (es @ fs) = served es @ served fs"
  by (simp_all add: served_def)

section \<open>The dispatch loop answers a prefix of the queue\<close>

definition pops :: "fifo \<Rightarrow> fifo \<Rightarrow> bool" where
  "pops s t = (\<exists>k es. queued t = drop k (queued s) \<and> out t = out s @ es
                 \<and> answered es = map req_id (take k (queued s))
                 \<and> (\<forall>i e b m. EAdmit i e \<notin> set es \<and> EStartReply m b \<notin> set es))"

lemma pops_keep:
  assumes "queued t = queued s" "out t = out s @ es" "answered es = []"
    "\<forall>i e b m. EAdmit i e \<notin> set es \<and> EStartReply m b \<notin> set es"
  shows "pops s t"
  using assms unfolding pops_def by (intro exI [of _ 0] exI [of _ es]) auto

lemma pops_trans_cons:
  assumes "queued s = r # rs" "queued s' = rs" "out s' = out s @ [e]" "answer_ids e = [req_id r]"
    and "pops s' t"
  shows "pops s t"
proof -
  from assms(5) obtain k es where "queued t = drop k rs" "out t = out s @ e # es"
    "answered es = map req_id (take k rs)"
    "\<forall>i e b m. EAdmit i e \<notin> set es \<and> EStartReply m b \<notin> set es"
    using assms(2,3) by (auto simp: pops_def)
  then show ?thesis using assms(1,4) unfolding pops_def
    by (intro exI [of _ "Suc k"] exI [of _ "e # es"]) (cases e, auto)
qed

lemma reopen_frame [simp]:
  "out (reopen_unused_gates h s) = out s" "phase (reopen_unused_gates h s) = phase s"
  by (simp_all add: reopen_unused_gates_def)

lemma dispatch_step_pops_Halt:
  assumes "dispatch_step h s = Halt s'"
  shows "pops s s'"
proof (cases rule: dispatch_step_cases [where h = h and s = s])
  case waiting
  with assms show ?thesis by (intro pops_keep [where es = "[]"]) auto
next
  case quiet
  with assms show ?thesis by (intro pops_keep [where es = "[]"]) auto
next
  case (recover r rs s'')
  then have "s'' = s'" using assms by simp
  with \<open>maybe_recover h r s = Some s''\<close> show ?thesis
    by (cases rule: maybe_recover_cases)
      (auto simp: round_defs intro: pops_keep [where es = "[]"] pops_keep [where es = "[e]" for e])
next
  case (head r rs)
  let ?s1 = "reopen_unused_gates h s"
  have eq: "dispatch_head h r rs ?s1 = Halt s'" using assms head by simp
  show ?thesis
    by (cases rule: dispatch_head_cases [where h = h and r = r and rs = rs and s = ?s1])
      (use eq in \<open>auto simp: head_defs split: if_splits
         intro: pops_keep [where es = "[]"] pops_keep [where es = "[e]" for e]\<close>)
qed

lemma dispatch_step_pops_Again:
  assumes "dispatch_step h s = Again s'" "pops s' t"
  shows "pops s t"
proof (cases rule: dispatch_step_cases [where h = h and s = s])
  case (head r rs)
  let ?s1 = "reopen_unused_gates h s"
  have eq: "dispatch_head h r rs ?s1 = Again s'" using assms head by simp
  have "\<exists>e. out s' = out s @ [e] \<and> answer_ids e = [req_id r] \<and> queued s' = rs"
    by (cases rule: dispatch_head_cases [where h = h and r = r and rs = rs and s = ?s1])
      (use eq in \<open>auto simp: head_defs split: if_splits\<close>)
  then show ?thesis using head assms(2) pops_trans_cons by blast
qed (use assms in auto)

lemma try_dispatch_pops: "pops s (try_dispatch h s)"
  by (rule try_dispatch_rel) (fact dispatch_step_pops_Halt, fact dispatch_step_pops_Again)

section \<open>Nothing overtakes\<close>

abbreviation waiting_ids :: "fifo \<Rightarrow> nat list" where
  "waiting_ids s \<equiv> map req_id (queued s)"

definition advances :: "fifo \<Rightarrow> fifo \<Rightarrow> bool" where
  "advances s t =
     subseq (served (out t) @ waiting_ids t) (served (out s) @ waiting_ids s)"

lemma served_subseq_answered: "subseq (served es) (answered es)"
proof (induction es)
  case Nil
  then show ?case by simp
next
  case (Cons e es)
  then show ?case by (cases e) (auto intro: list_emb_append_mono)
qed

lemma pops_advances:
  assumes "pops s t"
  shows "advances s t"
proof -
  from assms obtain k es where q: "queued t = drop k (queued s)" and o: "out t = out s @ es"
    and a: "answered es = map req_id (take k (queued s))"
    by (auto simp: pops_def)
  have "subseq (served es) (map req_id (take k (queued s)))"
    using served_subseq_answered [of es] a by simp
  then have "subseq (served es @ map req_id (drop k (queued s)))
      (map req_id (take k (queued s)) @ map req_id (drop k (queued s)))"
    by (intro list_emb_append_mono) auto
  also have "map req_id (take k (queued s)) @ map req_id (drop k (queued s)) = waiting_ids s"
    by (simp flip: map_append)
  finally show ?thesis using q o by (auto simp: advances_def intro: list_emb_append_mono)
qed

lemma advances_refl [simp]: "advances s s"
  by (simp add: advances_def)

lemma advances_trans: "advances s t \<Longrightarrow> advances t u \<Longrightarrow> advances s u"
  unfolding advances_def by (rule subseq_order.trans)

lemma advances_try: "advances s t \<Longrightarrow> advances s (try_dispatch h t)"
  by (rule advances_trans) (auto intro: pops_advances try_dispatch_pops)

lemma advances_same:
  "queued t = queued s \<Longrightarrow> served (out t) = served (out s) \<Longrightarrow> advances s t"
  by (simp add: advances_def)

lemma advances_drop:
  "subseq (waiting_ids t) (waiting_ids s) \<Longrightarrow> served (out t) = served (out s) \<Longrightarrow> advances s t"
  by (auto simp: advances_def intro: list_emb_append_mono)

lemma remove_req_subseq: "subseq (map req_id (remove_req i qs)) (map req_id qs)"
  by (induction qs) auto

section \<open>Every handler keeps the order\<close>

lemma advances_fail_head:
  "queued s = r # rs \<Longrightarrow> advances s (fail_head r rs e s)"
  by (rule advances_drop) (auto simp: head_defs)

lemma advances_end_round [simp]: "advances s (end_round s)"
  by (rule advances_same) (simp_all add: end_round_def)

lemma advances_fail_owner: "advances s (fail_owner h e s)"
  unfolding fail_owner_def Let_def
  by (rule advances_try, rule advances_drop)
    (auto simp: end_round_def head_defs split: list.split)

lemma advances_finish_probes: "advances s (finish_probes h s)"
  by (auto simp: finish_probes_def intro: advances_try advances_fail_owner)
    (auto simp: set_phase_def intro: advances_same)

lemma advances_launch_probe: "advances s (launch_probe h s)"
  using launch_scan_form [of s]
proof (elim exE conjE disjE)
  fix p assume "launch_scan s = (True, begin_probe (statusOrder s ! p) (s\<lparr>statusPos := p\<rparr>))"
  then show ?thesis by (auto simp: launch_probe_def round_defs intro: advances_same)
next
  fix p assume "launch_scan s = (False, s\<lparr>statusPos := p\<rparr>)"
  then show ?thesis
    by (auto simp: launch_probe_def intro: advances_trans [OF advances_same advances_finish_probes])
qed

lemma queued_absorb [simp]: "queued (absorb n s) = queued s" and out_absorb [simp]: "out (absorb n s) = out s"
  by (auto simp: absorb_def apply_backend_def Let_def split: recovery_class.split)

lemma advances_note_probe: "advances s (note_probe h n s)"
proof -
  let ?s = "forget_probe (n_model n) s"
  have late: "advances s (note_late h n ?s)"
    by (auto simp: note_late_def Let_def forget_probe_def apply_backend_def
        intro!: advances_try intro: advances_same)
  let ?s1 = "mark_seen (recoverOwner ?s) (n_model n) ?s"
  let ?s2 = "?s1\<lparr>checked := insert (n_model n) (checked ?s1), inflightModel := ''''\<rparr>"
  have s1: "advances s ?s1" and s2: "advances s ?s2"
    by (auto simp: forget_probe_def mark_seen_def intro: advances_same)
  have s3: "advances s (absorb n ?s2)"
    by (rule advances_trans [OF s2]) (auto intro: advances_same)
  have s4: "advances s (launch_probe h ((absorb n ?s2)\<lparr>statusPos := Suc (statusPos (absorb n ?s2))\<rparr>))"
    by (rule advances_trans [OF s3]) (rule advances_trans [OF advances_same advances_launch_probe], auto)
  show ?thesis
    using late s1 s3 s4 advances_trans [OF s2 advances_fail_owner]
      advances_try [OF advances_trans [OF s2 advances_end_round]]
      advances_try [OF advances_trans [OF s3 advances_end_round]]
    by (auto simp: note_probe_def Let_def)
qed

section \<open>Runs\<close>

text \<open>The ids the events offer to the queue; a request without an id is given the next one.\<close>

fun offered :: "fifo \<Rightarrow> host \<times> fifo_event \<Rightarrow> nat list" where
  "offered s (h, OnRequest r) = [if req_id r = 0 then nextID s + 1 else req_id r]"
| "offered s _ = []"

fun offered_run :: "fifo \<Rightarrow> (host \<times> fifo_event) list \<Rightarrow> nat list" where
  "offered_run s [] = []"
| "offered_run s (e # es) = offered s e @ offered_run (fifo_step s e) es"

lemma fold_grant_error:
  "fold (\<lambda>q. grant_error q e) qs s = s\<lparr>out := out s @ map (\<lambda>q. EGrantError (req_id q) e) qs\<rparr>"
  by (induction qs arbitrary: s) (simp_all add: grant_error_def emit_def)

lemma served_errors [simp]: "served (map (\<lambda>q. EGrantError (f q) e) qs) = []"
  by (induction qs) auto

lemma advances_step:
  assumes "\<And>r. snd e \<noteq> OnRequest r"
  shows "advances s (fifo_step s e)"
proof -
  obtain h ev where e: "e = (h, ev)" by (cases e)
  show ?thesis
  proof (cases ev)
    case (OnRequest r) then show ?thesis using assms e by auto
  next
    case (OnCancel i)
    then show ?thesis
      by (auto simp: e on_cancel_def drop_owner_def intro!: advances_try advances_drop remove_req_subseq)
  next
    case (OnQueueTimeout i)
    then show ?thesis
      by (auto simp: e on_queue_timeout_def drop_owner_def grant_error_def emit_def split: option.split
          intro!: advances_try advances_drop remove_req_subseq)
  next
    case (OnProxyStart m b)
    then show ?thesis
      by (auto simp: e on_proxy_start_def emit_def Let_def intro!: advances_same)
  next
    case (OnCancelGranted m)
    then show ?thesis
      by (auto simp: e on_cancel_granted_def intro!: advances_try intro: advances_same)
  next
    case (OnServeDone m)
    then show ?thesis
      by (auto simp: e on_serve_done_def Let_def intro!: advances_try intro: advances_same)
  next
    case (OnStatus m a er g)
    then show ?thesis
      by (auto simp: e on_status_def apply_backend_def intro!: advances_try intro: advances_same)
  next
    case (OnBackendDone m)
    then show ?thesis
      by (auto simp: e on_backend_done_def intro!: advances_try intro: advances_same)
  next
    case (OnUnloadDone er)
    then show ?thesis
      by (auto simp: e on_unload_done_def head_defs split: option.split list.split
          intro!: advances_try advances_drop)
  next
    case (OnSwapDone m er)
    then show ?thesis
      by (auto simp: e on_swap_done_def head_defs split: option.split list.split
          intro!: advances_try advances_drop)
  next
    case OnRemind
    then show ?thesis by (auto simp: e on_remind_def intro!: advances_try intro: advances_same)
  next
    case (OnShutdown er)
    then show ?thesis
      by (auto simp: e on_shutdown_def fold_grant_error intro!: advances_drop)
  next
    case (OnProbe n) then show ?thesis by (simp add: e advances_note_probe)
  next
    case (OnForget m)
    then show ?thesis by (auto simp: e forget_probe_def intro: advances_same)
  next
    case (OnMarkerCleared m)
    then show ?thesis
      by (auto simp: e marker_cleared_def Let_def end_round_def intro!: advances_try intro: advances_same)
  next
    case OnSampleFailed
    then show ?thesis by (auto simp: e sample_failed_def advances_fail_owner)
  qed
qed

lemma served_append_mono:
  "queued t = queued s \<Longrightarrow> served (out t) = served (out s) \<Longrightarrow>
     subseq (served (out t) @ waiting_ids t) (served (out s) @ waiting_ids s @ xs)"
  by (auto intro: list_emb_append_mono)

lemma served_try_append:
  assumes "queued t = queued s @ [q]" "served (out t) = served (out s)"
  shows "subseq (served (out (try_dispatch h t)) @ waiting_ids (try_dispatch h t))
           (served (out s) @ waiting_ids s @ [req_id q])"
  using pops_advances [OF try_dispatch_pops, of t h] assms by (simp add: advances_def)

lemma reject_admit_frame [simp]:
  "queued (reject_admit h r e s) = queued s" "served (out (reject_admit h r e s)) = served (out s)"
  by (simp_all add: reject_admit_def grant_error_def emit_def)

lemma admit_frame:
  "admit h r err s = (b, t) \<Longrightarrow> queued t = queued s \<and> served (out t) = served (out s)"
  by (auto simp: admit_def emit_def split: if_splits)

lemma served_step_request:
  "subseq (served (out (on_request h r s)) @ waiting_ids (on_request h r s))
     (served (out s) @ waiting_ids s @ offered s (h, OnRequest r))"
proof (cases rule: on_request_cases [where h = h and r = r and s = s])
  case (rejected q e s0)
  have "queued s0 = queued s" "out s0 = out s" by (subst rejected(2), simp)+
  then show ?thesis unfolding rejected(1) by (intro served_append_mono) simp_all
next
  case (gone q t s0)
  have "queued s0 = queued s" "out s0 = out s" by (subst gone(3), simp)+
  then show ?thesis unfolding gone(2)
    by (intro served_append_mono) (use admit_frame [OF gone(1)] in simp_all)
next
  case (accepted q t s0)
  have "queued s0 = queued s" "out s0 = out s" by (subst accepted(3), simp)+
  moreover have "offered s (h, OnRequest r) = [req_id q]" using accepted(5) by simp
  ultimately show ?thesis unfolding accepted(2)
    by (simp only:) (rule served_try_append, use admit_frame [OF accepted(1)] in simp_all)
qed

lemma served_step:
  "subseq (served (out (fifo_step s e)) @ waiting_ids (fifo_step s e))
     (served (out s) @ waiting_ids s @ offered s e)"
proof (cases "\<exists>r. snd e = OnRequest r")
  case True
  then obtain h r where "e = (h, OnRequest r)" by (cases e) auto
  then show ?thesis using served_step_request by simp
next
  case False
  then have "advances s (fifo_step s e)" by (intro advances_step) auto
  then show ?thesis
    by (auto simp: advances_def intro: subseq_order.trans list_emb_append2)
qed

lemma served_run:
  "subseq (served (out (run fifo_step s es)) @ waiting_ids (run fifo_step s es))
     (served (out s) @ waiting_ids s @ offered_run s es)"
proof (induction es arbitrary: s)
  case Nil
  then show ?case by simp
next
  case (Cons e es)
  let ?t = "fifo_step s e"
  have "subseq ((served (out ?t) @ waiting_ids ?t) @ offered_run ?t es)
      ((served (out s) @ waiting_ids s @ offered s e) @ offered_run ?t es)"
    by (rule list_emb_append_mono [OF served_step subseq_order.refl])
  then have step: "subseq (served (out ?t) @ waiting_ids ?t @ offered_run ?t es)
      (served (out s) @ waiting_ids s @ offered_run s (e # es))"
    by (simp only: append_assoc offered_run.simps)
  show ?case
    using subseq_order.trans [OF Cons.IH [of ?t] step] by (simp only: run.simps)
qed

end
