(* ===== verification/Fifo_Inv.thy ===== *)
theory Fifo_Inv
  imports Fifo_Queue
begin

text \<open>
  The invariants of the scheduler. Each is kept by the dispatch loop (\<open>dispatch_step_inv\<close> reduces
  that to the pieces of one activation), by the probe handlers (\<open>note_probe_inv\<close>,
  \<open>recovery_inv\<close>) and then by every event of \<open>fifo_step\<close>:
  \<open>counters_ok\<close> (slots within the limit), \<open>gates_ok\<close>, \<open>phase_ok\<close>, \<open>owner_ok\<close> (the owner of a
  recovery round is the head of the queue), \<open>gens_ok\<close> (dispatch generations) and \<open>queue_ok\<close>.
  The lemmas \<open>..._frame\<close> list the fields an invariant does not read. \<open>fifo_inv\<close> is their
  conjunction, and the interpretation of \<open>machine\<close> lifts it to runs.
\<close>

section \<open>From the pieces of an activation to the loop\<close>

lemma try_dispatch_inv:
  assumes "\<And>s s'. I s \<Longrightarrow> dispatch_step h s = Halt s' \<or> dispatch_step h s = Again s' \<Longrightarrow> I s'"
    and "I s"
  shows "I (try_dispatch h s)"
proof -
  have "I s \<longrightarrow> I (try_dispatch h s)"
    by (rule try_dispatch_rel) (use assms(1) in blast)+
  with assms(2) show ?thesis by simp
qed

lemma dispatch_step_inv:
  assumes I: "I s"
    and step: "dispatch_step h s = Halt s' \<or> dispatch_step h s = Again s'"
    and reopen: "\<And>s. I s \<Longrightarrow> I (reopen_unused_gates h s)"
    and rec: "\<And>s r rs s'. I s \<Longrightarrow> phase s = PhaseIdle \<Longrightarrow> queued s = r # rs \<Longrightarrow>
                maybe_recover h r s = Some s' \<Longrightarrow> I s'"
    and close: "\<And>s ms. I s \<Longrightarrow> I (fold (close_gate h) ms s)"
    and fail: "\<And>s r rs e. I s \<Longrightarrow> phase s = PhaseIdle \<Longrightarrow> queued s = r # rs \<Longrightarrow> I (fail_head r rs e s)"
    and drain: "\<And>s r rs ms. I s \<Longrightarrow> phase s = PhaseIdle \<Longrightarrow> queued s = r # rs \<Longrightarrow> I (fail_drain r rs ms s)"
    and arm: "\<And>s ms. I s \<Longrightarrow> I (arm_drain h ms s)"
    and unload: "\<And>s r rs ms. I s \<Longrightarrow> phase s = PhaseIdle \<Longrightarrow> I (start_unload h r ms s)"
    and grant: "\<And>s r rs. I s \<Longrightarrow> phase s = PhaseIdle \<Longrightarrow> queued s = r # rs \<Longrightarrow>
                slots s (req_model r) < limit s (req_model r) \<Longrightarrow> I (grant_head h r rs s)"
    and load: "\<And>s r. I s \<Longrightarrow> phase s = PhaseIdle \<Longrightarrow> I (start_load r s)"
  shows "I s'"
proof (cases rule: dispatch_step_cases [where h = h and s = s])
  case (head r rs)
  let ?s1 = "reopen_unused_gates h s"
  have eq: "dispatch_head h r rs ?s1 = Halt s' \<or> dispatch_head h r rs ?s1 = Again s'"
    using step head by simp
  have I1: "I ?s1" by (rule reopen [OF I])
  have s1: "phase ?s1 = PhaseIdle" "queued ?s1 = r # rs" using head by simp_all
  have s2: "phase (fold (close_gate h) ms ?s1) = PhaseIdle"
    "queued (fold (close_gate h) ms ?s1) = r # rs" for ms
    using s1 by (simp_all add: fold_close_gate)
  show ?thesis
  proof (cases rule: dispatch_head_cases [where h = h and r = r and rs = rs and s = ?s1])
    case (fail e s2)
    then show ?thesis using eq I1 s1 s2 close assms(6) by auto
  next
    case full then show ?thesis using eq I1 by simp
  next
    case (expired ev) then show ?thesis using eq close [OF I1] drain s2 by auto
  next
    case (busy ev) then show ?thesis using eq close [OF I1] arm by auto
  next
    case (unload ev) then show ?thesis using eq close [OF I1] assms(9) s2 by auto
  next
    case grant then show ?thesis using eq I1 s1 assms(10) by auto
  next
    case load then show ?thesis using eq I1 s1 assms(11) by auto
  qed
next
  case (recover r rs s'')
  then show ?thesis using step rec [OF I] by auto
qed (use step I reopen in auto)

section \<open>The probe handlers, piece by piece\<close>

definition recovering :: "fifo \<Rightarrow> bool" where
  "recovering s = (phase s = PhaseRecover \<or> phase s = PhaseSample)"

text \<open>The probe handler is made of these pieces; an invariant they keep, it keeps.\<close>

lemma phase_absorb [simp]: "phase (absorb n s) = phase s"
  by (auto simp: absorb_def apply_backend_def Let_def split: recovery_class.split)

lemma phase_mark_seen [simp]: "phase (mark_seen i m s) = phase s"
  by (simp add: mark_seen_def)

lemma phase_begin_probe [simp]: "phase (begin_probe m s) = phase s"
  by (simp add: begin_probe_def mark_seen_def emit_def)

lemma note_late_inv:
  assumes "I s"
    and "\<And>s. I s \<Longrightarrow> I (try_dispatch h s)"
    and "\<And>s m a g. I s \<Longrightarrow> I (apply_backend m a g s)"
    and "\<And>s u. I s \<Longrightarrow> I (s\<lparr>unloadFail := u\<rparr>)"
  shows "I (note_late h n s)"
  using assms by (simp add: note_late_def Let_def)

lemma note_probe_inv:
  assumes I: "I s"
    and dispatch: "\<And>s. I s \<Longrightarrow> I (try_dispatch h s)"
    and backend: "\<And>s m a g. I s \<Longrightarrow> I (apply_backend m a g s)"
    and unf: "\<And>s u. I s \<Longrightarrow> I (s\<lparr>unloadFail := u\<rparr>)"
    and forget: "\<And>s m. I s \<Longrightarrow> I (forget_probe m s)"
    and sn: "\<And>s i m. I s \<Longrightarrow> I (mark_seen i m s)"
    and chk: "\<And>s c. I s \<Longrightarrow> I (s\<lparr>checked := c, inflightModel := ''''\<rparr>)"
    and owner: "\<And>s e. I s \<Longrightarrow> recovering s \<Longrightarrow> I (fail_owner h e s)"
    and ended: "\<And>s. I s \<Longrightarrow> recovering s \<Longrightarrow> I (end_round s)"
    and absb: "\<And>s. I s \<Longrightarrow> I (absorb n s)"
    and pos: "\<And>s p. I s \<Longrightarrow> I (s\<lparr>statusPos := p\<rparr>)"
    and launch: "\<And>s. I s \<Longrightarrow> phase s = PhaseRecover \<Longrightarrow> I (launch_probe h s)"
  shows "I (note_probe h n s)"
proof -
  define s0 where "s0 = forget_probe (n_model n) s"
  define s1 where "s1 = mark_seen (recoverOwner s0) (n_model n) s0"
  define s2 where "s2 = s1\<lparr>checked := insert (n_model n) (checked s1), inflightModel := ''''\<rparr>"
  define s3 where "s3 = absorb n s2"
  have s0: "I s0" unfolding s0_def by (rule forget [OF I])
  have s1: "I s1" unfolding s1_def by (rule sn [OF s0])
  have s2: "I s2" unfolding s2_def by (rule chk [OF s1])
  have s3: "I s3" unfolding s3_def by (rule absb [OF s2])
  have late: "I (note_late h n s0)" by (rule note_late_inv [OF s0 dispatch backend unf])
  have l: "phase s1 = PhaseRecover \<Longrightarrow> I (launch_probe h (s3\<lparr>statusPos := Suc (statusPos s3)\<rparr>))"
    by (rule launch [OF pos [OF s3]]) (simp add: s3_def s2_def)
  have ph: "recovering s2 = recovering s1" "recovering s3 = recovering s1"
    "phase s1 = PhaseRecover \<Longrightarrow> recovering s1"
    by (simp_all add: s3_def s2_def recovering_def)
  show ?thesis
    unfolding note_probe_def Let_def s0_def [symmetric] s1_def [symmetric] s2_def [symmetric]
      s3_def [symmetric]
    using late s1 owner [OF s2] dispatch [OF ended [OF s2]] dispatch [OF ended [OF s3]] l ph
    by auto
qed

lemma launch_scan_inv:
  assumes "I s" "\<And>s m. I s \<Longrightarrow> phase s = PhaseRecover \<Longrightarrow> I (begin_probe m s)"
    "\<And>s p. I s \<Longrightarrow> I (s\<lparr>statusPos := p\<rparr>)" "phase s = PhaseRecover"
  shows "I (snd (launch_scan s)) \<and> phase (snd (launch_scan s)) = PhaseRecover"
  using launch_scan_form [of s] assms by auto

lemma recovery_inv:
  assumes dispatch: "\<And>s. I s \<Longrightarrow> I (try_dispatch h s)"
    and fail: "\<And>s r rs e. I s \<Longrightarrow> phase s = PhaseIdle \<Longrightarrow> queued s = r # rs \<Longrightarrow> I (fail_head r rs e s)"
    and ended: "\<And>s. I s \<Longrightarrow> recovering s \<Longrightarrow> I (end_round s)"
    and infl: "\<And>s m. I s \<Longrightarrow> I (s\<lparr>inflightModel := m\<rparr>)"
    and sample: "\<And>s. I s \<Longrightarrow> phase s = PhaseRecover \<Longrightarrow> I (set_phase PhaseSample s)"
    and prob: "\<And>s m. I s \<Longrightarrow> phase s = PhaseRecover \<Longrightarrow> I (begin_probe m s)"
    and pos: "\<And>s p. I s \<Longrightarrow> I (s\<lparr>statusPos := p\<rparr>)"
    and I: "I s"
  shows "recovering s \<Longrightarrow> I (fail_owner h e s)"
    and "phase s = PhaseRecover \<Longrightarrow> I (launch_probe h s)"
proof -
  have owner: "I (fail_owner h e s)" if "I s" "recovering s" for s e
    unfolding fail_owner_def Let_def
    by (rule dispatch)
      (use that infl [OF ended] fail in \<open>auto simp: end_round_def split: list.split\<close>)
  then show "recovering s \<Longrightarrow> I (fail_owner h e s)" using I by simp
  assume ph: "phase s = PhaseRecover"
  have fin: "I (finish_probes h s)" if "I s" "phase s = PhaseRecover" for s
    using that owner sample dispatch [OF ended]
    by (simp add: finish_probes_def recovering_def)
  show "I (launch_probe h s)"
    using launch_scan_inv [of I s] I ph prob pos fin
    by (auto simp: launch_probe_def split: prod.split bool.split)
qed

section \<open>Counters and limits\<close>

text \<open>
  Every stored counter is positive, and the slots a model uses (requests granted, being served,
  or served but not yet seen idle by a status) stay within its concurrency limit.
\<close>

definition counters_ok :: "fifo \<Rightarrow> bool" where
  "counters_ok s =
     (pos_counts (pending s) \<and> pos_counts (httpIn s) \<and> pos_counts (backend s)
      \<and> pos_counts (unresolved s) \<and> (\<forall>m. slots s m \<le> limit s m))"

lemma limit_pos: "1 \<le> limit s m"
  by (auto simp: limit_def split: option.split)

lemma counters_ok_new: "counters_ok (new_fifo c)"
proof -
  have "slots (new_fifo c) m = 0" for m by (simp add: slots_def new_fifo_def)
  then show ?thesis using limit_pos [of "new_fifo c"]
    by (auto simp: counters_ok_def new_fifo_def intro: order_trans [OF _ limit_pos])
qed

text \<open>What touches neither the counters nor the limits keeps the invariant.\<close>

lemma counters_ok_frame [simp]:
  "counters_ok (s\<lparr>maxQ := x_maxQ\<rparr>) = counters_ok s"
  "counters_ok (s\<lparr>nextID := x_nextID\<rparr>) = counters_ok s"
  "counters_ok (s\<lparr>queued := x_queued\<rparr>) = counters_ok s"
  "counters_ok (s\<lparr>dispatchGen := x_dispatchGen\<rparr>) = counters_ok s"
  "counters_ok (s\<lparr>quietGen := x_quietGen\<rparr>) = counters_ok s"
  "counters_ok (s\<lparr>gateClosed := x_gateClosed\<rparr>) = counters_ok s"
  "counters_ok (s\<lparr>gateAt := x_gateAt\<rparr>) = counters_ok s"
  "counters_ok (s\<lparr>drain := x_drain\<rparr>) = counters_ok s"
  "counters_ok (s\<lparr>drainArmed := x_drainArmed\<rparr>) = counters_ok s"
  "counters_ok (s\<lparr>unloadFail := x_unloadFail\<rparr>) = counters_ok s"
  "counters_ok (s\<lparr>phase := x_phase\<rparr>) = counters_ok s"
  "counters_ok (s\<lparr>swapTarget := x_swapTarget\<rparr>) = counters_ok s"
  "counters_ok (s\<lparr>swapEvict := x_swapEvict\<rparr>) = counters_ok s"
  "counters_ok (s\<lparr>unloadBegan := x_unloadBegan\<rparr>) = counters_ok s"
  "counters_ok (s\<lparr>tokenSeq := x_tokenSeq\<rparr>) = counters_ok s"
  "counters_ok (s\<lparr>recoverToken := x_recoverToken\<rparr>) = counters_ok s"
  "counters_ok (s\<lparr>recoverOwner := x_recoverOwner\<rparr>) = counters_ok s"
  "counters_ok (s\<lparr>recoverModel := x_recoverModel\<rparr>) = counters_ok s"
  "counters_ok (s\<lparr>statusOrder := x_statusOrder\<rparr>) = counters_ok s"
  "counters_ok (s\<lparr>statusPos := x_statusPos\<rparr>) = counters_ok s"
  "counters_ok (s\<lparr>needSample := x_needSample\<rparr>) = counters_ok s"
  "counters_ok (s\<lparr>checked := x_checked\<rparr>) = counters_ok s"
  "counters_ok (s\<lparr>sawResources := x_sawResources\<rparr>) = counters_ok s"
  "counters_ok (s\<lparr>sawLifecycle := x_sawLifecycle\<rparr>) = counters_ok s"
  "counters_ok (s\<lparr>skipRest := x_skipRest\<rparr>) = counters_ok s"
  "counters_ok (s\<lparr>inflightModel := x_inflightModel\<rparr>) = counters_ok s"
  "counters_ok (s\<lparr>probeStarted := x_probeStarted\<rparr>) = counters_ok s"
  "counters_ok (s\<lparr>acceptLate := x_acceptLate\<rparr>) = counters_ok s"
  "counters_ok (s\<lparr>seen := x_seen\<rparr>) = counters_ok s"
  "counters_ok (s\<lparr>out := x_out\<rparr>) = counters_ok s"
  by (simp_all add: counters_ok_def slots_def limit_def)


lemma counters_ok_grant:
  "counters_ok s \<Longrightarrow> slots s (req_model r) < limit s (req_model r) \<Longrightarrow>
     counters_ok (grant_head h r rs s)"
  by (auto simp: grant_head_def Let_def emit_def counters_ok_def slots_def limit_def)

lemma counters_ok_backend: "counters_ok s \<Longrightarrow> counters_ok (apply_backend m a g s)"
  using pos_counts_nonneg [of "unresolved s" m]
  by (auto simp: apply_backend_def counters_ok_def slots_def limit_def)
   (smt (verit, best))+

lemma counters_ok_dispatch: "counters_ok s \<Longrightarrow> counters_ok (try_dispatch h s)"
proof (erule try_dispatch_inv [rotated])
  fix s s' assume I: "counters_ok s"
    and step: "dispatch_step h s = Halt s' \<or> dispatch_step h s = Again s'"
  show "counters_ok s'"
    using I step
  proof (rule dispatch_step_inv)
    fix s r s' assume I: "counters_ok s" and m: "maybe_recover h r s = Some s'"
    from m show "counters_ok s'"
      by (cases rule: maybe_recover_cases) (use I in \<open>auto simp: round_defs\<close>)
  qed (auto simp: start_defs reopen_unused_gates_def counters_ok_grant)
qed

lemma counters_ok_begin [simp]: "counters_ok (begin_probe m s) = counters_ok s"
  by (simp add: round_defs)

lemma counters_ok_fail [simp]: "counters_ok (fail_head r rs e s) = counters_ok s"
  by (simp add: start_defs)

lemma counters_ok_end [simp]: "counters_ok (end_round s) = counters_ok s"
  by (simp add: end_round_def)

lemma counters_ok_sample [simp]: "counters_ok (set_phase p s) = counters_ok s"
  by (simp add: set_phase_def)

lemma counters_ok_recovery:
  "counters_ok s \<Longrightarrow> recovering s \<Longrightarrow> counters_ok (fail_owner h e s)"
  "counters_ok s \<Longrightarrow> phase s = PhaseRecover \<Longrightarrow> counters_ok (launch_probe h s)"
  by (rule recovery_inv [where I = counters_ok]; simp add: counters_ok_dispatch)+

lemma counters_ok_absorb: "counters_ok s \<Longrightarrow> counters_ok (absorb n s)"
  by (auto simp: absorb_def Let_def counters_ok_backend split: recovery_class.split)

lemma counters_ok_note: "counters_ok s \<Longrightarrow> counters_ok (note_probe h n s)"
  by (rule note_probe_inv [where I = counters_ok])
    (simp_all add: counters_ok_dispatch counters_ok_recovery counters_ok_absorb counters_ok_backend
      forget_probe_def mark_seen_def)

lemma counters_ok_serve:
  "counters_ok s \<Longrightarrow> 0 < cnt (httpIn s) m \<Longrightarrow>
     counters_ok (s\<lparr>httpIn := decr m (httpIn s), unresolved := incr m (unresolved s)\<rparr>)"
  by (auto simp: counters_ok_def slots_def limit_def add.assoc)

lemma counters_ok_start:
  "counters_ok s \<Longrightarrow> 0 < cnt (pending s) m \<Longrightarrow>
     counters_ok (s\<lparr>pending := decr m (pending s), httpIn := incr m (httpIn s)\<rparr>)"
  by (auto simp: counters_ok_def slots_def limit_def)

lemma counters_ok_cancel:
  "counters_ok s \<Longrightarrow> 0 < cnt (pending s) m \<Longrightarrow>
     counters_ok (s\<lparr>pending := decr m (pending s)\<rparr>)"
  by (auto simp: counters_ok_def slots_def limit_def) (smt (verit, best))

lemma counters_ok_forget_backend:
  "counters_ok s \<Longrightarrow> counters_ok (s\<lparr>backend := (backend s)(m := None)\<rparr>)"
  by (auto simp: counters_ok_def slots_def limit_def)

lemma counters_ok_step: "counters_ok s \<Longrightarrow> counters_ok (fifo_step s e)"
proof -
  assume I: "counters_ok s"
  obtain h ev where e: "e = (h, ev)" by (cases e)
  show ?thesis
    by (cases ev)
      (use I in \<open>auto simp: e on_request_def reject_admit_def admit_def on_cancel_def drop_owner_def
        on_queue_timeout_def on_proxy_start_def on_cancel_granted_def on_serve_done_def on_status_def
        on_backend_done_def on_unload_done_def on_swap_done_def on_remind_def on_shutdown_def
        fold_grant_error forget_probe_def marker_cleared_def sample_failed_def recovering_def reopen_unused_gates_def
        fold_open_gate emit_def grant_error_def Let_def
        split: option.split list.split
        intro!: counters_ok_dispatch counters_ok_serve counters_ok_start counters_ok_cancel
          counters_ok_forget_backend counters_ok_backend counters_ok_note counters_ok_recovery(1)\<close>)
qed

section \<open>Gates\<close>

text \<open>A gate has a closing time exactly while it is closed.\<close>

definition gates_ok :: "fifo \<Rightarrow> bool" where
  "gates_ok s = (\<forall>m. (gateAt s m \<noteq> None) = (m \<in> gateClosed s))"

lemma gates_ok_frame [simp]:
  "gates_ok (s\<lparr>limits := x_limits\<rparr>) = gates_ok s"
  "gates_ok (s\<lparr>maxQ := x_maxQ\<rparr>) = gates_ok s"
  "gates_ok (s\<lparr>nextID := x_nextID\<rparr>) = gates_ok s"
  "gates_ok (s\<lparr>queued := x_queued\<rparr>) = gates_ok s"
  "gates_ok (s\<lparr>pending := x_pending\<rparr>) = gates_ok s"
  "gates_ok (s\<lparr>httpIn := x_httpIn\<rparr>) = gates_ok s"
  "gates_ok (s\<lparr>backend := x_backend\<rparr>) = gates_ok s"
  "gates_ok (s\<lparr>unresolved := x_unresolved\<rparr>) = gates_ok s"
  "gates_ok (s\<lparr>dispatchGen := x_dispatchGen\<rparr>) = gates_ok s"
  "gates_ok (s\<lparr>quietGen := x_quietGen\<rparr>) = gates_ok s"
  "gates_ok (s\<lparr>drain := x_drain\<rparr>) = gates_ok s"
  "gates_ok (s\<lparr>drainArmed := x_drainArmed\<rparr>) = gates_ok s"
  "gates_ok (s\<lparr>unloadFail := x_unloadFail\<rparr>) = gates_ok s"
  "gates_ok (s\<lparr>phase := x_phase\<rparr>) = gates_ok s"
  "gates_ok (s\<lparr>swapTarget := x_swapTarget\<rparr>) = gates_ok s"
  "gates_ok (s\<lparr>swapEvict := x_swapEvict\<rparr>) = gates_ok s"
  "gates_ok (s\<lparr>unloadBegan := x_unloadBegan\<rparr>) = gates_ok s"
  "gates_ok (s\<lparr>tokenSeq := x_tokenSeq\<rparr>) = gates_ok s"
  "gates_ok (s\<lparr>recoverToken := x_recoverToken\<rparr>) = gates_ok s"
  "gates_ok (s\<lparr>recoverOwner := x_recoverOwner\<rparr>) = gates_ok s"
  "gates_ok (s\<lparr>recoverModel := x_recoverModel\<rparr>) = gates_ok s"
  "gates_ok (s\<lparr>statusOrder := x_statusOrder\<rparr>) = gates_ok s"
  "gates_ok (s\<lparr>statusPos := x_statusPos\<rparr>) = gates_ok s"
  "gates_ok (s\<lparr>needSample := x_needSample\<rparr>) = gates_ok s"
  "gates_ok (s\<lparr>checked := x_checked\<rparr>) = gates_ok s"
  "gates_ok (s\<lparr>sawResources := x_sawResources\<rparr>) = gates_ok s"
  "gates_ok (s\<lparr>sawLifecycle := x_sawLifecycle\<rparr>) = gates_ok s"
  "gates_ok (s\<lparr>skipRest := x_skipRest\<rparr>) = gates_ok s"
  "gates_ok (s\<lparr>inflightModel := x_inflightModel\<rparr>) = gates_ok s"
  "gates_ok (s\<lparr>probeStarted := x_probeStarted\<rparr>) = gates_ok s"
  "gates_ok (s\<lparr>acceptLate := x_acceptLate\<rparr>) = gates_ok s"
  "gates_ok (s\<lparr>seen := x_seen\<rparr>) = gates_ok s"
  "gates_ok (s\<lparr>out := x_out\<rparr>) = gates_ok s"
  by (simp_all add: gates_ok_def)

lemma gates_ok_reopen: "gates_ok s \<Longrightarrow> gates_ok (reopen_unused_gates h s)"
  by (auto simp: gates_ok_def reopen_unused_gates_def split: if_splits)

lemma gates_ok_open: "gates_ok s \<Longrightarrow> gates_ok (fold open_gate ms s)"
  by (auto simp: gates_ok_def fold_open_gate split: if_splits)

lemma gates_ok_close: "gates_ok s \<Longrightarrow> gates_ok (fold (close_gate h) ms s)"
  by (auto simp: gates_ok_def fold_close_gate split: if_splits)

lemma gates_ok_dispatch: "gates_ok s \<Longrightarrow> gates_ok (try_dispatch h s)"
proof (erule try_dispatch_inv [rotated])
  fix s s' assume I: "gates_ok s"
    and step: "dispatch_step h s = Halt s' \<or> dispatch_step h s = Again s'"
  show "gates_ok s'"
    using I step
  proof (rule dispatch_step_inv)
    fix s r s' assume I: "gates_ok s" and m: "maybe_recover h r s = Some s'"
    from m show "gates_ok s'"
      by (cases rule: maybe_recover_cases) (use I in \<open>auto simp: round_defs\<close>)
  qed (simp_all add: fail_head_def fail_drain_def grant_error_def start_unload_def start_load_def
      arm_drain_def set_phase_def emit_def Let_def grant_head_def gates_ok_reopen gates_ok_open
      gates_ok_close)
qed

lemma gates_ok_absorb [simp]: "gates_ok (absorb n s) = gates_ok s"
  by (simp add: absorb_def apply_backend_def Let_def split: recovery_class.split)

lemma gates_ok_parts [simp]:
  "gates_ok (begin_probe m s) = gates_ok s" "gates_ok (fail_head r rs e s) = gates_ok s"
  "gates_ok (end_round s) = gates_ok s" "gates_ok (set_phase p s) = gates_ok s"
  "gates_ok (apply_backend m a g s) = gates_ok s" "gates_ok (mark_seen i m s) = gates_ok s"
  "gates_ok (forget_probe m s) = gates_ok s"
  by (simp_all add: round_defs start_defs apply_backend_def forget_probe_def)

lemma gates_ok_recovery:
  "gates_ok s \<Longrightarrow> recovering s \<Longrightarrow> gates_ok (fail_owner h e s)"
  "gates_ok s \<Longrightarrow> phase s = PhaseRecover \<Longrightarrow> gates_ok (launch_probe h s)"
  by (rule recovery_inv [where I = gates_ok]; simp add: gates_ok_dispatch)+

lemma gates_ok_note: "gates_ok s \<Longrightarrow> gates_ok (note_probe h n s)"
  by (rule note_probe_inv [where I = gates_ok]) (simp_all add: gates_ok_dispatch gates_ok_recovery)

lemma gates_ok_step: "gates_ok s \<Longrightarrow> gates_ok (fifo_step s e)"
proof -
  assume I: "gates_ok s"
  obtain h ev where e: "e = (h, ev)" by (cases e)
  show ?thesis
    by (cases ev)
      (use I in \<open>auto simp: e on_request_def reject_admit_def admit_def on_cancel_def drop_owner_def
        on_queue_timeout_def on_proxy_start_def on_cancel_granted_def on_serve_done_def on_status_def
        on_backend_done_def on_unload_done_def on_swap_done_def on_remind_def on_shutdown_def
        fold_grant_error marker_cleared_def sample_failed_def recovering_def
        emit_def grant_error_def Let_def
        split: option.split list.split
        intro!: gates_ok_dispatch gates_ok_note gates_ok_recovery(1) gates_ok_reopen gates_ok_open\<close>)
qed

section \<open>Phases\<close>

text \<open>
  \<open>unloadBegan\<close> is set exactly while an unload is in flight, and a late probe result is accepted
  only while the scheduler is idle.
\<close>

definition phase_ok :: "fifo \<Rightarrow> bool" where
  "phase_ok s =
     (unloadBegan s = (phase s = PhaseUnloading) \<and> (phase s \<noteq> PhaseIdle \<longrightarrow> acceptLate s = {}))"

lemma phase_ok_frame [simp]:
  "phase_ok (s\<lparr>limits := x_limits\<rparr>) = phase_ok s"
  "phase_ok (s\<lparr>maxQ := x_maxQ\<rparr>) = phase_ok s"
  "phase_ok (s\<lparr>nextID := x_nextID\<rparr>) = phase_ok s"
  "phase_ok (s\<lparr>queued := x_queued\<rparr>) = phase_ok s"
  "phase_ok (s\<lparr>pending := x_pending\<rparr>) = phase_ok s"
  "phase_ok (s\<lparr>httpIn := x_httpIn\<rparr>) = phase_ok s"
  "phase_ok (s\<lparr>backend := x_backend\<rparr>) = phase_ok s"
  "phase_ok (s\<lparr>unresolved := x_unresolved\<rparr>) = phase_ok s"
  "phase_ok (s\<lparr>dispatchGen := x_dispatchGen\<rparr>) = phase_ok s"
  "phase_ok (s\<lparr>quietGen := x_quietGen\<rparr>) = phase_ok s"
  "phase_ok (s\<lparr>gateClosed := x_gateClosed\<rparr>) = phase_ok s"
  "phase_ok (s\<lparr>gateAt := x_gateAt\<rparr>) = phase_ok s"
  "phase_ok (s\<lparr>drain := x_drain\<rparr>) = phase_ok s"
  "phase_ok (s\<lparr>drainArmed := x_drainArmed\<rparr>) = phase_ok s"
  "phase_ok (s\<lparr>unloadFail := x_unloadFail\<rparr>) = phase_ok s"
  "phase_ok (s\<lparr>swapTarget := x_swapTarget\<rparr>) = phase_ok s"
  "phase_ok (s\<lparr>swapEvict := x_swapEvict\<rparr>) = phase_ok s"
  "phase_ok (s\<lparr>tokenSeq := x_tokenSeq\<rparr>) = phase_ok s"
  "phase_ok (s\<lparr>recoverToken := x_recoverToken\<rparr>) = phase_ok s"
  "phase_ok (s\<lparr>recoverOwner := x_recoverOwner\<rparr>) = phase_ok s"
  "phase_ok (s\<lparr>recoverModel := x_recoverModel\<rparr>) = phase_ok s"
  "phase_ok (s\<lparr>statusOrder := x_statusOrder\<rparr>) = phase_ok s"
  "phase_ok (s\<lparr>statusPos := x_statusPos\<rparr>) = phase_ok s"
  "phase_ok (s\<lparr>needSample := x_needSample\<rparr>) = phase_ok s"
  "phase_ok (s\<lparr>checked := x_checked\<rparr>) = phase_ok s"
  "phase_ok (s\<lparr>sawResources := x_sawResources\<rparr>) = phase_ok s"
  "phase_ok (s\<lparr>sawLifecycle := x_sawLifecycle\<rparr>) = phase_ok s"
  "phase_ok (s\<lparr>skipRest := x_skipRest\<rparr>) = phase_ok s"
  "phase_ok (s\<lparr>inflightModel := x_inflightModel\<rparr>) = phase_ok s"
  "phase_ok (s\<lparr>probeStarted := x_probeStarted\<rparr>) = phase_ok s"
  "phase_ok (s\<lparr>seen := x_seen\<rparr>) = phase_ok s"
  "phase_ok (s\<lparr>out := x_out\<rparr>) = phase_ok s"
  by (simp_all add: phase_ok_def)

lemma phase_ok_dispatch: "phase_ok s \<Longrightarrow> phase_ok (try_dispatch h s)"
proof (erule try_dispatch_inv [rotated])
  fix s s' assume I: "phase_ok s"
    and step: "dispatch_step h s = Halt s' \<or> dispatch_step h s = Again s'"
  show "phase_ok s'"
    using I step
  proof (rule dispatch_step_inv)
    fix s r s' assume I: "phase_ok s" and i: "phase s = PhaseIdle"
      and m: "maybe_recover h r s = Some s'"
    from m show "phase_ok s'"
      by (cases rule: maybe_recover_cases) (use I i in \<open>auto simp: round_defs phase_ok_def\<close>)
  qed (auto simp: start_defs grant_head_def reopen_unused_gates_def phase_ok_def)
qed

lemma phase_ok_absorb [simp]: "phase_ok (absorb n s) = phase_ok s"
  by (simp add: absorb_def apply_backend_def Let_def split: recovery_class.split)

lemma phase_ok_parts [simp]:
  "phase_ok (begin_probe m s) = phase_ok s" "phase_ok (fail_head r rs e s) = phase_ok s"
  "phase_ok (apply_backend m a g s) = phase_ok s" "phase_ok (mark_seen i m s) = phase_ok s"
  "phase_ok (forget_probe m s) = phase_ok s"
  by (simp_all add: round_defs start_defs apply_backend_def forget_probe_def)

lemma phase_ok_end: "phase_ok s \<Longrightarrow> recovering s \<Longrightarrow> phase_ok (end_round s)"
  by (auto simp: phase_ok_def recovering_def end_round_def)

lemma phase_ok_sample: "phase_ok s \<Longrightarrow> phase s = PhaseRecover \<Longrightarrow> phase_ok (set_phase PhaseSample s)"
  by (auto simp: phase_ok_def set_phase_def)

lemma phase_ok_recovery:
  "phase_ok s \<Longrightarrow> recovering s \<Longrightarrow> phase_ok (fail_owner h e s)"
  "phase_ok s \<Longrightarrow> phase s = PhaseRecover \<Longrightarrow> phase_ok (launch_probe h s)"
  by (rule recovery_inv [where I = phase_ok];
      simp add: phase_ok_dispatch phase_ok_end phase_ok_sample)+

lemma phase_ok_note: "phase_ok s \<Longrightarrow> phase_ok (note_probe h n s)"
  by (rule note_probe_inv [where I = phase_ok])
    (simp_all add: phase_ok_dispatch phase_ok_recovery phase_ok_end)

lemma phase_ok_idle [simp]: "phase s = PhaseIdle \<Longrightarrow> phase_ok (s\<lparr>unloadBegan := False\<rparr>)"
  by (simp add: phase_ok_def)

lemma phase_ok_drop: "phase_ok s \<Longrightarrow> phase_ok (drop_owner i s)"
  by (auto simp: phase_ok_def drop_owner_def)

lemma phase_ok_step: "phase_ok s \<Longrightarrow> phase_ok (fifo_step s e)"
proof -
  assume I: "phase_ok s"
  obtain h ev where e: "e = (h, ev)" by (cases e)
  show ?thesis
    by (cases ev)
      (use I in \<open>auto simp: e on_request_def reject_admit_def admit_def on_cancel_def
        on_queue_timeout_def on_proxy_start_def on_cancel_granted_def on_serve_done_def on_status_def
        on_backend_done_def on_unload_done_def on_swap_done_def on_remind_def on_shutdown_def
        fold_grant_error marker_cleared_def sample_failed_def recovering_def reopen_unused_gates_def
        emit_def grant_error_def Let_def fold_open_gate
        split: option.split list.split
        intro!: phase_ok_dispatch phase_ok_note phase_ok_recovery(1) phase_ok_drop phase_ok_end\<close>)
qed

section \<open>The owner of a recovery round\<close>

text \<open>
  While the scheduler waits for probes or for a sample, the request that owns the round is still
  the head of the queue, and the round's token is one that was issued.
\<close>

definition owner_ok :: "fifo \<Rightarrow> bool" where
  "owner_ok s =
     ((recovering s \<longrightarrow>
         queued s \<noteq> [] \<and> req_id (hd (queued s)) = recoverOwner s \<and> recoverToken s \<noteq> 0)
      \<and> (\<forall>m t. probeStarted s m = Some t \<longrightarrow> t \<noteq> 0))"

lemma owner_ok_frame [simp]:
  "owner_ok (s\<lparr>limits := x_limits\<rparr>) = owner_ok s"
  "owner_ok (s\<lparr>maxQ := x_maxQ\<rparr>) = owner_ok s"
  "owner_ok (s\<lparr>nextID := x_nextID\<rparr>) = owner_ok s"
  "owner_ok (s\<lparr>pending := x_pending\<rparr>) = owner_ok s"
  "owner_ok (s\<lparr>httpIn := x_httpIn\<rparr>) = owner_ok s"
  "owner_ok (s\<lparr>backend := x_backend\<rparr>) = owner_ok s"
  "owner_ok (s\<lparr>unresolved := x_unresolved\<rparr>) = owner_ok s"
  "owner_ok (s\<lparr>dispatchGen := x_dispatchGen\<rparr>) = owner_ok s"
  "owner_ok (s\<lparr>quietGen := x_quietGen\<rparr>) = owner_ok s"
  "owner_ok (s\<lparr>gateClosed := x_gateClosed\<rparr>) = owner_ok s"
  "owner_ok (s\<lparr>gateAt := x_gateAt\<rparr>) = owner_ok s"
  "owner_ok (s\<lparr>drain := x_drain\<rparr>) = owner_ok s"
  "owner_ok (s\<lparr>drainArmed := x_drainArmed\<rparr>) = owner_ok s"
  "owner_ok (s\<lparr>unloadFail := x_unloadFail\<rparr>) = owner_ok s"
  "owner_ok (s\<lparr>swapTarget := x_swapTarget\<rparr>) = owner_ok s"
  "owner_ok (s\<lparr>swapEvict := x_swapEvict\<rparr>) = owner_ok s"
  "owner_ok (s\<lparr>unloadBegan := x_unloadBegan\<rparr>) = owner_ok s"
  "owner_ok (s\<lparr>tokenSeq := x_tokenSeq\<rparr>) = owner_ok s"
  "owner_ok (s\<lparr>recoverModel := x_recoverModel\<rparr>) = owner_ok s"
  "owner_ok (s\<lparr>statusOrder := x_statusOrder\<rparr>) = owner_ok s"
  "owner_ok (s\<lparr>statusPos := x_statusPos\<rparr>) = owner_ok s"
  "owner_ok (s\<lparr>needSample := x_needSample\<rparr>) = owner_ok s"
  "owner_ok (s\<lparr>checked := x_checked\<rparr>) = owner_ok s"
  "owner_ok (s\<lparr>sawResources := x_sawResources\<rparr>) = owner_ok s"
  "owner_ok (s\<lparr>sawLifecycle := x_sawLifecycle\<rparr>) = owner_ok s"
  "owner_ok (s\<lparr>skipRest := x_skipRest\<rparr>) = owner_ok s"
  "owner_ok (s\<lparr>inflightModel := x_inflightModel\<rparr>) = owner_ok s"
  "owner_ok (s\<lparr>acceptLate := x_acceptLate\<rparr>) = owner_ok s"
  "owner_ok (s\<lparr>seen := x_seen\<rparr>) = owner_ok s"
  "owner_ok (s\<lparr>out := x_out\<rparr>) = owner_ok s"
  by (simp_all add: owner_ok_def recovering_def)

lemma owner_ok_idle: "owner_ok s \<Longrightarrow> \<not> recovering t \<Longrightarrow> probeStarted t = probeStarted s \<Longrightarrow> owner_ok t"
  by (simp add: owner_ok_def)

lemma owner_ok_dispatch: "owner_ok s \<Longrightarrow> owner_ok (try_dispatch h s)"
proof (erule try_dispatch_inv [rotated])
  fix s s' assume I: "owner_ok s"
    and step: "dispatch_step h s = Halt s' \<or> dispatch_step h s = Again s'"
  show "owner_ok s'"
    using I step
  proof (rule dispatch_step_inv)
    fix s r rs s' assume I: "owner_ok s" and i: "phase s = PhaseIdle" "queued s = r # rs"
      and m: "maybe_recover h r s = Some s'"
    from m show "owner_ok s'"
      by (cases rule: maybe_recover_cases)
        (use I i in \<open>auto simp: round_defs owner_ok_def recovering_def\<close>)
  next
    fix s :: fifo and r rs e assume "owner_ok s" "phase s = PhaseIdle"
    then show "owner_ok (fail_head r rs e s)"
      by (elim owner_ok_idle) (auto simp: start_defs recovering_def)
  next
    fix s :: fifo and r rs ms assume "owner_ok s" "phase s = PhaseIdle"
    then show "owner_ok (fail_drain r rs ms s)"
      by (elim owner_ok_idle) (auto simp: start_defs recovering_def)
  next
    fix s :: fifo and r rs ms assume "owner_ok s" "phase s = PhaseIdle"
    then show "owner_ok (start_unload h r ms s)"
      by (elim owner_ok_idle) (auto simp: start_defs recovering_def)
  next
    fix s :: fifo and r rs assume "owner_ok s" "phase s = PhaseIdle"
    then show "owner_ok (grant_head h r rs s)"
      by (elim owner_ok_idle) (auto simp: head_defs recovering_def)
  next
    fix s :: fifo and r assume "owner_ok s" "phase s = PhaseIdle"
    then show "owner_ok (start_load r s)"
      by (elim owner_ok_idle) (auto simp: start_defs recovering_def)
  qed (simp_all add: reopen_unused_gates_def fold_close_gate arm_drain_def emit_def)
qed

lemma owner_ok_absorb [simp]: "owner_ok (absorb n s) = owner_ok s"
  by (simp add: absorb_def apply_backend_def Let_def split: recovery_class.split)

lemma owner_ok_parts [simp]:
  "owner_ok (apply_backend m a g s) = owner_ok s" "owner_ok (mark_seen i m s) = owner_ok s"
  by (simp_all add: mark_seen_def apply_backend_def)

lemma owner_ok_forget: "owner_ok s \<Longrightarrow> owner_ok (forget_probe m s)"
  by (simp add: forget_probe_def owner_ok_def recovering_def)

lemma owner_ok_begin: "owner_ok s \<Longrightarrow> phase s = PhaseRecover \<Longrightarrow> owner_ok (begin_probe m s)"
  by (auto simp: round_defs owner_ok_def recovering_def)

lemma owner_ok_fail: "owner_ok s \<Longrightarrow> phase s = PhaseIdle \<Longrightarrow> owner_ok (fail_head r rs e s)"
  by (elim owner_ok_idle) (auto simp: start_defs recovering_def)

lemma owner_ok_end: "owner_ok s \<Longrightarrow> owner_ok (end_round s)"
  by (simp add: owner_ok_def recovering_def end_round_def)

lemma owner_ok_sample: "owner_ok s \<Longrightarrow> phase s = PhaseRecover \<Longrightarrow> owner_ok (set_phase PhaseSample s)"
  by (simp add: owner_ok_def recovering_def set_phase_def)

lemma owner_ok_recovery:
  "owner_ok s \<Longrightarrow> recovering s \<Longrightarrow> owner_ok (fail_owner h e s)"
  "owner_ok s \<Longrightarrow> phase s = PhaseRecover \<Longrightarrow> owner_ok (launch_probe h s)"
  by (rule recovery_inv [where I = owner_ok];
      simp add: owner_ok_dispatch owner_ok_fail owner_ok_end owner_ok_sample owner_ok_begin)+

lemma owner_ok_note: "owner_ok s \<Longrightarrow> owner_ok (note_probe h n s)"
  by (rule note_probe_inv [where I = owner_ok])
    (simp_all add: owner_ok_dispatch owner_ok_recovery owner_ok_end owner_ok_forget)

lemma hd_remove_req: "qs \<noteq> [] \<Longrightarrow> req_id (hd qs) \<noteq> i \<Longrightarrow> remove_req i qs \<noteq> [] \<and> hd (remove_req i qs) = hd qs"
  by (cases qs) auto

lemma owner_ok_remove:
  "owner_ok s \<Longrightarrow> owner_ok (drop_owner i (s\<lparr>queued := remove_req i (queued s)\<rparr>))"
  using hd_remove_req [of "queued s" i]
  by (auto simp: owner_ok_def drop_owner_def recovering_def)

lemma owner_ok_append:
  "owner_ok s \<Longrightarrow> queued s = qs \<Longrightarrow> owner_ok (s\<lparr>queued := qs @ [q]\<rparr>)"
  by (auto simp: owner_ok_def recovering_def)

lemma owner_ok_unload:
  "owner_ok s \<Longrightarrow> owner_ok (s\<lparr>phase := PhaseIdle\<rparr>)"
  by (simp add: owner_ok_def recovering_def)

definition no_shutdown :: "fifo \<Rightarrow> host \<times> fifo_event \<Rightarrow> bool" where
  "no_shutdown s e = (case snd e of OnShutdown _ \<Rightarrow> False | _ \<Rightarrow> True)"

lemma owner_ok_step: "owner_ok s \<Longrightarrow> no_shutdown s e \<Longrightarrow> owner_ok (fifo_step s e)"
proof -
  assume I: "owner_ok s" and ns: "no_shutdown s e"
  obtain h ev where e: "e = (h, ev)" by (cases e)
  show ?thesis
    by (cases ev)
      (use I ns in \<open>auto simp: e no_shutdown_def on_request_def reject_admit_def admit_def on_cancel_def
        on_queue_timeout_def on_proxy_start_def on_cancel_granted_def on_serve_done_def on_status_def
        on_backend_done_def on_unload_done_def on_swap_done_def on_remind_def
        marker_cleared_def sample_failed_def recovering_def reopen_unused_gates_def
        emit_def grant_error_def Let_def fold_open_gate
        split: option.split list.split
        intro!: owner_ok_dispatch owner_ok_note owner_ok_recovery(1) owner_ok_remove owner_ok_end
          owner_ok_append owner_ok_forget owner_ok_unload owner_ok_fail\<close>)
qed

section \<open>Dispatch generations\<close>

text \<open>
  \<open>quietGen\<close> of a model is either unset or the generation of its last grant, and while it is set
  no granted request of the model is pending or in its handler.
\<close>

definition gens_ok :: "fifo \<Rightarrow> bool" where
  "gens_ok s =
     (\<forall>m. quietGen s m \<noteq> 0 \<longrightarrow>
        quietGen s m = dispatchGen s m \<and> cnt (pending s) m = 0 \<and> cnt (httpIn s) m = 0)"

lemma gens_ok_frame [simp]:
  "gens_ok (s\<lparr>limits := x_limits\<rparr>) = gens_ok s"
  "gens_ok (s\<lparr>maxQ := x_maxQ\<rparr>) = gens_ok s"
  "gens_ok (s\<lparr>nextID := x_nextID\<rparr>) = gens_ok s"
  "gens_ok (s\<lparr>queued := x_queued\<rparr>) = gens_ok s"
  "gens_ok (s\<lparr>backend := x_backend\<rparr>) = gens_ok s"
  "gens_ok (s\<lparr>unresolved := x_unresolved\<rparr>) = gens_ok s"
  "gens_ok (s\<lparr>gateClosed := x_gateClosed\<rparr>) = gens_ok s"
  "gens_ok (s\<lparr>gateAt := x_gateAt\<rparr>) = gens_ok s"
  "gens_ok (s\<lparr>drain := x_drain\<rparr>) = gens_ok s"
  "gens_ok (s\<lparr>drainArmed := x_drainArmed\<rparr>) = gens_ok s"
  "gens_ok (s\<lparr>unloadFail := x_unloadFail\<rparr>) = gens_ok s"
  "gens_ok (s\<lparr>phase := x_phase\<rparr>) = gens_ok s"
  "gens_ok (s\<lparr>swapTarget := x_swapTarget\<rparr>) = gens_ok s"
  "gens_ok (s\<lparr>swapEvict := x_swapEvict\<rparr>) = gens_ok s"
  "gens_ok (s\<lparr>unloadBegan := x_unloadBegan\<rparr>) = gens_ok s"
  "gens_ok (s\<lparr>tokenSeq := x_tokenSeq\<rparr>) = gens_ok s"
  "gens_ok (s\<lparr>recoverToken := x_recoverToken\<rparr>) = gens_ok s"
  "gens_ok (s\<lparr>recoverOwner := x_recoverOwner\<rparr>) = gens_ok s"
  "gens_ok (s\<lparr>recoverModel := x_recoverModel\<rparr>) = gens_ok s"
  "gens_ok (s\<lparr>statusOrder := x_statusOrder\<rparr>) = gens_ok s"
  "gens_ok (s\<lparr>statusPos := x_statusPos\<rparr>) = gens_ok s"
  "gens_ok (s\<lparr>needSample := x_needSample\<rparr>) = gens_ok s"
  "gens_ok (s\<lparr>checked := x_checked\<rparr>) = gens_ok s"
  "gens_ok (s\<lparr>sawResources := x_sawResources\<rparr>) = gens_ok s"
  "gens_ok (s\<lparr>sawLifecycle := x_sawLifecycle\<rparr>) = gens_ok s"
  "gens_ok (s\<lparr>skipRest := x_skipRest\<rparr>) = gens_ok s"
  "gens_ok (s\<lparr>inflightModel := x_inflightModel\<rparr>) = gens_ok s"
  "gens_ok (s\<lparr>probeStarted := x_probeStarted\<rparr>) = gens_ok s"
  "gens_ok (s\<lparr>acceptLate := x_acceptLate\<rparr>) = gens_ok s"
  "gens_ok (s\<lparr>seen := x_seen\<rparr>) = gens_ok s"
  "gens_ok (s\<lparr>out := x_out\<rparr>) = gens_ok s"
  by (simp_all add: gens_ok_def)

lemma gens_ok_grant: "gens_ok s \<Longrightarrow> gens_ok (grant_head h r rs s)"
  by (auto simp: grant_head_def Let_def emit_def gens_ok_def)

lemma gens_ok_dispatch: "gens_ok s \<Longrightarrow> gens_ok (try_dispatch h s)"
proof (erule try_dispatch_inv [rotated])
  fix s s' assume I: "gens_ok s"
    and step: "dispatch_step h s = Halt s' \<or> dispatch_step h s = Again s'"
  show "gens_ok s'"
    using I step
  proof (rule dispatch_step_inv)
    fix s r s' assume I: "gens_ok s" and m: "maybe_recover h r s = Some s'"
    from m show "gens_ok s'"
      by (cases rule: maybe_recover_cases) (use I in \<open>auto simp: round_defs\<close>)
  qed (simp_all add: start_defs reopen_unused_gates_def gens_ok_grant)
qed

lemma gens_ok_absorb [simp]: "gens_ok (absorb n s) = gens_ok s"
  by (simp add: absorb_def apply_backend_def Let_def split: recovery_class.split)

lemma gens_ok_parts [simp]:
  "gens_ok (begin_probe m s) = gens_ok s" "gens_ok (fail_head r rs e s) = gens_ok s"
  "gens_ok (end_round s) = gens_ok s" "gens_ok (set_phase p s) = gens_ok s"
  "gens_ok (apply_backend m a g s) = gens_ok s" "gens_ok (mark_seen i m s) = gens_ok s"
  "gens_ok (forget_probe m s) = gens_ok s"
  by (simp_all add: round_defs start_defs apply_backend_def forget_probe_def)

lemma gens_ok_recovery:
  "gens_ok s \<Longrightarrow> recovering s \<Longrightarrow> gens_ok (fail_owner h e s)"
  "gens_ok s \<Longrightarrow> phase s = PhaseRecover \<Longrightarrow> gens_ok (launch_probe h s)"
  by (rule recovery_inv [where I = gens_ok]; simp add: gens_ok_dispatch)+

lemma gens_ok_note: "gens_ok s \<Longrightarrow> gens_ok (note_probe h n s)"
  by (rule note_probe_inv [where I = gens_ok]) (simp_all add: gens_ok_dispatch gens_ok_recovery)

lemma gens_ok_start:
  "gens_ok s \<Longrightarrow> 0 < cnt (pending s) m \<Longrightarrow>
     gens_ok (s\<lparr>pending := decr m (pending s), httpIn := incr m (httpIn s)\<rparr>)"
  by (auto simp: gens_ok_def)

lemma gens_ok_cancel:
  "gens_ok s \<Longrightarrow> 0 < cnt (pending s) m \<Longrightarrow> gens_ok (s\<lparr>pending := decr m (pending s)\<rparr>)"
  by (auto simp: gens_ok_def)

lemma gens_ok_done:
  "gens_ok s \<Longrightarrow> 0 < cnt (httpIn s) m \<Longrightarrow>
     gens_ok (s\<lparr>httpIn := decr m (httpIn s), unresolved := u\<rparr>)"
  by (auto simp: gens_ok_def)

lemma gens_ok_quiet:
  "gens_ok s \<Longrightarrow> cnt (pending s) m = 0 \<Longrightarrow> cnt (httpIn s) m = 0 \<Longrightarrow>
     gens_ok (s\<lparr>quietGen := (quietGen s)(m := dispatchGen s m)\<rparr>)"
  by (auto simp: gens_ok_def)

lemma gens_ok_serve: "gens_ok s \<Longrightarrow> gens_ok (on_serve_done h m s)"
  by (auto simp: on_serve_done_def Let_def intro!: gens_ok_dispatch)
    (auto simp: gens_ok_def)

lemma gens_ok_step: "gens_ok s \<Longrightarrow> gens_ok (fifo_step s e)"
proof -
  assume I: "gens_ok s"
  obtain h ev where e: "e = (h, ev)" by (cases e)
  show ?thesis
    by (cases ev)
      (use I in \<open>auto simp: e on_request_def reject_admit_def admit_def on_cancel_def drop_owner_def
        on_queue_timeout_def on_proxy_start_def on_cancel_granted_def on_status_def
        on_backend_done_def on_unload_done_def on_swap_done_def on_remind_def on_shutdown_def
        fold_grant_error marker_cleared_def sample_failed_def recovering_def reopen_unused_gates_def
        emit_def grant_error_def Let_def fold_open_gate
        split: option.split list.split
        intro!: gens_ok_dispatch gens_ok_note gens_ok_recovery(1) gens_ok_start gens_ok_cancel
          gens_ok_serve\<close>)
qed

section \<open>The queue bound\<close>

definition queue_ok :: "fifo \<Rightarrow> bool" where
  "queue_ok s = (0 < maxQ s \<and> int (length (queued s)) \<le> maxQ s)"

lemma queue_ok_frame [simp]:
  "queue_ok (s\<lparr>limits := x_limits\<rparr>) = queue_ok s"
  "queue_ok (s\<lparr>nextID := x_nextID\<rparr>) = queue_ok s"
  "queue_ok (s\<lparr>pending := x_pending\<rparr>) = queue_ok s"
  "queue_ok (s\<lparr>httpIn := x_httpIn\<rparr>) = queue_ok s"
  "queue_ok (s\<lparr>backend := x_backend\<rparr>) = queue_ok s"
  "queue_ok (s\<lparr>unresolved := x_unresolved\<rparr>) = queue_ok s"
  "queue_ok (s\<lparr>dispatchGen := x_dispatchGen\<rparr>) = queue_ok s"
  "queue_ok (s\<lparr>quietGen := x_quietGen\<rparr>) = queue_ok s"
  "queue_ok (s\<lparr>gateClosed := x_gateClosed\<rparr>) = queue_ok s"
  "queue_ok (s\<lparr>gateAt := x_gateAt\<rparr>) = queue_ok s"
  "queue_ok (s\<lparr>drain := x_drain\<rparr>) = queue_ok s"
  "queue_ok (s\<lparr>drainArmed := x_drainArmed\<rparr>) = queue_ok s"
  "queue_ok (s\<lparr>unloadFail := x_unloadFail\<rparr>) = queue_ok s"
  "queue_ok (s\<lparr>phase := x_phase\<rparr>) = queue_ok s"
  "queue_ok (s\<lparr>swapTarget := x_swapTarget\<rparr>) = queue_ok s"
  "queue_ok (s\<lparr>swapEvict := x_swapEvict\<rparr>) = queue_ok s"
  "queue_ok (s\<lparr>unloadBegan := x_unloadBegan\<rparr>) = queue_ok s"
  "queue_ok (s\<lparr>tokenSeq := x_tokenSeq\<rparr>) = queue_ok s"
  "queue_ok (s\<lparr>recoverToken := x_recoverToken\<rparr>) = queue_ok s"
  "queue_ok (s\<lparr>recoverOwner := x_recoverOwner\<rparr>) = queue_ok s"
  "queue_ok (s\<lparr>recoverModel := x_recoverModel\<rparr>) = queue_ok s"
  "queue_ok (s\<lparr>statusOrder := x_statusOrder\<rparr>) = queue_ok s"
  "queue_ok (s\<lparr>statusPos := x_statusPos\<rparr>) = queue_ok s"
  "queue_ok (s\<lparr>needSample := x_needSample\<rparr>) = queue_ok s"
  "queue_ok (s\<lparr>checked := x_checked\<rparr>) = queue_ok s"
  "queue_ok (s\<lparr>sawResources := x_sawResources\<rparr>) = queue_ok s"
  "queue_ok (s\<lparr>sawLifecycle := x_sawLifecycle\<rparr>) = queue_ok s"
  "queue_ok (s\<lparr>skipRest := x_skipRest\<rparr>) = queue_ok s"
  "queue_ok (s\<lparr>inflightModel := x_inflightModel\<rparr>) = queue_ok s"
  "queue_ok (s\<lparr>probeStarted := x_probeStarted\<rparr>) = queue_ok s"
  "queue_ok (s\<lparr>acceptLate := x_acceptLate\<rparr>) = queue_ok s"
  "queue_ok (s\<lparr>seen := x_seen\<rparr>) = queue_ok s"
  "queue_ok (s\<lparr>out := x_out\<rparr>) = queue_ok s"
  by (simp_all add: queue_ok_def)

lemma queue_ok_tail: "queue_ok s \<Longrightarrow> queued s = r # rs \<Longrightarrow> queue_ok (s\<lparr>queued := rs\<rparr>)"
  by (simp add: queue_ok_def)

lemma queue_ok_fail: "queue_ok s \<Longrightarrow> queued s = r # rs \<Longrightarrow> queue_ok (fail_head r rs e s)"
  by (simp add: fail_head_def grant_error_def emit_def queue_ok_tail)

lemma queue_ok_dispatch: "queue_ok s \<Longrightarrow> queue_ok (try_dispatch h s)"
proof (erule try_dispatch_inv [rotated])
  fix s s' assume I: "queue_ok s"
    and step: "dispatch_step h s = Halt s' \<or> dispatch_step h s = Again s'"
  show "queue_ok s'"
    using I step
  proof (rule dispatch_step_inv)
    fix s r s' assume I: "queue_ok s" and m: "maybe_recover h r s = Some s'"
    from m show "queue_ok s'"
      by (cases rule: maybe_recover_cases) (use I in \<open>auto simp: round_defs\<close>)
  next
    fix s :: fifo and r rs ms assume "queue_ok s" "queued s = r # rs"
    then show "queue_ok (fail_drain r rs ms s)"
      by (simp add: fail_drain_def fold_open_gate queue_ok_fail)
  next
    fix s :: fifo and r rs assume "queue_ok s" "queued s = r # rs"
    then show "queue_ok (grant_head h r rs s)"
      by (simp add: grant_head_def Let_def emit_def queue_ok_tail)
  qed (simp_all add: queue_ok_fail reopen_unused_gates_def fold_close_gate arm_drain_def emit_def
      start_unload_def start_load_def set_phase_def Let_def)
qed

lemma queue_ok_absorb [simp]: "queue_ok (absorb n s) = queue_ok s"
  by (simp add: absorb_def apply_backend_def Let_def split: recovery_class.split)

lemma queue_ok_parts [simp]:
  "queue_ok (begin_probe m s) = queue_ok s"
  "queue_ok (end_round s) = queue_ok s" "queue_ok (set_phase p s) = queue_ok s"
  "queue_ok (apply_backend m a g s) = queue_ok s" "queue_ok (mark_seen i m s) = queue_ok s"
  "queue_ok (forget_probe m s) = queue_ok s" "queue_ok (drop_owner i s) = queue_ok s"
  by (simp_all add: round_defs apply_backend_def forget_probe_def drop_owner_def)

lemma queue_ok_recovery:
  "queue_ok s \<Longrightarrow> recovering s \<Longrightarrow> queue_ok (fail_owner h e s)"
  "queue_ok s \<Longrightarrow> phase s = PhaseRecover \<Longrightarrow> queue_ok (launch_probe h s)"
  by (rule recovery_inv [where I = queue_ok]; simp add: queue_ok_dispatch queue_ok_fail)+

lemma queue_ok_note: "queue_ok s \<Longrightarrow> queue_ok (note_probe h n s)"
  by (rule note_probe_inv [where I = queue_ok]) (simp_all add: queue_ok_dispatch queue_ok_recovery)

lemma length_remove_req: "length (remove_req i qs) \<le> length qs"
  by (induction qs) auto

lemma queue_ok_remove: "queue_ok s \<Longrightarrow> queue_ok (s\<lparr>queued := remove_req i (queued s)\<rparr>)"
  using length_remove_req [of i "queued s"] by (simp add: queue_ok_def)

lemma queue_ok_append:
  "queue_ok s \<Longrightarrow> queued s = qs \<Longrightarrow> \<not> maxQ s \<le> int (length qs) \<Longrightarrow>
     queue_ok (s\<lparr>queued := qs @ [q]\<rparr>)"
  by (simp add: queue_ok_def)

lemma queue_ok_step: "queue_ok s \<Longrightarrow> queue_ok (fifo_step s e)"
proof -
  assume I: "queue_ok s"
  obtain h ev where e: "e = (h, ev)" by (cases e)
  have none: "queue_ok (t\<lparr>queued := []\<rparr>)" if "queue_ok t" for t
    using that by (simp add: queue_ok_def)
  show ?thesis
    by (cases ev)
      (use I in \<open>auto simp: e on_request_def reject_admit_def admit_def on_cancel_def
        on_queue_timeout_def on_proxy_start_def on_cancel_granted_def on_serve_done_def on_status_def
        on_backend_done_def on_unload_done_def on_swap_done_def on_remind_def on_shutdown_def
        fold_grant_error marker_cleared_def sample_failed_def recovering_def reopen_unused_gates_def
        emit_def grant_error_def Let_def fold_open_gate
        split: option.split list.split
        intro!: queue_ok_dispatch queue_ok_note queue_ok_recovery(1) queue_ok_remove queue_ok_fail
          queue_ok_append none\<close>)
qed

section \<open>The invariant and its runs\<close>

definition fifo_inv :: "fifo \<Rightarrow> bool" where
  "fifo_inv s = (counters_ok s \<and> gates_ok s \<and> phase_ok s \<and> owner_ok s \<and> gens_ok s \<and> queue_ok s)"

lemma fifo_inv_new: "fifo_inv (new_fifo c)"
proof -
  have "gates_ok (new_fifo c)" "phase_ok (new_fifo c)" "owner_ok (new_fifo c)"
    "gens_ok (new_fifo c)" "queue_ok (new_fifo c)"
    by (auto simp: new_fifo_def gates_ok_def phase_ok_def owner_ok_def recovering_def gens_ok_def
        queue_ok_def split: option.split)
  then show ?thesis using counters_ok_new by (simp add: fifo_inv_def)
qed

lemmas fifo_inv_parts = counters_ok_step gates_ok_step phase_ok_step owner_ok_step gens_ok_step
  queue_ok_step

lemma fifo_inv_step: "fifo_inv s \<Longrightarrow> no_shutdown s e \<Longrightarrow> fifo_inv (fifo_step s e)"
  by (simp add: fifo_inv_def fifo_inv_parts)

interpretation fifo_machine: machine fifo_step no_shutdown fifo_inv
  by unfold_locales (rule fifo_inv_step)

interpretation fifo_counters: machine fifo_step "\<lambda>_ _. True" "\<lambda>s. counters_ok s \<and> queue_ok s"
  by unfold_locales (simp add: counters_ok_step queue_ok_step)

end
