(* ===== verification/Fifo_Lifecycle.thy ===== *)
theory Fifo_Lifecycle
  imports Fifo_Inv
begin

text \<open>
  What the scheduler asks of its host, and when. \<open>effect_ok h t e\<close> says what holds of the state \<open>t\<close>
  a handler leaves behind when it has emitted \<open>e\<close>: an unload is started only for idle victims
  with a deadline in the drain window, a load only for the head of the queue when the planner
  evicts nothing, a grant only for a model that is ready. \<open>finished_jobs\<close> counts the unloads and
  loads that have come to an end: the started ones but the one in flight. An unload or a load also
  finds the ledger settled: no unload or loss is still waiting for a sample of the device.
\<close>

section \<open>The effects of a handler\<close>

definition up_ids :: "host \<Rightarrow> model_id list" where
  "up_ids h = map fst (filter (\<lambda>(i, st). is_up st) (running_models h))"

lemma running_ids_idle: "phase s = PhaseIdle \<Longrightarrow> running_ids h s = up_ids h"
  by (simp add: running_ids_def up_ids_def)

text \<open>
  The ledger is settled for a dispatch of \<open>m\<close>: no model with a runtime has an unload that was not
  followed by a sample of the device, unless a load of \<open>m\<close> is already running.
\<close>

definition settled :: "host \<Rightarrow> model_id \<Rightarrow> bool" where
  "settled h m =
     (case recovery_facts h of
        None \<Rightarrow> True
      | Some f \<Rightarrow>
          map_of (f_states f) m = Some StateReady
          \<or> map_of (f_states f) m = Some StateStarting \<and> m \<in> f_inflight f
          \<or> (\<forall>i \<in> set (map fst (f_states f)). i \<notin> f_markers f))"

lemma maybe_recover_None: "maybe_recover h r s = None \<Longrightarrow> settled h (req_model r)"
  by (auto simp: maybe_recover_def settled_def plan_recovery_def Let_def filter_empty_conv split: option.splits if_splits)

definition unload_ok :: "host \<Rightarrow> fifo \<Rightarrow> model_id list \<Rightarrow> gtime \<Rightarrow> bool" where
  "unload_ok h t vs d =
     (phase t = PhaseUnloading \<and> swapEvict t = vs \<and> vs \<noteq> [] \<and> queued t \<noteq> []
      \<and> req_model (hd (queued t)) = swapTarget t
      \<and> plan_evict h (swapTarget t) (up_ids h) = Inr vs
      \<and> (\<forall>v \<in> set vs. \<not> protected t v \<and> v \<notin> unloadFail t \<and> v \<in> gateClosed t)
      \<and> d \<le> clock_now h + drain t \<and> (0 < drain t \<longrightarrow> clock_now h < d) \<and> settled h (swapTarget t))"

definition load_ok :: "host \<Rightarrow> fifo \<Rightarrow> model_id \<Rightarrow> bool" where
  "load_ok h t m =
     (phase t = PhaseLoading \<and> swapTarget t = m \<and> queued t \<noteq> [] \<and> req_model (hd (queued t)) = m
      \<and> plan_evict h m (up_ids h) = Inr [] \<and> model_state h m \<noteq> Some StateReady
      \<and> slots t m < limit t m \<and> settled h m)"

fun effect_ok :: "host \<Rightarrow> fifo \<Rightarrow> eff \<Rightarrow> bool" where
  "effect_ok h t (EStartUnload vs d) = unload_ok h t vs d"
| "effect_ok h t (EStartLoad m) = load_ok h t m"
| "effect_ok h t (EGrantServe i m b) =
     (model_state h m = Some StateReady \<and> plan_evict h m (up_ids h) = Inr [] \<and> b = serve_taken h i)"
| "effect_ok h t (EBeginProbe tok m) =
     (phase t = PhaseRecover \<and> recoverToken t = tok \<and> inflightModel t = m
      \<and> probeStarted t m = Some tok)"
| "effect_ok h t (ERemind d) = (phase t = PhaseIdle \<and> drainArmed t)"
| "effect_ok h t _ = True"

fun plain_eff :: "eff \<Rightarrow> bool" where
  "plain_eff (EAdmit _ _) = True"
| "plain_eff (EGrantError _ _) = True"
| "plain_eff (EStartReply _ _) = True"
| "plain_eff _ = False"

lemma plain_effect_ok: "plain_eff e \<Longrightarrow> effect_ok h t e"
  by (cases e) auto

definition emits :: "host \<Rightarrow> fifo \<Rightarrow> fifo \<Rightarrow> bool" where
  "emits h s t = (\<exists>es. out t = out s @ es \<and> (\<forall>e \<in> set es. effect_ok h t e))"

definition plain :: "fifo \<Rightarrow> fifo \<Rightarrow> bool" where
  "plain s t = (\<exists>es. out t = out s @ es \<and> list_all plain_eff es)"

lemma emits_keep: "out t = out s \<Longrightarrow> emits h s t"
  unfolding emits_def by (intro exI [of _ "[]"]) simp

lemma emits_one: "out t = out s @ [e] \<Longrightarrow> effect_ok h t e \<Longrightarrow> emits h s t"
  unfolding emits_def by (intro exI [of _ "[e]"]) simp

lemma plain_keep: "out t = out s \<Longrightarrow> plain s t"
  unfolding plain_def by (intro exI [of _ "[]"]) simp

lemma plain_one: "out t = out s @ [e] \<Longrightarrow> plain_eff e \<Longrightarrow> plain s t"
  unfolding plain_def by (intro exI [of _ "[e]"]) simp

lemma plain_emits: "plain s s' \<Longrightarrow> emits h s' t \<Longrightarrow> emits h s t"
  unfolding plain_def emits_def list_all_iff
  by (elim exE conjE) (metis UnE append_assoc plain_effect_ok set_append)

lemma plain_emits_self: "plain s t \<Longrightarrow> emits h s t"
  by (erule plain_emits) (rule emits_keep, rule refl)

section \<open>The dispatch loop\<close>

lemma drain_deadline_le: "drain_deadline h s ids \<le> clock_now h + drain s"
proof -
  have "fold (\<lambda>i deadline. case gateAt s i of None \<Rightarrow> deadline
          | Some at \<Rightarrow> if at + drain s < deadline then at + drain s else deadline) ids d \<le> d" for d
  proof (induction ids arbitrary: d)
    case (Cons i js)
    have "(case gateAt s i of None \<Rightarrow> d
          | Some at \<Rightarrow> if at + drain s < d then at + drain s else d) \<le> d"
      by (simp split: option.split)
    then show ?case using Cons order_trans by fastforce
  qed simp
  then show ?thesis by (simp add: drain_deadline_def)
qed

lemma drain_deadline_gt:
  assumes "\<not> drain_expired h s ids" "0 < drain s"
  shows "clock_now h < drain_deadline h s ids"
proof -
  have all: "\<forall>i \<in> set ids. case gateAt s i of None \<Rightarrow> True | Some at \<Rightarrow> clock_now h < at + drain s"
    using assms by (auto simp: drain_expired_def list_ex_iff split: option.split)
  have "clock_now h < fold (\<lambda>i deadline. case gateAt s i of None \<Rightarrow> deadline
          | Some at \<Rightarrow> if at + drain s < deadline then at + drain s else deadline) ids d"
    if "clock_now h < d" for d
    using all that
  proof (induction ids arbitrary: d)
    case (Cons i js)
    then show ?case by (cases "gateAt s i") auto
  qed simp
  then show ?thesis using assms(2) by (simp add: drain_deadline_def)
qed

lemma any_busy_protected: "any_busy s ids = list_ex (protected s) ids"
  by (simp add: any_busy_def protected_def list_ex_iff)

lemma drain_frame [simp]:
  "drain_deadline h (s\<lparr>phase := p\<rparr>) ids = drain_deadline h s ids"
  "drain_deadline h (s\<lparr>acceptLate := a\<rparr>) ids = drain_deadline h s ids"
  "drain_deadline h (s\<lparr>swapTarget := m\<rparr>) ids = drain_deadline h s ids"
  "drain_deadline h (s\<lparr>swapEvict := ev\<rparr>) ids = drain_deadline h s ids"
  "drain_deadline h (s\<lparr>unloadBegan := b\<rparr>) ids = drain_deadline h s ids"
  "drain_deadline h (s\<lparr>drainArmed := b\<rparr>) ids = drain_deadline h s ids"
  by (simp_all add: drain_deadline_def cong: option.case_cong if_cong)

lemma start_unload_ok:
  assumes "\<not> drain_expired h s ev" "\<not> any_busy s ev" "\<forall>v \<in> set ev. v \<notin> unloadFail s"
    "set ev \<subseteq> gateClosed s" "ev \<noteq> []" "queued s = r # rs"
    "plan_evict h (req_model r) (up_ids h) = Inr ev" "settled h (req_model r)"
  shows "emits h s (start_unload h r ev s)"
proof (rule emits_one)
  let ?t = "start_unload h r ev s"
  show "out ?t = out s @ [EStartUnload ev (drain_deadline h s ev)]"
    by (simp add: start_unload_def Let_def emit_def set_phase_def)
  have "protected ?t v = protected s v" for v
    by (simp add: start_unload_def Let_def emit_def set_phase_def protected_def)
  then show "effect_ok h ?t (EStartUnload ev (drain_deadline h s ev))"
    using assms drain_deadline_le [of h s ev] drain_deadline_gt [of h s ev]
    by (auto simp: unload_ok_def any_busy_protected list_ex_iff)
      (auto simp: start_unload_def Let_def emit_def set_phase_def)
qed

lemma dispatch_step_emits:
  assumes "dispatch_step h s = Halt s'"
  shows "emits h s s'"
proof (cases rule: dispatch_step_cases [where h = h and s = s])
  case waiting
  with assms show ?thesis by (intro emits_keep) auto
next
  case quiet
  with assms show ?thesis by (intro emits_keep) auto
next
  case (recover r rs s'')
  then have "s'' = s'" using assms by simp
  with \<open>maybe_recover h r s = Some s''\<close> show ?thesis
  proof (cases rule: maybe_recover_cases)
    case (probe f m ms)
    then show ?thesis using \<open>s'' = s'\<close>
      by (intro emits_one [where e = "EBeginProbe (tokenSeq s + 1) m"]) (simp_all add: round_defs)
  qed (use \<open>s'' = s'\<close> in \<open>auto simp: round_defs intro!: emits_keep\<close>)
next
  case (head r rs)
  let ?s1 = "reopen_unused_gates h s"
  have eq: "dispatch_head h r rs ?s1 = Halt s'" using assms head by simp
  have s1: "phase ?s1 = PhaseIdle" "queued ?s1 = r # rs" "out ?s1 = out s"
    using head by simp_all
  have up: "running_ids h ?s1 = up_ids h" using s1 by (simp add: running_ids_idle)
  have set: "settled h (req_model r)" using head by (simp add: maybe_recover_None)
  have "emits h ?s1 s'"
  proof (cases rule: dispatch_head_cases [where h = h and r = r and rs = rs and s = ?s1])
    case full then show ?thesis using eq by (intro emits_keep) simp
  next
    case (busy ev)
    have "s' = arm_drain h ev (fold (close_gate h) ev ?s1)" using eq busy by simp
    then show ?thesis using s1
      by (cases "drainArmed ?s1")
        (auto simp: arm_drain_def emit_def fold_close_gate intro: emits_keep emits_one)
  next
    case (unload ev)
    let ?s2 = "fold (close_gate h) ev ?s1"
    have "emits h ?s2 (start_unload h r ev ?s2)"
      by (rule start_unload_ok) (use unload s1 up set in \<open>auto simp: fold_close_gate\<close>)
    then show ?thesis using eq unload by (simp add: emits_def fold_close_gate)
  next
    case load
    then have s': "s' = start_load r ?s1" using eq by simp
    have "load_ok h s' (req_model r)"
    proof -
      show ?thesis using load s1 up set
        by (auto simp: s' load_ok_def start_load_def emit_def set_phase_def slots_def limit_def)
    qed
    then show ?thesis
      by (intro emits_one [where e = "EStartLoad (req_model r)"])
        (simp_all add: s' start_load_def emit_def set_phase_def)
  qed (use eq in simp_all)
  then show ?thesis using s1 by (simp add: emits_def)
qed

lemma dispatch_step_emits_Again:
  assumes "dispatch_step h s = Again s'" "emits h s' t"
  shows "emits h s t"
proof (cases rule: dispatch_step_cases [where h = h and s = s])
  case (head r rs)
  let ?s1 = "reopen_unused_gates h s"
  have eq: "dispatch_head h r rs ?s1 = Again s'" using assms head by simp
  have up: "running_ids h ?s1 = up_ids h" using head by (simp add: running_ids_idle)
  have "\<exists>e. out s' = out s @ [e] \<and> (\<forall>t. effect_ok h t e)"
    by (cases rule: dispatch_head_cases [where h = h and r = r and rs = rs and s = ?s1])
      (use eq up in \<open>auto simp: head_defs split: if_splits\<close>)
  then show ?thesis using assms(2) unfolding emits_def by auto
qed (use assms in auto)

lemma try_dispatch_emits: "emits h s (try_dispatch h s)"
  by (rule try_dispatch_rel) (fact dispatch_step_emits, fact dispatch_step_emits_Again)

lemma emits_try: "plain s s' \<Longrightarrow> emits h s (try_dispatch h s')"
  by (rule plain_emits) (auto intro: try_dispatch_emits)

section \<open>The handlers\<close>

lemma plain_trans: "plain s s' \<Longrightarrow> plain s' t \<Longrightarrow> plain s t"
  by (auto simp: plain_def)

lemma plain_fail_head: "plain s (fail_head r rs e s)"
  by (rule plain_one) (auto simp: fail_head_def grant_error_def emit_def)

lemma emits_fail_owner: "emits h s (fail_owner h e s)"
  unfolding fail_owner_def Let_def
  by (rule emits_try)
    (auto simp: end_round_def fail_head_def grant_error_def emit_def split: list.split
      intro: plain_keep plain_one)

lemma emits_finish_probes: "emits h s (finish_probes h s)"
  by (auto simp: finish_probes_def end_round_def set_phase_def
      intro: emits_fail_owner emits_keep intro!: emits_try plain_keep)

lemma emits_launch_probe:
  assumes "phase s = PhaseRecover"
  shows "emits h s (launch_probe h s)"
  using launch_scan_form [of s]
proof (elim exE conjE disjE)
  fix p assume "launch_scan s = (True, begin_probe (statusOrder s ! p) (s\<lparr>statusPos := p\<rparr>))"
  then show ?thesis using assms
    by (intro emits_one [where e = "EBeginProbe (recoverToken s) (statusOrder s ! p)"])
      (auto simp: launch_probe_def round_defs)
next
  fix p assume "launch_scan s = (False, s\<lparr>statusPos := p\<rparr>)"
  then show ?thesis
    by (auto simp: launch_probe_def intro: plain_emits [OF plain_keep emits_finish_probes])
qed

lemma emits_note_probe: "emits h s (note_probe h n s)"
proof -
  let ?s = "forget_probe (n_model n) s"
  let ?s1 = "mark_seen (recoverOwner ?s) (n_model n) ?s"
  let ?s2 = "?s1\<lparr>checked := insert (n_model n) (checked ?s1), inflightModel := ''''\<rparr>"
  have late: "emits h s (note_late h n ?s)"
    by (auto simp: note_late_def Let_def forget_probe_def apply_backend_def
        intro!: emits_try intro: plain_keep emits_keep)
  have s1: "out ?s1 = out s" by (simp add: mark_seen_def forget_probe_def)
  then have p: "plain s ?s1" "plain s ?s2" "plain s (absorb n ?s2)"
    "plain s (end_round ?s2)" "plain s (end_round (absorb n ?s2))"
    by (auto simp: end_round_def intro!: plain_keep)
  let ?s4 = "(absorb n ?s2)\<lparr>statusPos := Suc (statusPos (absorb n ?s2))\<rparr>"
  have s4: "emits h s (launch_probe h ?s4)" if "phase ?s1 = PhaseRecover"
    by (rule plain_emits [OF plain_keep emits_launch_probe]) (use that s1 in simp_all)
  show ?thesis
    using late p s4 plain_emits [OF p(2) emits_fail_owner] emits_try [OF p(4)] emits_try [OF p(5)]
      plain_emits_self [OF p(1)]
    by (auto simp: note_probe_def Let_def)
qed

lemma plain_reject: "plain s (reject_admit h r e s)"
  by (auto simp: reject_admit_def grant_error_def emit_def intro: plain_one)

lemma plain_admit: "admit h r err s = (b, t) \<Longrightarrow> plain s t"
  by (auto simp: admit_def emit_def split: if_splits intro: plain_keep plain_one)

lemma plain_queued: "plain s t \<Longrightarrow> plain s (t\<lparr>queued := qs\<rparr>)"
  by (simp add: plain_def)

lemma plain_request_start: "s0 = s\<lparr>nextID := i\<rparr> \<Longrightarrow> plain s s0"
  by (simp add: plain_keep)

lemma emits_on_request: "emits h s (on_request h r s)"
proof (cases rule: on_request_cases [where h = h and r = r and s = s])
  case (rejected q e s0)
  from plain_trans [OF plain_request_start [OF rejected(2)] plain_reject]
  show ?thesis unfolding rejected(1) by (rule plain_emits_self)
next
  case (gone q t s0)
  from plain_trans [OF plain_request_start [OF gone(3)] plain_admit [OF gone(1)]]
  show ?thesis unfolding gone(2) by (rule plain_emits_self)
next
  case (accepted q t s0)
  from plain_queued [OF plain_trans [OF plain_request_start [OF accepted(3)] plain_admit [OF accepted(1)]]]
  show ?thesis unfolding accepted(2) by (rule emits_try)
qed

lemma fifo_step_emits: "emits h s (fifo_step s (h, ev))"
proof (cases ev)
  case (OnRequest r) then show ?thesis by (simp add: emits_on_request)
next
  case (OnProbe n) then show ?thesis by (simp add: emits_note_probe)
next
  case (OnShutdown e)
  have "plain s (on_shutdown e s)"
    unfolding on_shutdown_def fold_grant_error plain_def
    by (intro exI [of _ "map (\<lambda>q. EGrantError (req_id q) e) (queued s)"]) (simp add: list_all_iff)
  then show ?thesis using OnShutdown by (simp add: plain_emits_self)
qed (auto simp: on_cancel_def drop_owner_def on_queue_timeout_def on_proxy_start_def
    on_cancel_granted_def on_serve_done_def on_status_def on_backend_done_def on_unload_done_def
    on_swap_done_def on_remind_def forget_probe_def marker_cleared_def sample_failed_def
    fail_head_def grant_error_def emit_def end_round_def apply_backend_def fold_open_gate Let_def
    split: option.split list.split
    intro!: emits_try emits_fail_owner intro: plain_keep plain_one emits_keep
      plain_emits_self [OF plain_one])

section \<open>One lifecycle job at a time\<close>

fun is_start :: "eff \<Rightarrow> bool" where
  "is_start (EStartUnload _ _) = True"
| "is_start (EStartLoad _) = True"
| "is_start _ = False"

definition busy :: "fifo \<Rightarrow> bool" where
  "busy s = (phase s = PhaseLoading \<or> phase s = PhaseUnloading)"

definition started_jobs :: "fifo \<Rightarrow> nat" where
  "started_jobs s = length (filter is_start (out s))"

definition finished_jobs :: "fifo \<Rightarrow> int" where
  "finished_jobs s = int (started_jobs s) - of_bool (busy s)"

text \<open>The event reports the end of the job in flight.\<close>

definition completes :: "fifo \<Rightarrow> host \<times> fifo_event \<Rightarrow> bool" where
  "completes s e =
     (case snd e of
        OnUnloadDone _ \<Rightarrow> phase s = PhaseUnloading
      | OnSwapDone m _ \<Rightarrow> phase s = PhaseLoading \<and> m = swapTarget s
      | _ \<Rightarrow> False)"

fun completions :: "fifo \<Rightarrow> (host \<times> fifo_event) list \<Rightarrow> nat" where
  "completions s [] = 0"
| "completions s (e # es) = of_bool (completes s e) + completions (fifo_step s e) es"

lemmas job_defs = finished_jobs_def started_jobs_def busy_def

lemma jobs_keep:
  "phase t = phase s \<Longrightarrow> out t = out s \<Longrightarrow> finished_jobs t = finished_jobs s"
  by (simp add: job_defs)

lemma jobs_plain:
  "phase t = phase s \<Longrightarrow> plain s t \<Longrightarrow> finished_jobs t = finished_jobs s"
proof -
  assume p: "phase t = phase s" and "plain s t"
  then obtain es where es: "out t = out s @ es" "list_all plain_eff es" by (auto simp: plain_def)
  have "\<not> is_start e" if "plain_eff e" for e using that by (cases e) auto
  then have "filter is_start es = []" using es(2) by (auto simp: list_all_iff filter_empty_conv)
  then show ?thesis using p es by (simp add: job_defs)
qed

lemma jobs_dispatch: "finished_jobs (try_dispatch h s) = finished_jobs s"
proof (rule try_dispatch_inv [where I = "\<lambda>t. finished_jobs t = finished_jobs s"])
  fix t t' assume I: "finished_jobs t = finished_jobs s"
    and step: "dispatch_step h t = Halt t' \<or> dispatch_step h t = Again t'"
  show "finished_jobs t' = finished_jobs s"
    using I step
  proof (rule dispatch_step_inv [where I = "\<lambda>t. finished_jobs t = finished_jobs s"])
    fix u r rs u' assume I: "finished_jobs u = finished_jobs s" and i: "phase u = PhaseIdle"
      and m: "maybe_recover h r u = Some u'"
    from m show "finished_jobs u' = finished_jobs s"
      by (cases rule: maybe_recover_cases) (use I i in \<open>auto simp: round_defs job_defs\<close>)
  qed (simp_all add: head_defs reopen_unused_gates_def job_defs)
qed simp

lemma jobs_try: "finished_jobs t = k \<Longrightarrow> finished_jobs (try_dispatch h t) = k"
  by (simp add: jobs_dispatch)

lemma jobs_end: "recovering s \<Longrightarrow> finished_jobs (end_round s) = finished_jobs s"
  by (auto simp: end_round_def recovering_def job_defs)

lemma jobs_fail [simp]: "finished_jobs (fail_head r rs e s) = finished_jobs s"
  by (simp add: head_defs job_defs)

lemma jobs_absorb [simp]: "finished_jobs (absorb n s) = finished_jobs s"
  by (rule jobs_keep) simp_all

lemma jobs_parts [simp]:
  "finished_jobs (apply_backend m a g s) = finished_jobs s"
  "finished_jobs (mark_seen i m s) = finished_jobs s"
  "finished_jobs (forget_probe m s) = finished_jobs s"
  "finished_jobs (begin_probe m s) = finished_jobs s"
  "finished_jobs (s\<lparr>inflightModel := m\<rparr>) = finished_jobs s"
  "finished_jobs (s\<lparr>statusPos := p\<rparr>) = finished_jobs s"
  "finished_jobs (s\<lparr>unloadFail := u\<rparr>) = finished_jobs s"
  "finished_jobs (s\<lparr>queued := qs\<rparr>) = finished_jobs s"
  "finished_jobs (s\<lparr>checked := c\<rparr>) = finished_jobs s"
  "finished_jobs (s\<lparr>pending := pe\<rparr>) = finished_jobs s"
  "finished_jobs (s\<lparr>httpIn := ht\<rparr>) = finished_jobs s"
  "finished_jobs (s\<lparr>unresolved := un\<rparr>) = finished_jobs s"
  "finished_jobs (s\<lparr>backend := ba\<rparr>) = finished_jobs s"
  "finished_jobs (s\<lparr>quietGen := qu\<rparr>) = finished_jobs s"
  "finished_jobs (s\<lparr>drainArmed := dr\<rparr>) = finished_jobs s"
  "finished_jobs (s\<lparr>needSample := ne\<rparr>) = finished_jobs s"
  "finished_jobs (grant_error q x s) = finished_jobs s"
  "finished_jobs (emit (EStartReply m b) s) = finished_jobs s"
  by (simp_all add: round_defs grant_error_def apply_backend_def forget_probe_def job_defs)

lemma jobs_drop [simp]: "finished_jobs (drop_owner i s) = finished_jobs s"
  by (auto simp: drop_owner_def job_defs)

lemma jobs_sample: "phase s = PhaseRecover \<Longrightarrow> finished_jobs (set_phase PhaseSample s) = finished_jobs s"
  by (simp add: set_phase_def job_defs)

lemma jobs_recovery:
  "finished_jobs s = k \<Longrightarrow> recovering s \<Longrightarrow> finished_jobs (fail_owner h e s) = k"
  "finished_jobs s = k \<Longrightarrow> phase s = PhaseRecover \<Longrightarrow> finished_jobs (launch_probe h s) = k"
  by (rule recovery_inv [where I = "\<lambda>s. finished_jobs s = k"];
      simp add: jobs_dispatch jobs_end jobs_sample)+

lemma jobs_note: "finished_jobs (note_probe h n s) = finished_jobs s"
  by (rule note_probe_inv [where I = "\<lambda>t. finished_jobs t = finished_jobs s"])
    (simp_all add: jobs_dispatch jobs_recovery jobs_end)

lemma phase_admit: "admit h q e s = (b, t) \<Longrightarrow> phase t = phase s"
  by (auto simp: admit_def emit_def split: if_splits)

lemma jobs_request: "finished_jobs (on_request h r s) = finished_jobs s"
proof (cases rule: on_request_cases [where h = h and r = r and s = s])
  case (rejected q e s0)
  have "phase (reject_admit h q e s0) = phase s"
    by (subst rejected(2)) (simp add: reject_admit_def grant_error_def emit_def)
  then show ?thesis unfolding rejected(1)
    by (rule jobs_plain) (rule plain_trans [OF plain_request_start [OF rejected(2)] plain_reject])
next
  case (gone q t s0)
  have "phase t = phase s" using phase_admit [OF gone(1)] by (subst (asm) gone(3)) simp
  then show ?thesis unfolding gone(2)
    by (rule jobs_plain)
      (rule plain_trans [OF plain_request_start [OF gone(3)] plain_admit [OF gone(1)]])
next
  case (accepted q t s0)
  have "phase t = phase s" using phase_admit [OF accepted(1)] by (subst (asm) accepted(3)) simp
  moreover have "plain s t"
    by (rule plain_trans [OF plain_request_start [OF accepted(3)] plain_admit [OF accepted(1)]])
  ultimately show ?thesis unfolding accepted(2) jobs_dispatch
    by (intro jobs_plain plain_queued) simp
qed

lemma jobs_step:
  "finished_jobs (fifo_step s e) = finished_jobs s + of_bool (completes s e)"
proof -
  obtain h ev where e: "e = (h, ev)" by (cases e)
  show ?thesis
  proof (cases ev)
    case (OnShutdown x)
    then show ?thesis
      by (simp add: e completes_def on_shutdown_def fold_grant_error job_defs filter_False)
  next
    case (OnUnloadDone x)
    then show ?thesis
      by (auto simp: e completes_def on_unload_done_def jobs_dispatch Let_def
          reopen_unused_gates_def fold_open_gate split: option.split list.split)
        (simp_all add: job_defs)
  next
    case (OnSwapDone m x)
    then show ?thesis
      by (auto simp: e completes_def on_swap_done_def jobs_dispatch Let_def
          split: option.split list.split)
        (simp_all add: job_defs)
  qed (auto simp: e completes_def jobs_request jobs_note on_cancel_def on_queue_timeout_def
      on_proxy_start_def on_cancel_granted_def on_serve_done_def on_status_def on_backend_done_def
      on_remind_def marker_cleared_def sample_failed_def recovering_def Let_def jobs_dispatch
      jobs_recovery jobs_end split: option.split)
qed

lemma jobs_run: "finished_jobs (run fifo_step s es) = finished_jobs s + int (completions s es)"
  by (induction es arbitrary: s) (simp_all add: jobs_step)

section \<open>While a job is in flight\<close>

text \<open>Until the job in flight ends, the scheduler only admits, refuses and counts.\<close>

definition same_job :: "fifo \<Rightarrow> fifo \<Rightarrow> bool" where
  "same_job s t =
     (phase t = phase s \<and> swapTarget t = swapTarget s \<and> swapEvict t = swapEvict s \<and> plain s t)"

lemma try_dispatch_busy: "busy s \<Longrightarrow> try_dispatch h s = reopen_unused_gates h s"
  by (auto simp: try_dispatch.simps [of h s] dispatch_step_def busy_def Let_def split: list.split)

lemma same_job_try:
  "busy s \<Longrightarrow> phase t = phase s \<Longrightarrow> swapTarget t = swapTarget s \<Longrightarrow> swapEvict t = swapEvict s \<Longrightarrow>
     plain s t \<Longrightarrow> same_job s (try_dispatch h t)"
  by (simp add: same_job_def try_dispatch_busy busy_def reopen_unused_gates_def plain_def)

lemma drop_owner_busy: "busy s \<Longrightarrow> drop_owner i s = s"
  by (auto simp: drop_owner_def busy_def)

lemma swap_reject [simp]:
  "phase (reject_admit h q e s) = phase s" "swapTarget (reject_admit h q e s) = swapTarget s"
  "swapEvict (reject_admit h q e s) = swapEvict s"
  by (simp_all add: reject_admit_def grant_error_def emit_def)

lemma swap_admit:
  "admit h q e s = (b, t) \<Longrightarrow>
     phase t = phase s \<and> swapTarget t = swapTarget s \<and> swapEvict t = swapEvict s"
  by (auto simp: admit_def emit_def split: if_splits)

lemma same_job_request:
  assumes "busy s"
  shows "same_job s (on_request h r s)"
proof (cases rule: on_request_cases [where h = h and r = r and s = s])
  case (rejected q e s0)
  have "phase s0 = phase s" "swapTarget s0 = swapTarget s" "swapEvict s0 = swapEvict s"
    by (subst rejected(2), simp)+
  then show ?thesis
    unfolding rejected(1) same_job_def
    using plain_trans [OF plain_request_start [OF rejected(2)] plain_reject] by simp
next
  case (gone q t s0)
  have "phase s0 = phase s" "swapTarget s0 = swapTarget s" "swapEvict s0 = swapEvict s"
    by (subst gone(3), simp)+
  then show ?thesis
    unfolding gone(2) same_job_def
    using plain_trans [OF plain_request_start [OF gone(3)] plain_admit [OF gone(1)]]
      swap_admit [OF gone(1)] by simp
next
  case (accepted q t s0)
  have "phase s0 = phase s" "swapTarget s0 = swapTarget s" "swapEvict s0 = swapEvict s"
    by (subst accepted(3), simp)+
  then show ?thesis
    unfolding accepted(2)
    by (intro same_job_try assms plain_queued
        plain_trans [OF plain_request_start [OF accepted(3)] plain_admit [OF accepted(1)]])
      (use swap_admit [OF accepted(1)] in simp_all)
qed

lemma same_job_keep:
  "phase t = phase s \<Longrightarrow> swapTarget t = swapTarget s \<Longrightarrow> swapEvict t = swapEvict s \<Longrightarrow> out t = out s \<Longrightarrow>
     same_job s t"
  by (simp add: same_job_def plain_keep)

lemma same_job_note:
  assumes "busy s"
  shows "same_job s (note_probe h n s)"
proof -
  let ?s = "forget_probe (n_model n) s"
  have ph: "phase s \<noteq> PhaseRecover" "phase s \<noteq> PhaseIdle" using assms by (auto simp: busy_def)
  have "same_job s (note_late h n ?s)"
    by (rule same_job_keep)
      (simp_all add: note_late_def Let_def forget_probe_def apply_backend_def ph)
  moreover have "same_job s (mark_seen i m ?s)" "phase (mark_seen i m ?s) \<noteq> PhaseRecover" for i m
    by (rule same_job_keep; simp add: mark_seen_def forget_probe_def)
      (simp add: mark_seen_def forget_probe_def ph)
  ultimately show ?thesis by (simp add: note_probe_def Let_def)
qed

lemma same_job_step:
  assumes b: "busy s" and nc: "\<not> completes s e"
  shows "same_job s (fifo_step s e)"
proof -
  obtain h ev where e: "e = (h, ev)" by (cases e)
  have b': "busy (s\<lparr>queued := qs\<rparr>)" for qs using b by (simp add: busy_def)
  have ph: "phase s \<noteq> PhaseSample" using b by (auto simp: busy_def)
  have refl: "same_job s s" by (simp add: same_job_def plain_keep)
  show ?thesis
  proof (cases ev)
    case (OnRequest r) then show ?thesis using b e by (simp add: same_job_request)
  next
    case (OnProbe n) then show ?thesis using b e by (simp add: same_job_note)
  next
    case (OnShutdown x)
    have "plain s (on_shutdown x s)"
      unfolding on_shutdown_def fold_grant_error plain_def
      by (intro exI [of _ "map (\<lambda>q. EGrantError (req_id q) x) (queued s)"]) (simp add: list_all_iff)
    then show ?thesis using OnShutdown e by (simp add: same_job_def) (simp add: on_shutdown_def fold_grant_error)
  next
    case (OnUnloadDone x)
    then show ?thesis using nc e refl by (simp add: completes_def on_unload_done_def)
  next
    case (OnSwapDone m x)
    then show ?thesis using nc e refl by (auto simp: completes_def on_swap_done_def)
  next
    case (OnProxyStart m x)
    then show ?thesis using e
      by (auto simp: on_proxy_start_def Let_def emit_def same_job_def intro: plain_keep plain_one)
  next
    case (OnServeDone m)
    then show ?thesis using e b
      by (auto simp: on_serve_done_def Let_def intro!: same_job_try plain_keep)
  next
    case (OnForget m)
    then show ?thesis using e by (auto simp: forget_probe_def same_job_def intro: plain_keep)
  next
    case (OnMarkerCleared m)
    then show ?thesis using e ph
      by (auto simp: marker_cleared_def Let_def same_job_def intro: plain_keep)
  qed (use b ph refl in \<open>auto simp: e on_cancel_def drop_owner_busy [OF b'] on_queue_timeout_def
      on_cancel_granted_def on_status_def on_backend_done_def on_remind_def
      sample_failed_def apply_backend_def grant_error_def emit_def
      split: option.split intro!: same_job_try intro: plain_keep plain_one\<close>)
qed

section \<open>Why a head waits\<close>

text \<open>
  When the loop ends with the scheduler idle and a request at the head, the model of that request
  has no free slot, or its victims are in use and the reminder for their drain is armed.
\<close>

definition head_waits :: "host \<Rightarrow> fifo \<Rightarrow> req \<Rightarrow> bool" where
  "head_waits h t r =
     (limit t (req_model r) \<le> slots t (req_model r)
      \<or> (\<exists>ev. plan_evict h (req_model r) (up_ids h) = Inr ev \<and> (\<exists>v \<in> set ev. protected t v)
           \<and> set ev \<subseteq> gateClosed t \<and> drainArmed t))"

lemma recover_not_idle: "maybe_recover h r s = Some s' \<Longrightarrow> recovering s'"
  by (erule maybe_recover_cases) (auto simp: round_defs recovering_def)

lemma dispatch_step_waits:
  assumes "dispatch_step h s = Halt t" "phase t = PhaseIdle" "queued t = r # rs"
  shows "head_waits h t r"
proof (cases rule: dispatch_step_cases [where h = h and s = s])
  case (recover r' rs' s')
  then show ?thesis using assms recover_not_idle [of h r' s s'] by (auto simp: recovering_def)
next
  case (head r' rs')
  let ?s1 = "reopen_unused_gates h s"
  have eq: "dispatch_head h r' rs' ?s1 = Halt t" using assms head by simp
  have up: "running_ids h ?s1 = up_ids h" using head by (simp add: running_ids_idle)
  show ?thesis
  proof (cases rule: dispatch_head_cases [where h = h and r = r' and rs = rs' and s = ?s1])
    case full
    then show ?thesis using eq assms head by (auto simp: head_waits_def)
  next
    case (busy ev)
    have t: "t = arm_drain h ev (fold (close_gate h) ev ?s1)" using eq busy by simp
    have "r' = r" using assms(3) head by (simp add: t arm_drain_def emit_def split: if_splits)
    moreover have "protected t = protected (fold (close_gate h) ev ?s1)"
      by (rule ext) (simp add: t arm_drain_def emit_def protected_def)
    moreover have "drainArmed t" "set ev \<subseteq> gateClosed t"
      by (simp_all add: t arm_drain_def emit_def fold_close_gate)
    ultimately show ?thesis using busy up
      by (auto simp: head_waits_def any_busy_protected list_ex_iff)
  next
    case (unload ev)
    then show ?thesis using eq assms by (auto simp: start_defs)
  next
    case load
    then show ?thesis using eq assms by (auto simp: start_defs)
  qed (use eq in simp_all)
qed (use assms in auto)

lemma try_dispatch_waits:
  "phase (try_dispatch h s) = PhaseIdle \<Longrightarrow> queued (try_dispatch h s) = r # rs \<Longrightarrow>
     head_waits h (try_dispatch h s) r"
proof -
  have "phase (try_dispatch h s) = PhaseIdle \<and> queued (try_dispatch h s) = r # rs \<longrightarrow>
     head_waits h (try_dispatch h s) r"
    by (rule try_dispatch_rel
        [where R = "\<lambda>_ t. phase t = PhaseIdle \<and> queued t = r # rs \<longrightarrow> head_waits h t r"])
      (use dispatch_step_waits in blast)+
  then show "phase (try_dispatch h s) = PhaseIdle \<Longrightarrow> queued (try_dispatch h s) = r # rs \<Longrightarrow>
     head_waits h (try_dispatch h s) r" by simp
qed

end
