(* ===== verification/Fifo_Recovery.thy ===== *)
theory Fifo_Recovery
  imports Fifo_Lifecycle
begin

text \<open>
  Recovery rounds. \<open>plan_recovery\<close> is characterised (who is probed, in which order, who waits for
  a sample) and shown not to depend on the order in which Go yields the keys of a map. A model is
  never probed twice on behalf of one request, so the rounds a request can own are bounded by the
  number of models. The events considered are the ones the router sends (\<open>routed\<close>): the maps of
  the host have distinct keys and a probe result carries the mode \<open>RecoverMode\<close> gave it.
\<close>

section \<open>The plan\<close>

definition model_keys :: "facts \<Rightarrow> model_id list" where
  "model_keys f = map fst (f_states f)"

lemma plan_status_set:
  "set (fst (plan_recovery t f uf)) =
     {m \<in> set (model_keys f). wants_status f uf m \<and> m \<notin> f_markers f}"
  by (auto simp: plan_recovery_def model_keys_def Let_def)

lemma plan_samples_set:
  "set (snd (plan_recovery t f uf)) = {m \<in> set (model_keys f). m \<in> f_markers f}"
  by (auto simp: plan_recovery_def model_keys_def Let_def)

lemma plan_order:
  "\<exists>rest. fst (plan_recovery t f uf) =
        (if t \<in> set (fst (plan_recovery t f uf)) then [t] else []) @ rest
     \<and> sorted rest \<and> t \<notin> set rest"
  by (auto simp: plan_recovery_def Let_def)

lemma plan_samples_sorted: "sorted (snd (plan_recovery t f uf))"
  by (simp add: plan_recovery_def Let_def sorted_filter [of "\<lambda>x. x", simplified])

lemma plan_distinct:
  "distinct (model_keys f) \<Longrightarrow> distinct (fst (plan_recovery t f uf) @ snd (plan_recovery t f uf))"
  by (auto simp: plan_recovery_def model_keys_def Let_def)

lemma plan_perm:
  assumes "mset (f_states f) = mset (f_states g)" "distinct (model_keys f)"
    and "f_markers g = f_markers f" "f_inflight g = f_inflight f"
  shows "plan_recovery t g uf = plan_recovery t f uf"
proof -
  have k: "mset (map fst (f_states f)) = mset (map fst (f_states g))" using assms(1) by simp
  have d: "distinct (map fst (f_states g))"
    using k assms(2) by (metis distinct_count_atmost_1 model_keys_def set_mset_mset)
  have "map_of (f_states g) = map_of (f_states f)"
    using assms(1,2) d
    by (intro map_of_eqI [symmetric]) (auto simp: model_keys_def dest: mset_eq_setD)
  then have "wants_status g uf = wants_status f uf"
    by (auto simp: wants_status_def assms(4) Let_def)
  then show ?thesis
    using sort_perm_eq [OF k] by (simp add: plan_recovery_def assms(3))
qed

section \<open>Probes\<close>

fun probe_ids :: "eff \<Rightarrow> model_id list" where
  "probe_ids (EBeginProbe _ m) = [m]"
| "probe_ids _ = []"

definition probed :: "eff list \<Rightarrow> model_id list" where
  "probed es = concat (map probe_ids es)"

lemma probed_simps [simp]:
  "probed [] = []" "probed (e # es) = probe_ids e @ probed es"
  "probed (es @ fs) = probed es @ probed fs"
  by (simp_all add: probed_def)

text \<open>At most one probe, of a model not seen before for the owner of the round.\<close>

definition probes_new :: "fifo \<Rightarrow> fifo \<Rightarrow> bool" where
  "probes_new s t =
     (\<exists>es. out t = out s @ es \<and> (\<forall>i. seen s i \<subseteq> seen t i)
        \<and> (probed es = [] \<or>
           (\<exists>m. probed es = [m] \<and> m \<notin> seen s (recoverOwner t) \<and>
              (recoverOwner t \<noteq> 0 \<and> m \<noteq> '''' \<longrightarrow> m \<in> seen t (recoverOwner t)))))"

definition probes_none :: "fifo \<Rightarrow> fifo \<Rightarrow> bool" where
  "probes_none s t = (\<exists>es. out t = out s @ es \<and> (\<forall>i. seen s i \<subseteq> seen t i) \<and> probed es = [])"

lemma probes_none_keep: "out t = out s \<Longrightarrow> seen t = seen s \<Longrightarrow> probes_none s t"
  unfolding probes_none_def by (intro exI [of _ "[]"]) simp

lemma probes_none_one: "out t = out s @ [e] \<Longrightarrow> probe_ids e = [] \<Longrightarrow> seen t = seen s \<Longrightarrow> probes_none s t"
  unfolding probes_none_def by (intro exI [of _ "[e]"]) simp

lemma probes_none_new: "probes_none s t \<Longrightarrow> probes_new s t"
  by (auto simp: probes_none_def probes_new_def)

lemma probes_none_trans: "probes_none s s' \<Longrightarrow> probes_none s' t \<Longrightarrow> probes_none s t"
  by (fastforce simp: probes_none_def)

lemma probes_new_trans: "probes_none s s' \<Longrightarrow> probes_new s' t \<Longrightarrow> probes_new s t"
proof -
  assume "probes_none s s'" and new: "probes_new s' t"
  then obtain es where es: "out s' = out s @ es" "\<And>i. seen s i \<subseteq> seen s' i" "probed es = []"
    by (auto simp: probes_none_def)
  from new obtain fs where fs: "out t = out s' @ fs" "\<And>i. seen s' i \<subseteq> seen t i"
    "probed fs = [] \<or> (\<exists>m. probed fs = [m] \<and> m \<notin> seen s' (recoverOwner t) \<and>
        (recoverOwner t \<noteq> 0 \<and> m \<noteq> '''' \<longrightarrow> m \<in> seen t (recoverOwner t)))"
    by (auto simp: probes_new_def)
  have "out t = out s @ es @ fs" "\<forall>i. seen s i \<subseteq> seen t i" "probed (es @ fs) = probed fs"
    using es fs(1,2) by (simp, blast, simp)
  moreover have "m \<notin> seen s (recoverOwner t)" if "m \<notin> seen s' (recoverOwner t)" for m
    using that es(2) by blast
  ultimately show ?thesis unfolding probes_new_def using fs(3) by metis
qed

lemma probes_none_plain: "plain s t \<Longrightarrow> seen t = seen s \<Longrightarrow> probes_none s t"
proof -
  assume "plain s t" and s: "seen t = seen s"
  then obtain es where es: "out t = out s @ es" "list_all plain_eff es" by (auto simp: plain_def)
  have "probe_ids e = []" if "plain_eff e" for e using that by (cases e) auto
  then have "probed es = []" using es(2) by (auto simp: probed_def list_all_iff)
  then show ?thesis using es s by (auto simp: probes_none_def)
qed

lemma dispatch_step_probes:
  assumes "dispatch_step h s = Halt s'"
  shows "probes_new s s'"
proof (cases rule: dispatch_step_cases [where h = h and s = s])
  case waiting
  with assms show ?thesis by (auto intro!: probes_none_new probes_none_keep)
next
  case quiet
  with assms show ?thesis
    by (auto intro!: probes_none_new probes_none_keep) (simp_all add: reopen_unused_gates_def)
next
  case (recover r rs s'')
  then have eq: "s'' = s'" using assms by simp
  from \<open>maybe_recover h r s = Some s''\<close> show ?thesis
  proof (cases rule: maybe_recover_cases)
    case (probe f m ms)
    have "m \<notin> seen s (req_id r)"
      using probe(2) by (auto simp: filter_seen_def filter_eq_Cons_iff)
    then show ?thesis
      unfolding probes_new_def eq [symmetric] probe(4)
      by (intro exI [of _ "[EBeginProbe (tokenSeq s + 1) m]"]) (auto simp: round_defs)
  qed (use eq in \<open>auto simp: round_defs intro!: probes_none_new probes_none_keep\<close>)
next
  case (head r rs)
  let ?s1 = "reopen_unused_gates h s"
  have eq: "dispatch_head h r rs ?s1 = Halt s'" using assms head by simp
  have s1: "out ?s1 = out s" "seen ?s1 = seen s" by (simp_all add: reopen_unused_gates_def)
  show ?thesis
    by (cases rule: dispatch_head_cases [where h = h and r = r and rs = rs and s = ?s1])
      (use eq s1 in \<open>auto simp: head_defs split: if_splits
         intro!: probes_none_new intro: probes_none_keep probes_none_one\<close>)
qed

lemma dispatch_step_probes_Again:
  assumes "dispatch_step h s = Again s'" "probes_new s' t"
  shows "probes_new s t"
proof (cases rule: dispatch_step_cases [where h = h and s = s])
  case (head r rs)
  let ?s1 = "reopen_unused_gates h s"
  have eq: "dispatch_head h r rs ?s1 = Again s'" using assms head by simp
  have s1: "out ?s1 = out s" "seen ?s1 = seen s" by (simp_all add: reopen_unused_gates_def)
  have "probes_none s s'"
    by (cases rule: dispatch_head_cases [where h = h and r = r and rs = rs and s = ?s1])
      (use eq s1 in \<open>auto simp: head_defs split: if_splits intro: probes_none_one\<close>)
  then show ?thesis by (rule probes_new_trans) (fact assms(2))
qed (use assms in auto)

lemma try_dispatch_probes: "probes_new s (try_dispatch h s)"
  by (rule try_dispatch_rel) (fact dispatch_step_probes, fact dispatch_step_probes_Again)

lemma probes_try: "probes_none s t \<Longrightarrow> probes_new s (try_dispatch h t)"
  by (rule probes_new_trans) (auto intro: try_dispatch_probes)

lemma probes_fail_owner: "probes_new s (fail_owner h e s)"
  unfolding fail_owner_def Let_def
  by (rule probes_try)
    (auto simp: end_round_def fail_head_def grant_error_def emit_def split: list.split
      intro: probes_none_keep probes_none_one)

lemma probes_finish: "probes_new s (finish_probes h s)"
  by (auto simp: finish_probes_def end_round_def set_phase_def
      intro: probes_fail_owner intro!: probes_try probes_none_keep)
    (auto intro!: probes_none_new probes_none_keep)

section \<open>The order of a round\<close>

text \<open>
  In a round the models still ahead of the current position are distinct, and the ones the owner
  has seen are also in \<open>checked\<close>, so the scan passes over them.
\<close>

definition ahead_ok :: "fifo \<Rightarrow> nat \<Rightarrow> bool" where
  "ahead_ok s k =
     (distinct (statusOrder s)
      \<and> (\<forall>p. k \<le> p \<and> p < length (statusOrder s)
            \<and> statusOrder s ! p \<in> seen s (recoverOwner s) \<longrightarrow> statusOrder s ! p \<in> checked s))"

definition rounds_ok :: "fifo \<Rightarrow> bool" where
  "rounds_ok s = (phase s = PhaseRecover \<longrightarrow> ahead_ok s (Suc (statusPos s)))"

definition note_ok :: "fifo \<Rightarrow> probe_note \<Rightarrow> bool" where
  "note_ok s n = (n_mode n = recover_mode_of s (n_token n) \<and> n_mode n \<noteq> RecoverDrop)"

definition host_ok :: "host \<Rightarrow> bool" where
  "host_ok h = (\<forall>f. recovery_facts h = Some f \<longrightarrow> distinct (model_keys f))"

definition routed :: "fifo \<Rightarrow> host \<times> fifo_event \<Rightarrow> bool" where
  "routed s e = (host_ok (fst e) \<and> (case snd e of OnProbe n \<Rightarrow> note_ok s n | _ \<Rightarrow> True))"

lemma rounds_ok_other: "phase s \<noteq> PhaseRecover \<Longrightarrow> rounds_ok s"
  by (simp add: rounds_ok_def)

lemma rounds_ok_cong:
  "rounds_ok s \<Longrightarrow> phase t = phase s \<Longrightarrow> statusOrder t = statusOrder s \<Longrightarrow> statusPos t = statusPos s \<Longrightarrow>
     seen t = seen s \<Longrightarrow> recoverOwner t = recoverOwner s \<Longrightarrow> checked t = checked s \<Longrightarrow> rounds_ok t"
  by (simp add: rounds_ok_def ahead_ok_def)

lemma distinct_nth_later: "distinct xs \<Longrightarrow> p < q \<Longrightarrow> q < length xs \<Longrightarrow> xs ! q \<noteq> xs ! p"
  by (simp add: nth_eq_iff_index_eq)

lemma begin_probe_frame [simp]:
  "statusPos (begin_probe m s) = statusPos s" "statusOrder (begin_probe m s) = statusOrder s"
  "recoverOwner (begin_probe m s) = recoverOwner s" "checked (begin_probe m s) = checked s"
  by (simp_all add: round_defs)

lemma ahead_begin:
  assumes "ahead_ok s p" "p < length (statusOrder s)"
  shows "ahead_ok (begin_probe (statusOrder s ! p) (s\<lparr>statusPos := p\<rparr>)) (Suc p)"
  using assms distinct_nth_later [of "statusOrder s" p]
  by (auto simp: ahead_ok_def round_defs)

lemma rounds_ok_recover:
  assumes h: "host_ok h" and m: "maybe_recover h r s = Some s'"
  shows "rounds_ok s'"
proof -
  have d: "distinct (round_status f r s)" if "recovery_facts h = Some f" for f
    using plan_distinct [of f "req_model r" "unloadFail s"] h that
    by (auto simp: host_ok_def filter_seen_def)
  have n: "m \<notin> seen s (req_id r)" if "m \<in> set (round_status f r s)" for f m
    using that by (simp add: filter_seen_def)
  from m show ?thesis
  proof (cases rule: maybe_recover_cases)
    case (adopt f m tok)
    have "round_status f r s ! p \<notin> seen s (req_id r)" if "p < length (round_status f r s)" for p
      using that n by (meson nth_mem)
    then show ?thesis using adopt(4) d [OF adopt(1)]
      by (auto simp: rounds_ok_def ahead_ok_def start_round_def set_phase_def)
  next
    case (sample f)
    then show ?thesis by (simp add: rounds_ok_def set_phase_def)
  next
    case (probe f m ms)
    let ?u = "start_round (tokenSeq s + 1) r (m # ms) (round_samples f r s) ''''
                (s\<lparr>tokenSeq := tokenSeq s + 1\<rparr>)"
    have dd: "distinct (m # ms)" using d [OF probe(1)] probe(2) by metis
    have nn: "x \<notin> seen s (req_id r)" if "x \<in> set (m # ms)" for x
      using n [of x f] that probe(2) by metis
    have u: "statusOrder ?u = m # ms" "statusPos ?u = 0" "seen ?u = seen s"
      "recoverOwner ?u = req_id r" "phase ?u = PhaseRecover"
      by (simp_all add: start_round_def set_phase_def)
    have a: "ahead_ok ?u 0"
      unfolding ahead_ok_def u using dd nn nth_mem [of _ "m # ms"] by metis
    have "?u\<lparr>statusPos := 0\<rparr> = ?u" by (rule fifo.equality) (simp_all add: start_round_def)
    then have "ahead_ok (begin_probe m ?u) (Suc 0)"
      using ahead_begin [OF a] u by simp
    then show ?thesis unfolding probe(4)
      by (simp add: rounds_ok_def) (simp add: start_round_def)
  qed
qed

lemma rounds_ok_dispatch: "host_ok h \<Longrightarrow> rounds_ok s \<Longrightarrow> rounds_ok (try_dispatch h s)"
proof (erule try_dispatch_inv [rotated])
  fix s s' assume h: "host_ok h" and I: "rounds_ok s"
    and step: "dispatch_step h s = Halt s' \<or> dispatch_step h s = Again s'"
  show "rounds_ok s'"
    using I step
  proof (rule dispatch_step_inv)
    fix s r s' assume "maybe_recover h r s = Some s'"
    then show "rounds_ok s'" by (rule rounds_ok_recover [OF h])
  next
    fix s :: fifo assume "rounds_ok s"
    then show "rounds_ok (reopen_unused_gates h s)"
      by (rule rounds_ok_cong) (simp_all add: reopen_unused_gates_def)
  next
    fix s :: fifo and ms assume "rounds_ok s"
    then show "rounds_ok (fold (close_gate h) ms s)"
      by (rule rounds_ok_cong) (simp_all add: fold_close_gate)
  next
    fix s :: fifo and ms assume "rounds_ok s"
    then show "rounds_ok (arm_drain h ms s)"
      by (rule rounds_ok_cong) (simp_all add: arm_drain_def emit_def)
  qed (auto simp: head_defs intro!: rounds_ok_other)
qed

lemma rounds_ok_end: "host_ok h \<Longrightarrow> phase s \<noteq> PhaseRecover \<Longrightarrow> rounds_ok (try_dispatch h s)"
  by (simp add: rounds_ok_dispatch rounds_ok_other)

lemma rounds_ok_owner: "host_ok h \<Longrightarrow> rounds_ok (fail_owner h e s)"
  unfolding fail_owner_def Let_def
  by (rule rounds_ok_end)
    (auto simp: end_round_def fail_head_def grant_error_def emit_def split: list.split)

lemma rounds_ok_finish: "host_ok h \<Longrightarrow> rounds_ok (finish_probes h s)"
  by (auto simp: finish_probes_def rounds_ok_owner end_round_def intro: rounds_ok_end)
    (auto simp: set_phase_def intro: rounds_ok_other)

text \<open>The probe loop started behind the current position.\<close>

lemma launch_probe_round:
  assumes h: "host_ok h" and a: "ahead_ok s (statusPos s)"
  shows "rounds_ok (launch_probe h s) \<and> probes_new s (launch_probe h s)"
  using launch_scan_form [of s]
proof (elim exE conjE disjE)
  fix p assume p: "statusPos s \<le> p" "p < length (statusOrder s)" "statusOrder s ! p \<notin> checked s"
    and eq: "launch_scan s = (True, begin_probe (statusOrder s ! p) (s\<lparr>statusPos := p\<rparr>))"
  let ?t = "begin_probe (statusOrder s ! p) (s\<lparr>statusPos := p\<rparr>)"
  have t: "launch_probe h s = ?t" using eq by (simp add: launch_probe_def)
  have ap: "ahead_ok s p" using a p(1) by (auto simp: ahead_ok_def)
  have "rounds_ok ?t"
    using ahead_begin [OF ap p(2)]
    by (simp add: rounds_ok_def)
  moreover have "statusOrder s ! p \<notin> seen s (recoverOwner s)"
    using ap p by (auto simp: ahead_ok_def)
  then have "probes_new s ?t"
    unfolding probes_new_def
    by (intro exI [of _ "[EBeginProbe (recoverToken s) (statusOrder s ! p)]"])
      (auto simp: round_defs)
  ultimately show ?thesis unfolding t by simp
next
  fix p assume eq: "launch_scan s = (False, s\<lparr>statusPos := p\<rparr>)"
  show ?thesis
    using eq h rounds_ok_finish probes_new_trans [OF probes_none_keep probes_finish]
    by (simp add: launch_probe_def)
qed

lemma absorb_round [simp]:
  "seen (absorb n s) = seen s" "checked (absorb n s) = checked s"
  "statusOrder (absorb n s) = statusOrder s" "statusPos (absorb n s) = statusPos s"
  "recoverOwner (absorb n s) = recoverOwner s"
  by (auto simp: absorb_def apply_backend_def Let_def split: recovery_class.split)

lemma note_late_round:
  assumes "host_ok h" "rounds_ok s"
  shows "rounds_ok (note_late h n s) \<and> probes_new s (note_late h n s)"
proof -
  let ?b = "if n_applied n then apply_backend (n_model n) (n_active n) (n_proof n) s else s"
  let ?u = "if n_applied n \<and> n_class n = RecReadyIdle
            then ?b\<lparr>unloadFail := unloadFail ?b - {n_model n}\<rparr> else ?b"
  have "rounds_ok ?u" by (rule rounds_ok_cong [OF assms(2)]) (simp_all add: apply_backend_def)
  moreover have k: "probes_none s ?u" by (rule probes_none_keep) (simp_all add: apply_backend_def)
  moreover have "probes_none s s" by (rule probes_none_keep) simp_all
  ultimately show ?thesis
    unfolding note_late_def Let_def
    using assms rounds_ok_dispatch probes_try [OF k] probes_none_new
    by (auto simp del: if_split)
qed

lemma note_probe_round:
  assumes h: "host_ok h" and ok: "note_ok s n" and I: "rounds_ok s"
  shows "rounds_ok (note_probe h n s) \<and> probes_new s (note_probe h n s)"
proof (cases "n_mode n = RecoverLate")
  case True
  have f: "rounds_ok (forget_probe (n_model n) s)" "probes_none s (forget_probe (n_model n) s)"
    by (rule rounds_ok_cong [OF I] probes_none_keep; simp add: forget_probe_def)+
  show ?thesis
    using note_late_round [OF h f(1)] probes_new_trans [OF f(2)] True
    by (simp add: note_probe_def Let_def)
next
  case False
  let ?s0 = "forget_probe (n_model n) s"
  let ?s1 = "mark_seen (recoverOwner ?s0) (n_model n) ?s0"
  let ?s2 = "?s1\<lparr>checked := insert (n_model n) (checked ?s1), inflightModel := ''''\<rparr>"
  let ?s3 = "absorb n ?s2"
  let ?s4 = "?s3\<lparr>statusPos := Suc (statusPos ?s3)\<rparr>"
  have ph: "phase s = PhaseRecover" "n_token n = recoverToken s"
    using ok False by (auto simp: note_ok_def recover_mode_of_def split: if_splits)
  then have a: "ahead_ok s (Suc (statusPos s))" using I by (simp add: rounds_ok_def)
  have c: "phase ?s1 = PhaseRecover" "recoverToken ?s1 = recoverToken s"
    by (simp_all add: forget_probe_def mark_seen_def ph)
  have n2: "probes_none s ?s2" and n3: "probes_none s ?s3" and n4: "probes_none s ?s4"
    unfolding probes_none_def
    by (intro exI [of _ "[]"]; simp; auto simp: mark_seen_def forget_probe_def)+
  have a4: "ahead_ok ?s4 (statusPos ?s4)"
    using a by (auto simp: ahead_ok_def mark_seen_def forget_probe_def)
  note l = launch_probe_round [OF h a4]
  have e2: "probes_none s (end_round ?s2)" and e3: "probes_none s (end_round ?s3)"
    by (rule probes_none_trans [OF n2] probes_none_trans [OF n3],
        rule probes_none_keep; simp add: end_round_def)+
  have r: "rounds_ok (try_dispatch h (end_round u))" for u
    by (rule rounds_ok_end [OF h]) (simp add: end_round_def)
  show ?thesis
    unfolding note_probe_def Let_def
    using False c ph r l probes_new_trans [OF n4] probes_new_trans [OF n2 probes_fail_owner]
      probes_try [OF e2] probes_try [OF e3] rounds_ok_owner [OF h]
    by (auto simp del: absorb_round queued_absorb out_absorb phase_absorb)
qed

section \<open>Every event\<close>

lemma rounds_ok_frame [simp]:
  "rounds_ok (s\<lparr>maxQ := x_maxQ\<rparr>) = rounds_ok s"
  "rounds_ok (s\<lparr>nextID := x_nextID\<rparr>) = rounds_ok s"
  "rounds_ok (s\<lparr>queued := x_queued\<rparr>) = rounds_ok s"
  "rounds_ok (s\<lparr>pending := x_pending\<rparr>) = rounds_ok s"
  "rounds_ok (s\<lparr>httpIn := x_httpIn\<rparr>) = rounds_ok s"
  "rounds_ok (s\<lparr>backend := x_backend\<rparr>) = rounds_ok s"
  "rounds_ok (s\<lparr>unresolved := x_unresolved\<rparr>) = rounds_ok s"
  "rounds_ok (s\<lparr>dispatchGen := x_dispatchGen\<rparr>) = rounds_ok s"
  "rounds_ok (s\<lparr>quietGen := x_quietGen\<rparr>) = rounds_ok s"
  "rounds_ok (s\<lparr>gateClosed := x_gateClosed\<rparr>) = rounds_ok s"
  "rounds_ok (s\<lparr>gateAt := x_gateAt\<rparr>) = rounds_ok s"
  "rounds_ok (s\<lparr>drainArmed := x_drainArmed\<rparr>) = rounds_ok s"
  "rounds_ok (s\<lparr>unloadFail := x_unloadFail\<rparr>) = rounds_ok s"
  "rounds_ok (s\<lparr>swapTarget := x_swapTarget\<rparr>) = rounds_ok s"
  "rounds_ok (s\<lparr>swapEvict := x_swapEvict\<rparr>) = rounds_ok s"
  "rounds_ok (s\<lparr>unloadBegan := x_unloadBegan\<rparr>) = rounds_ok s"
  "rounds_ok (s\<lparr>tokenSeq := x_tokenSeq\<rparr>) = rounds_ok s"
  "rounds_ok (s\<lparr>needSample := x_needSample\<rparr>) = rounds_ok s"
  "rounds_ok (s\<lparr>out := x_out\<rparr>) = rounds_ok s"
  by (simp_all add: rounds_ok_def ahead_ok_def)

definition round_step :: "fifo \<Rightarrow> fifo \<Rightarrow> bool" where
  "round_step s t = (rounds_ok t \<and> probes_new s t)"

lemma round_keep: "rounds_ok t \<Longrightarrow> probes_none s t \<Longrightarrow> round_step s t"
  by (simp add: round_step_def probes_none_new)

lemma round_try: "host_ok h \<Longrightarrow> rounds_ok t \<Longrightarrow> probes_none s t \<Longrightarrow> round_step s (try_dispatch h t)"
  by (simp add: round_step_def rounds_ok_dispatch probes_try)

lemma rounds_ok_idle [simp]: "rounds_ok (s\<lparr>phase := PhaseIdle\<rparr>)"
  by (simp add: rounds_ok_def)

lemma rounds_ok_drop: "rounds_ok s \<Longrightarrow> rounds_ok (drop_owner i s)"
  by (auto simp: drop_owner_def rounds_ok_def)

lemma reject_seen: "seen (reject_admit h q e s) = seen s" and rounds_ok_reject:
  "rounds_ok (reject_admit h q e s) = rounds_ok s"
  by (simp_all add: reject_admit_def grant_error_def emit_def)

lemma admit_seen: "admit h q e s = (b, t) \<Longrightarrow> seen t = seen s \<and> rounds_ok t = rounds_ok s"
  by (auto simp: admit_def emit_def split: if_splits)

lemma round_request:
  assumes "host_ok h" "rounds_ok s"
  shows "round_step s (on_request h r s)"
proof (cases rule: on_request_cases [where h = h and r = r and s = s])
  case (rejected q e s0)
  have "seen s0 = seen s" "rounds_ok s0 = rounds_ok s" by (subst rejected(2), simp)+
  then show ?thesis unfolding rejected(1)
    by (intro round_keep probes_none_plain
        plain_trans [OF plain_request_start [OF rejected(2)] plain_reject])
      (simp_all add: reject_seen rounds_ok_reject assms)
next
  case (gone q t s0)
  have "seen s0 = seen s" "rounds_ok s0 = rounds_ok s" by (subst gone(3), simp)+
  then show ?thesis unfolding gone(2)
    by (intro round_keep probes_none_plain
        plain_trans [OF plain_request_start [OF gone(3)] plain_admit [OF gone(1)]])
      (use admit_seen [OF gone(1)] assms in simp_all)
next
  case (accepted q t s0)
  have "seen s0 = seen s" "rounds_ok s0 = rounds_ok s" by (subst accepted(3), simp)+
  then show ?thesis unfolding accepted(2)
    by (intro round_try probes_none_plain plain_queued assms(1)
        plain_trans [OF plain_request_start [OF accepted(3)] plain_admit [OF accepted(1)]])
      (use admit_seen [OF accepted(1)] assms in simp_all)
qed

lemma round_event:
  assumes I: "rounds_ok s" and ok: "routed s e"
  shows "round_step s (fifo_step s e)"
proof -
  obtain h ev where e: "e = (h, ev)" by (cases e)
  have h: "host_ok h" using ok by (simp add: routed_def e)
  have refl: "round_step s s" using I by (auto intro: round_keep probes_none_keep)
  show ?thesis
  proof (cases ev)
    case (OnRequest r) then show ?thesis by (simp add: e round_request [OF h I])
  next
    case (OnProbe n)
    then show ?thesis
      using note_probe_round [OF h _ I] ok by (simp add: e routed_def round_step_def)
  next
    case (OnShutdown x)
    have "plain s (on_shutdown x s)"
      unfolding on_shutdown_def fold_grant_error plain_def
      by (intro exI [of _ "map (\<lambda>q. EGrantError (req_id q) x) (queued s)"]) (simp add: list_all_iff)
    then show ?thesis using OnShutdown I
      by (auto simp: e intro!: round_keep probes_none_plain)
        (simp_all add: on_shutdown_def fold_grant_error)
  next
    case (OnForget m)
    have "rounds_ok (forget_probe m s)" by (rule rounds_ok_cong [OF I]) (simp_all add: forget_probe_def)
    then show ?thesis using OnForget
      by (auto simp: e intro!: round_keep probes_none_keep) (simp_all add: forget_probe_def)
  next
    case (OnCancel i)
    then show ?thesis using I h refl
      by (auto simp: e on_cancel_def intro!: round_try rounds_ok_drop probes_none_keep)
        (simp_all add: drop_owner_def)
  next
    case (OnQueueTimeout i)
    then show ?thesis using I h refl
      by (auto simp: e on_queue_timeout_def grant_error_def emit_def split: option.split
          intro!: round_try rounds_ok_drop probes_none_one)
        (simp_all add: drop_owner_def, simp)
  next
    case (OnUnloadDone x)
    then show ?thesis using I h refl
      by (auto simp: e on_unload_done_def Let_def fail_head_def grant_error_def emit_def
          fold_open_gate reopen_unused_gates_def split: option.split list.split
          intro!: round_try intro: probes_none_keep probes_none_one)
  next
    case (OnSwapDone m x)
    then show ?thesis using I h refl
      by (auto simp: e on_swap_done_def Let_def fail_head_def grant_error_def emit_def
          split: option.split list.split
          intro!: round_try intro: probes_none_keep probes_none_one)
  next
    case OnSampleFailed
    then show ?thesis using h refl
      by (simp add: e sample_failed_def round_step_def rounds_ok_owner probes_fail_owner)
  next
    case (OnMarkerCleared m)
    let ?u = "s\<lparr>needSample := needSample s - {m}, unloadFail := unloadFail s - {m}\<rparr>"
    have "round_step s (try_dispatch h (end_round ?u))"
      by (rule round_try [OF h]) (auto simp: end_round_def rounds_ok_other intro: probes_none_keep)
    moreover have "round_step s ?u" using I by (intro round_keep probes_none_keep) simp_all
    ultimately show ?thesis using OnMarkerCleared by (simp add: e marker_cleared_def Let_def)
  next
    case (OnProxyStart m b)
    then show ?thesis using I
      by (auto simp: e on_proxy_start_def Let_def emit_def
          intro!: round_keep intro: probes_none_keep probes_none_one)
  next
    case (OnServeDone m)
    then show ?thesis using I h
      by (auto simp: e on_serve_done_def Let_def intro!: round_try probes_none_keep)
  qed (use I h refl in \<open>auto simp: e on_cancel_granted_def on_status_def on_backend_done_def
      on_remind_def apply_backend_def intro!: round_try probes_none_keep\<close>)
qed

lemma rounds_ok_new: "rounds_ok (new_fifo c)"
  by (simp add: rounds_ok_def new_fifo_def)

interpretation rounds: machine fifo_step routed rounds_ok
  by unfold_locales (use round_event in \<open>simp add: round_step_def\<close>)

section \<open>No model is probed twice for a request\<close>

text \<open>The probes of a run, each with the request that owns its round.\<close>

fun probed_run :: "fifo \<Rightarrow> (host \<times> fifo_event) list \<Rightarrow> (nat \<times> model_id) list" where
  "probed_run s [] = []"
| "probed_run s (e # es) =
     map (Pair (recoverOwner (fifo_step s e))) (probed (drop (length (out s)) (out (fifo_step s e))))
       @ probed_run (fifo_step s e) es"

definition real_probe :: "nat \<times> model_id \<Rightarrow> bool" where
  "real_probe p = (fst p \<noteq> 0 \<and> snd p \<noteq> '''')"

lemma probed_run_new:
  assumes "rounds_ok s" "run_ok fifo_step routed s es"
  shows "distinct (filter real_probe (probed_run s es))
    \<and> (\<forall>(i, m) \<in> set (probed_run s es). m \<notin> seen s i)"
  using assms
proof (induction es arbitrary: s)
  case Nil
  then show ?case by simp
next
  case (Cons e es)
  let ?t = "fifo_step s e"
  have st: "rounds_ok ?t" "probes_new s ?t"
    using round_event [of s e] Cons.prems by (simp_all add: round_step_def)
  then obtain fs where fs: "out ?t = out s @ fs" "\<And>i. seen s i \<subseteq> seen ?t i"
    "probed fs = [] \<or> (\<exists>m. probed fs = [m] \<and> m \<notin> seen s (recoverOwner ?t) \<and>
        (recoverOwner ?t \<noteq> 0 \<and> m \<noteq> '''' \<longrightarrow> m \<in> seen ?t (recoverOwner ?t)))"
    by (auto simp: probes_new_def)
  have IH: "distinct (filter real_probe (probed_run ?t es))"
    "\<forall>(i, m) \<in> set (probed_run ?t es). m \<notin> seen ?t i"
    using Cons.IH [OF st(1)] Cons.prems by simp_all
  have mono: "\<forall>(i, m) \<in> set (probed_run ?t es). m \<notin> seen s i" using IH(2) fs(2) by blast
  show ?case
    using fs(3)
  proof
    assume "probed fs = []"
    then show ?thesis using IH(1) mono by (simp add: fs(1))
  next
    assume "\<exists>m. probed fs = [m] \<and> m \<notin> seen s (recoverOwner ?t) \<and>
        (recoverOwner ?t \<noteq> 0 \<and> m \<noteq> '''' \<longrightarrow> m \<in> seen ?t (recoverOwner ?t))"
    then obtain m where m: "probed fs = [m]" "m \<notin> seen s (recoverOwner ?t)"
      "recoverOwner ?t \<noteq> 0 \<and> m \<noteq> '''' \<longrightarrow> m \<in> seen ?t (recoverOwner ?t)" by blast
    have "(recoverOwner ?t, m) \<notin> set (probed_run ?t es)" if "real_probe (recoverOwner ?t, m)"
      using that m(3) IH(2) by (auto simp: real_probe_def)
    then show ?thesis using IH(1) mono m(1,2) by (auto simp: fs(1))
  qed
qed

section \<open>How a round fails\<close>

lemma fail_owner_answers:
  assumes "owner_ok s" "recovering s"
  shows "\<exists>es. out (fail_owner h e s) = out s @ EGrantError (recoverOwner s) e # es"
proof -
  obtain r rs where q: "queued s = r # rs" "req_id r = recoverOwner s"
    using assms by (cases "queued s") (auto simp: owner_ok_def)
  let ?t = "fail_head r rs e ((end_round s)\<lparr>inflightModel := ''''\<rparr>)"
  have "fail_owner h e s = try_dispatch h ?t"
    using q by (simp add: fail_owner_def Let_def end_round_def)
  moreover have "out ?t = out s @ [EGrantError (recoverOwner s) e]"
    using q by (simp add: fail_head_def grant_error_def emit_def end_round_def)
  ultimately show ?thesis using try_dispatch_emits [of h ?t] by (auto simp: emits_def)
qed

lemma finish_probes_resources:
  "owner_ok s \<Longrightarrow> recovering s \<Longrightarrow> \<not> skipRest s \<Longrightarrow> sawResources s \<Longrightarrow>
     \<exists>es. out (finish_probes h s) = out s @ EGrantError (recoverOwner s) (Sched ErrResources) # es"
  by (simp add: finish_probes_def fail_owner_answers)

end
