(* ===== verification/Planner.thy ===== *)
theory Planner
  imports Fifo_Recovery
begin

text \<open>
  The interface between the scheduler and the planner it asks for victims (\<open>Swapper\<close> and \<open>Decider\<close>
  of \<^verbatim>\<open>scheduler.go\<close>): what the scheduler relies on, and what follows for the unloads it starts.
  The interpretations on the router's planner and on \<open>exclusiveSwapper\<close> are in \<open>Budget\<close>.
\<close>

locale evictor =
  fixes plan :: "model_id \<Rightarrow> model_id list \<Rightarrow> goerr + model_id list"
  assumes victims_running: "plan t running = Inr vs \<Longrightarrow> set vs \<subseteq> set running"
    and spares_target: "plan t running = Inr vs \<Longrightarrow> t \<notin> set vs"
begin

lemma unload_victims:
  assumes "plan_evict h = plan" "out (fifo_step s (h, ev)) = out s @ es" "EStartUnload vs d \<in> set es"
  shows "set vs \<subseteq> set (up_ids h) - {swapTarget (fifo_step s (h, ev))}"
proof -
  have "unload_ok h (fifo_step s (h, ev)) vs d"
    using fifo_step_emits [of h s ev] assms(2,3) by (auto simp: emits_def)
  then show ?thesis
    using victims_running spares_target by (auto simp: unload_ok_def assms(1))
qed

lemma load_evicts_nothing:
  assumes "plan_evict h = plan" "out (fifo_step s (h, ev)) = out s @ es" "EStartLoad m \<in> set es"
  shows "plan m (up_ids h) = Inr []"
  using fifo_step_emits [of h s ev] assms by (auto simp: emits_def load_ok_def)

end

text \<open>A planner with both methods: \<open>EvictionFor\<close> is \<open>Decide\<close> with its errors dropped.\<close>

locale decider = evictor plan
  for plan :: "model_id \<Rightarrow> model_id list \<Rightarrow> goerr + model_id list" +
  fixes evict :: "model_id \<Rightarrow> model_id list \<Rightarrow> model_id list"
  assumes evict_plan: "evict t running = (case plan t running of Inl _ \<Rightarrow> [] | Inr vs \<Rightarrow> vs)"
begin

lemma plan_of_host: "planner h = Decider evict plan \<Longrightarrow> plan_evict h = plan"
  by (simp add: plan_evict_def fun_eq_iff)

lemma blocked_iff:
  "planner h = Decider evict plan \<Longrightarrow>
     blocked h s m \<longleftrightarrow>
       (\<exists>vs. plan m (running_ids h s) = Inr vs \<and> (\<exists>v \<in> set vs. v \<in> unloadFail s))"
  by (cases "plan m (running_ids h s)") (auto simp: blocked_def eviction_for_def evict_plan list_ex_iff)

end

end
