(* ===== verification/Fifo_Props.thy ===== *)
theory Fifo_Props
  imports Planner
begin

text \<open>
  The properties of the scheduler, over its events from any configuration. The definitions of the
  first section are the concrete states their instances are evaluated on: two models \<open>a\<close> and \<open>b\<close>
  of which one may be resident, a planner that evicts every running model but the target, and a
  clock at 100.
\<close>

section \<open>Concrete states\<close>

definition demo_plan :: "model_id \<Rightarrow> model_id list \<Rightarrow> goerr + model_id list" where
  "demo_plan target running = Inr (filter (\<lambda>i. i \<noteq> target) running)"

definition demo_host :: "(model_id \<times> rstate) list \<Rightarrow> facts option \<Rightarrow> host" where
  "demo_host states f =
     \<lparr>model_state = map_of states, running_models = states, clock_now = 100,
      planner = Decider (\<lambda>target running. filter (\<lambda>i. i \<noteq> target) running) demo_plan,
      recovery_facts = f, serve_taken = (\<lambda>_. True), ctx_done = (\<lambda>_. False),
      admit_taken = (\<lambda>_. True)\<rparr>"

definition demo_req :: "nat \<Rightarrow> model_id \<Rightarrow> req" where
  "demo_req i m = \<lparr>req_id = i, req_model = m, req_admit = True\<rparr>"

definition a_ready :: host where
  "a_ready = demo_host [(''a'', StateReady), (''b'', StateStopped)] None"

definition a_unknown :: host where
  "a_unknown = demo_host [(''a'', StateUnknown), (''b'', StateUnknown)]
     (Some \<lparr>f_states = [(''a'', StateUnknown), (''b'', StateUnknown)], f_markers = {}, f_inflight = {}\<rparr>)"

text \<open>The request for \<open>b\<close> evicts \<open>a\<close>.\<close>

definition unloading :: fifo where
  "unloading = fifo_step (new_fifo None) (a_ready, OnRequest (demo_req 1 ''b''))"

text \<open>A request for \<open>a\<close> is granted, then the request for \<open>b\<close> waits for it.\<close>

definition draining_events :: "(host \<times> fifo_event) list" where
  "draining_events = [(a_ready, OnRequest (demo_req 1 ''a'')), (a_ready, OnRequest (demo_req 2 ''b''))]"

definition draining :: fifo where
  "draining = run fifo_step (new_fifo None) draining_events"

text \<open>Neither state is known: the round of request 1 probes \<open>b\<close>, then \<open>a\<close>.\<close>

definition demo_note :: "nat \<Rightarrow> model_id \<Rightarrow> recovery_class \<Rightarrow> probe_note" where
  "demo_note tok m c =
     \<lparr>n_token = tok, n_model = m, n_mode = RecoverCurrent, n_class = c, n_kind = StatusErrNone,
      n_ack = ApplyApplied, n_active = 0, n_proof = 0, n_applied = True\<rparr>"

definition probing_events :: "(host \<times> fifo_event) list" where
  "probing_events = [(a_unknown, OnRequest (demo_req 1 ''b'')),
                     (a_unknown, OnProbe (demo_note 1 ''b'' RecUnloadedIdle))]"

definition probing :: fifo where
  "probing = run fifo_step (new_fifo None) probing_events"

text \<open>Request 1 owns a round whose probes found both models unloaded; it waits for a sample.\<close>

definition sampling_events :: "(host \<times> fifo_event) list" where
  "sampling_events = probing_events @ [(a_unknown, OnProbe (demo_note 1 ''a'' RecUnloadedIdle))]"

definition sampling :: fifo where
  "sampling = run fifo_step (new_fifo None) sampling_events"

text \<open>\<open>a\<close> is served once; the status asked for then is overtaken by another grant.\<close>

definition served_once :: "(host \<times> fifo_event) list" where
  "served_once = [(a_ready, OnRequest (demo_req 1 ''a'')), (a_ready, OnProxyStart ''a'' True),
                  (a_ready, OnServeDone ''a'')]"

definition granted_again :: "(host \<times> fifo_event) list" where
  "granted_again = [(a_ready, OnStatus ''a'' 0 None 1), (a_ready, OnRequest (demo_req 2 ''a''))]"

section \<open>Properties\<close>

lemma gens_run: "gens_ok s \<Longrightarrow> gens_ok (run fifo_step s es)"
  by (induction es arbitrary: s) (auto intro: gens_ok_step)

text \<open>C1: Whatever the events and the answers of the host, requests are granted in the order
  in which they were offered: the ids granted are a subsequence of the ids offered.\<close>

theorem grants_follow_arrival:
  "subseq (served (out (run fifo_step (new_fifo c) es))) (offered_run (new_fifo c) es)"
proof -
  let ?t = "run fifo_step (new_fifo c) es"
  have "subseq (served (out ?t)) (served (out ?t) @ waiting_ids ?t)"
    by (rule prefix_imp_subseq) simp
  moreover have "served (out (new_fifo c)) @ waiting_ids (new_fifo c) @ offered_run (new_fifo c) es
      = offered_run (new_fifo c) es"
    by (simp add: new_fifo_def)
  ultimately show ?thesis
    using served_run [of "new_fifo c" es] by (metis subseq_order.trans)
qed

text \<open>C2: In every state the scheduler reaches, the slots of a model (requests granted, being
  served, or served but not yet seen finished by a status) are between zero and its concurrency
  limit, which is at least one.\<close>

theorem slots_within_limit:
  "0 \<le> slots (run fifo_step (new_fifo c) es) m
   \<and> slots (run fifo_step (new_fifo c) es) m \<le> limit (run fifo_step (new_fifo c) es) m
   \<and> 1 \<le> limit (run fifo_step (new_fifo c) es) m"
proof -
  let ?t = "run fifo_step (new_fifo c) es"
  have "counters_ok ?t"
    using fifo_counters.inv_run [of "new_fifo c" es] counters_ok_new fifo_inv_new
    by (simp add: fifo_inv_def)
  then show ?thesis
    using pos_counts_nonneg [of "pending ?t" m] pos_counts_nonneg [of "httpIn ?t" m]
      pos_counts_nonneg [of "unresolved ?t" m] limit_pos [of ?t m]
    by (simp add: counters_ok_def slots_def)
qed

text \<open>C10: Every call the scheduler makes to its host is safe in the state it leaves behind:
  an unload is started only for the victims the planner named for the head of the queue, none of
  them in use or blocked, all of them gated, with a deadline that lies in the drain window; a load
  only for the head, with a free slot, when the planner evicts nothing and the model is not ready; a
  grant only for a ready model that needs no eviction; a probe only under the token of the round. An
  unload and a load also find the ledger settled: no unload or loss of a model is still waiting for a
  sample of the device, unless the load of the model is already running.\<close>

theorem host_calls_are_safe:
  "\<exists>es. out (fifo_step s (h, ev)) = out s @ es \<and> list_all (effect_ok h (fifo_step s (h, ev))) es"
  using fifo_step_emits [of h s ev] by (auto simp: emits_def list_all_iff)

text \<open>C13: At most one unload or load is in flight: the jobs started are exactly the jobs whose
  end was reported plus the one the scheduler is in.\<close>

theorem one_job_at_a_time:
  "started_jobs (run fifo_step (new_fifo c) es)
     = completions (new_fifo c) es + of_bool (busy (run fifo_step (new_fifo c) es))"
proof -
  have "finished_jobs (new_fifo c) = 0" by (simp add: job_defs new_fifo_def)
  then have "finished_jobs (run fifo_step (new_fifo c) es) = int (completions (new_fifo c) es)"
    by (simp add: jobs_run)
  then show ?thesis
    by (cases "busy (run fifo_step (new_fifo c) es)") (simp_all add: finished_jobs_def)
qed

text \<open>C23: Over a run of the events the router sends, no model is probed twice on behalf of
  the same request: the probes the scheduler asks for, those with a request's id (not zero) and the
  name of a model, are distinct.\<close>

theorem no_model_probed_twice:
  "run_ok fifo_step routed (new_fifo c) es \<Longrightarrow>
     distinct (filter real_probe (probed_run (new_fifo c) es))"
  using probed_run_new [OF rounds_ok_new] by blast

lemma probing_routed: "run_ok fifo_step routed (new_fifo None) probing_events"
proof -
  have h: "host_ok a_unknown" by (simp add: host_ok_def a_unknown_def demo_host_def model_keys_def)
  have n: "note_ok (fifo_step (new_fifo None) (a_unknown, OnRequest (demo_req 1 ''b'')))
      (demo_note 1 ''b'' RecUnloadedIdle)"
    by code_simp
  show ?thesis using h n by (simp add: probing_events_def routed_def del: fifo_step.simps)
qed

theorem no_model_probed_twice_witness:
  "probed_run (new_fifo None) probing_events = [(1, ''b''), (1, ''a'')]
   \<and> distinct (filter real_probe (probed_run (new_fifo None) probing_events))"
proof
  show "probed_run (new_fifo None) probing_events = [(1, ''b''), (1, ''a'')]" by code_simp
  show "distinct (filter real_probe (probed_run (new_fifo None) probing_events))"
    by (rule no_model_probed_twice [OF probing_routed])
qed

text \<open>C28: When the dispatch loop ends idle with a request at the head of the queue, the model
  of that request has no free slot, or its victims are gated, at least one is still in use, and the
  reminder for the drain deadline is armed.\<close>

theorem head_waits_for_a_reason:
  "phase (try_dispatch h s) = PhaseIdle \<Longrightarrow> queued (try_dispatch h s) = r # rs \<Longrightarrow>
     head_waits h (try_dispatch h s) r"
  by (rule try_dispatch_waits)

theorem head_waits_for_a_reason_witness:
  "queued (try_dispatch a_ready draining) = [demo_req 2 ''b'']
   \<and> head_waits a_ready (try_dispatch a_ready draining) (demo_req 2 ''b'')"
proof -
  have p: "phase (try_dispatch a_ready draining) = PhaseIdle" by code_simp
  have q: "queued (try_dispatch a_ready draining) = [demo_req 2 ''b'']" by code_simp
  show ?thesis using head_waits_for_a_reason [OF p q] q by simp
qed

text \<open>C30: Until the end of the job in flight is reported, no event changes the phase, the target or
  the victims, starts another job, grants a request or begins a probe.\<close>

theorem job_in_flight_is_undisturbed:
  "busy s \<Longrightarrow> \<not> completes s e \<Longrightarrow> same_job s (fifo_step s e)"
  by (rule same_job_step)

theorem job_in_flight_is_undisturbed_witness:
  "phase unloading = PhaseUnloading
   \<and> same_job unloading (fifo_step unloading (a_ready, OnRequest (demo_req 2 ''a'')))"
proof
  show "phase unloading = PhaseUnloading" by code_simp
  have b: "busy unloading" by code_simp
  have c: "\<not> completes unloading (a_ready, OnRequest (demo_req 2 ''a''))" by code_simp
  show "same_job unloading (fifo_step unloading (a_ready, OnRequest (demo_req 2 ''a'')))"
    by (rule job_in_flight_is_undisturbed [OF b c])
qed

text \<open>C34: A status that was asked for before a later grant of the model does not resolve the
  requests of the model: the generation it proves is no longer the current one.\<close>

theorem stale_status_keeps_unresolved:
  assumes "dispatchGen (run fifo_step (run fifo_step (new_fifo c) es) fs) m
             \<noteq> dispatchGen (run fifo_step (new_fifo c) es) m"
  shows "unresolved (apply_backend m a (proof_gen (run fifo_step (new_fifo c) es) m)
             (run fifo_step (run fifo_step (new_fifo c) es) fs))
       = unresolved (run fifo_step (run fifo_step (new_fifo c) es) fs)"
proof -
  have "gens_ok (run fifo_step (new_fifo c) es)"
    using gens_run [of "new_fifo c" es] fifo_inv_new by (simp add: fifo_inv_def)
  then show ?thesis
    using assms by (auto simp: gens_ok_def apply_backend_def proof_gen_def)
qed

theorem stale_status_keeps_unresolved_witness:
  "proof_gen (run fifo_step (new_fifo None) served_once) ''a'' = 1
   \<and> unresolved (apply_backend ''a'' 0 (proof_gen (run fifo_step (new_fifo None) served_once) ''a'')
             (run fifo_step (run fifo_step (new_fifo None) served_once) granted_again))
       = unresolved (run fifo_step (run fifo_step (new_fifo None) served_once) granted_again)"
proof
  show "proof_gen (run fifo_step (new_fifo None) served_once) ''a'' = 1" by code_simp
  have d: "dispatchGen (run fifo_step (run fifo_step (new_fifo None) served_once) granted_again) ''a''
      \<noteq> dispatchGen (run fifo_step (new_fifo None) served_once) ''a''" by code_simp
  show "unresolved (apply_backend ''a'' 0 (proof_gen (run fifo_step (new_fifo None) served_once) ''a'')
             (run fifo_step (run fifo_step (new_fifo None) served_once) granted_again))
       = unresolved (run fifo_step (run fifo_step (new_fifo None) served_once) granted_again)"
    by (rule stale_status_keeps_unresolved [OF d])
qed

text \<open>A round that cannot get a sample fails the request that owns it, which is the head of the
  queue, and no other request before it.\<close>

theorem failed_sample_answers_the_owner:
  assumes "run_ok fifo_step no_shutdown (new_fifo c) es"
    and "phase (run fifo_step (new_fifo c) es) = PhaseSample"
  shows "recoverOwner (run fifo_step (new_fifo c) es)
           = req_id (hd (queued (run fifo_step (new_fifo c) es)))
    \<and> (\<exists>fs. out (sample_failed h (run fifo_step (new_fifo c) es)) =
         out (run fifo_step (new_fifo c) es)
           @ EGrantError (recoverOwner (run fifo_step (new_fifo c) es)) (Sched ErrNotBooted) # fs)"
proof -
  let ?t = "run fifo_step (new_fifo c) es"
  have o: "owner_ok ?t"
    using fifo_machine.inv_run [OF fifo_inv_new assms(1)] by (simp add: fifo_inv_def)
  have r: "recovering ?t" using assms(2) by (simp add: recovering_def)
  have "recoverOwner ?t = req_id (hd (queued ?t))" using o r by (simp add: owner_ok_def)
  moreover have "\<exists>fs. out (sample_failed h ?t) =
      out ?t @ EGrantError (recoverOwner ?t) (Sched ErrNotBooted) # fs"
    using fail_owner_answers [OF o r] assms(2) by (simp add: sample_failed_def)
  ultimately show ?thesis by blast
qed

theorem failed_sample_answers_the_owner_witness:
  "phase sampling = PhaseSample
   \<and> (\<exists>fs. out (sample_failed a_unknown sampling) =
         out sampling @ EGrantError (recoverOwner sampling) (Sched ErrNotBooted) # fs)"
proof -
  have r: "run_ok fifo_step no_shutdown (new_fifo None) sampling_events" by code_simp
  have p: "phase (run fifo_step (new_fifo None) sampling_events) = PhaseSample" by code_simp
  show ?thesis
    unfolding sampling_def using failed_sample_answers_the_owner [OF r p, of a_unknown] p by blast
qed

text \<open>The dispatch loop answers a prefix of the queue, each request once and in order, and leaves
  the rest of the queue as it was.\<close>

theorem dispatch_answers_a_prefix:
  "\<exists>k es. queued (try_dispatch h s) = drop k (queued s) \<and> out (try_dispatch h s) = out s @ es
     \<and> answered es = map req_id (take k (queued s))"
  using try_dispatch_pops [of s h] by (auto simp: pops_def)

text \<open>The queue never holds more requests than its configured size, which is positive.\<close>

theorem queue_within_bound:
  "0 < maxQ (run fifo_step (new_fifo c) es)
   \<and> int (length (queued (run fifo_step (new_fifo c) es))) \<le> maxQ (run fifo_step (new_fifo c) es)"
  using fifo_counters.inv_run [of "new_fifo c" es] counters_ok_new fifo_inv_new
  by (simp add: fifo_inv_def queue_ok_def)

text \<open>The plan of a round: it probes, each once, the models whose local state is failed or unknown or
  whose unload failed (unless their load is in flight) and that do not wait for a sample, the
  target first and the others in order; the models that wait for a sample are the marked ones.\<close>

theorem recovery_plan:
  assumes "distinct (model_keys f)"
  shows "distinct (fst (plan_recovery target f uf) @ snd (plan_recovery target f uf))
    \<and> set (fst (plan_recovery target f uf))
        = {m \<in> set (model_keys f). wants_status f uf m \<and> m \<notin> f_markers f}
    \<and> set (snd (plan_recovery target f uf)) = {m \<in> set (model_keys f). m \<in> f_markers f}
    \<and> (\<exists>rest. fst (plan_recovery target f uf) =
          (if target \<in> set (fst (plan_recovery target f uf)) then [target] else []) @ rest
          \<and> sorted rest)"
  using plan_distinct [OF assms] plan_status_set plan_samples_set plan_order by blast

theorem recovery_plan_witness:
  "plan_recovery ''b''
     \<lparr>f_states = [(''c'', StateFailed), (''b'', StateUnknown), (''a'', StateReady)],
      f_markers = {}, f_inflight = {}\<rparr> {''a''} = ([''b'', ''a'', ''c''], [])
   \<and> distinct (fst (plan_recovery ''b''
     \<lparr>f_states = [(''c'', StateFailed), (''b'', StateUnknown), (''a'', StateReady)],
      f_markers = {}, f_inflight = {}\<rparr> {''a''}) @ snd (plan_recovery ''b''
     \<lparr>f_states = [(''c'', StateFailed), (''b'', StateUnknown), (''a'', StateReady)],
      f_markers = {}, f_inflight = {}\<rparr> {''a''}))"
  (is "plan_recovery _ ?f _ = _ \<and> _")
proof
  show "plan_recovery ''b'' ?f {''a''} = ([''b'', ''a'', ''c''], [])" by code_simp
  have d: "distinct (model_keys ?f)" by code_simp
  show "distinct (fst (plan_recovery ''b'' ?f {''a''}) @ snd (plan_recovery ''b'' ?f {''a''}))"
    using recovery_plan [OF d, of "''b''" "{''a''}"] by blast
qed

text \<open>The plan does not depend on the order in which Go ranges over the map of states.\<close>

theorem recovery_plan_ignores_map_order:
  assumes "mset (f_states g) = mset (f_states f)" "distinct (model_keys f)"
    and "f_markers g = f_markers f" "f_inflight g = f_inflight f"
  shows "plan_recovery target g uf = plan_recovery target f uf"
  by (rule plan_perm) (use assms in auto)

theorem recovery_plan_ignores_map_order_witness:
  "plan_recovery ''b'' \<lparr>f_states = [(''a'', StateFailed), (''b'', StateUnknown)], f_markers = {}, f_inflight = {}\<rparr> {}
   = plan_recovery ''b'' \<lparr>f_states = [(''b'', StateUnknown), (''a'', StateFailed)], f_markers = {}, f_inflight = {}\<rparr> {}"
  by (rule recovery_plan_ignores_map_order) (simp_all add: model_keys_def)

text \<open>A failed unload refuses whatever request is at the head when it ends, also when the request
  that asked for the unload has left the queue and the head is for another model.\<close>

theorem failed_unload_answers_the_head:
  assumes "phase s = PhaseUnloading" "queued s = r # rs" "\<not> err_is e (Sched ErrDrainTimeout)"
  shows "\<exists>es. out (on_unload_done h (Some e) s) = out s @ EGrantError (req_id r) (Sched ErrUnloadBlocked) # es"
proof -
  let ?s1 = "s\<lparr>unloadFail := unloadFail s \<union> set (swapEvict s), phase := PhaseIdle, unloadBegan := False\<rparr>"
  let ?t = "fail_head r rs (Sched ErrUnloadBlocked) ?s1"
  have "on_unload_done h (Some e) s = try_dispatch h ?t"
    using assms by (simp add: on_unload_done_def Let_def)
  moreover have "out ?t = out s @ [EGrantError (req_id r) (Sched ErrUnloadBlocked)]"
    by (simp add: fail_head_def grant_error_def emit_def)
  ultimately show ?thesis using try_dispatch_emits [of h ?t] by (auto simp: emits_def)
qed

text \<open>Request 1 asked for \<open>b\<close> and was cancelled; request 2 for \<open>a\<close>, which is ready, is refused.\<close>

definition orphaned :: fifo where
  "orphaned = run fifo_step unloading [(a_ready, OnRequest (demo_req 2 ''a'')), (a_ready, OnCancel 1)]"

theorem failed_unload_answers_the_head_witness:
  "swapTarget orphaned = ''b'' \<and> queued orphaned = [demo_req 2 ''a'']
   \<and> (\<exists>es. out (on_unload_done a_ready (Some (Plain ''HTTP 500'')) orphaned)
        = out orphaned @ EGrantError 2 (Sched ErrUnloadBlocked) # es)"
proof -
  have p: "phase orphaned = PhaseUnloading" and q: "queued orphaned = [demo_req 2 ''a'']"
    and t: "swapTarget orphaned = ''b''"
    by code_simp+
  show ?thesis
    using failed_unload_answers_the_head [OF p q, of "Plain ''HTTP 500''" a_ready] q t
    by (simp add: demo_req_def)
qed

end
