(* ===== verification/Budget.thy ===== *)
theory Budget
  imports Config Resource Planner "HOL-Library.Product_Lexorder"
begin

text \<open>
  The router's state (\<^verbatim>\<open>internal/router/base.go\<close>) and its GPU ledger (\<^verbatim>\<open>budget.go\<close>): what each model
  is assumed to hold, whether a target fits, which resident model is evicted, and the admission of
  a load. \<open>view\<close> is what a handler reads of the world while it runs on the loop: the local states
  of the runtimes in map order, the loads in flight, the router's clock and the wall clock, the
  order in which the marker map yields its keys, and the outcomes of the channel operations on the
  requests.
\<close>

section \<open>State\<close>

record view =
  v_states :: "(model_id \<times> rstate) list"
  v_inflight :: "model_id set"
  v_now :: gtime
  v_wall :: gtime
  v_marks :: "model_id list"
  v_serve :: "nat \<Rightarrow> bool"
  v_gone :: "nat \<Rightarrow> bool"
  v_admit :: "nat \<Rightarrow> bool"

record router =
  r_cfg :: config
  r_sched :: fifo
  r_shutting :: bool
  r_lastStatus :: "model_id \<rightharpoonup> status"
  r_device :: string
  r_snap :: snapshot
  r_reserved :: "model_id \<rightharpoonup> int64"
  r_lastUse :: "model_id \<Rightarrow> gtime"
  r_loadedAt :: "model_id \<Rightarrow> gtime"
  r_loadSerial :: model_id
  r_bootGPU :: bool
  r_unconfirmed :: "model_id list"
  r_residualAfter :: "model_id \<rightharpoonup> gtime"

definition models_of :: "router \<Rightarrow> (model_id \<times> model) list" where
  "models_of r = c_models (r_cfg r)"

definition model_at :: "router \<Rightarrow> model_id \<Rightarrow> model option" where
  "model_at r i = map_of (models_of r) i"

definition router_state :: "view \<Rightarrow> model_id \<Rightarrow> rstate option" where
  "router_state v i = map_of (v_states v) i"

definition router_running :: "view \<Rightarrow> (model_id \<times> rstate) list" where
  "router_running v =
     filter (\<lambda>(i, st). st \<noteq> StateStopped \<and> st \<noteq> StateUnknown \<and> st \<noteq> StateShutdown) (v_states v)"

section \<open>The snapshot\<close>

definition observe_age :: "router \<Rightarrow> gdur" where
  "observe_age r = (if g_maxAge (c_gpu (r_cfg r)) > 0 then g_maxAge (c_gpu (r_cfg r)) else 5 * second)"

definition margin :: "router \<Rightarrow> int64" where
  "margin r = g_margin (c_gpu (r_cfg r))"

definition gpu_fresh :: "view \<Rightarrow> router \<Rightarrow> bool" where
  "gpu_fresh v r = (r_bootGPU r \<and> fresh (r_snap r) (v_wall v) (observe_age r))"

section \<open>What a model holds\<close>

definition residual_of :: "model \<Rightarrow> int64" where
  "residual_of m = pr_residual (m_profile m)"

definition bound_for :: "view \<Rightarrow> router \<Rightarrow> model_id \<Rightarrow> model \<Rightarrow> bool \<Rightarrow> int64 option" where
  "bound_for v r i m as_load =
     (if as_load then Some (load_bound m)
      else case r_reserved r i of
        Some b \<Rightarrow> Some b
      | None \<Rightarrow>
          (case router_state v i of
             None \<Rightarrow> None
           | Some st \<Rightarrow>
               if st = StateReady \<or> st = StateStarting \<or> st = StateStopping then Some (load_bound m)
               else if st = StateStopped then Some (residual_of m)
               else None))"

text \<open>A loop over the models that gives up at the first one without a bound.\<close>

fun collect_holds ::
  "(model_id \<Rightarrow> model \<Rightarrow> int64 option) \<Rightarrow> (model_id \<times> model) list \<Rightarrow> hold list option" where
  "collect_holds f [] = Some []"
| "collect_holds f ((i, m) # ms) =
     (case f i m of
        None \<Rightarrow> None
      | Some b \<Rightarrow>
          map_option (\<lambda>hs. \<lparr>hold_id = i, bound = b, attributed = 0\<rparr> # hs) (collect_holds f ms))"

definition fits_now :: "view \<Rightarrow> router \<Rightarrow> model_id \<Rightarrow> bool" where
  "fits_now v r target =
     (case collect_holds (\<lambda>i m. bound_for v r i m (i = target)) (models_of r) of
        None \<Rightarrow> False
      | Some hs \<Rightarrow> fits (free (r_snap r)) (margin r) hs)"

definition rest_bound :: "view \<Rightarrow> router \<Rightarrow> model_id \<Rightarrow> model_id \<Rightarrow> model \<Rightarrow> int64 option" where
  "rest_bound v r target i m =
     (if i = target then Some (load_bound m)
      else if r_residualAfter r i \<noteq> None then Some (load_bound m)
      else case router_state v i of
        None \<Rightarrow> None
      | Some st \<Rightarrow>
          if st = StateUnknown \<or> st = StateFailed \<or> st = StateShutdown then None
          else Some (residual_of m))"

definition fits_if_rest_residual :: "view \<Rightarrow> router \<Rightarrow> model_id \<Rightarrow> bool" where
  "fits_if_rest_residual v r target =
     (case collect_holds (rest_bound v r target) (models_of r) of
        None \<Rightarrow> False
      | Some hs \<Rightarrow> fits (total (r_snap r)) (margin r) hs)"

definition others_at_residual :: "view \<Rightarrow> router \<Rightarrow> model_id \<Rightarrow> bool" where
  "others_at_residual v r target =
     list_all (\<lambda>(i, m). i = target
        \<or> r_residualAfter r i = None \<and> bound_for v r i m False = Some (residual_of m)
          \<and> router_state v i = Some StateStopped) (models_of r)"

definition admit_without_evict :: "view \<Rightarrow> router \<Rightarrow> model_id \<Rightarrow> bool" where
  "admit_without_evict v r target =
     (if fits_now v r target then True
      else fits_if_rest_residual v r target \<and> others_at_residual v r target)"

section \<open>Choosing a victim\<close>

text \<open>The time the victims are ordered by: the last use, or the load when never used.\<close>

definition used_at :: "router \<Rightarrow> model_id \<Rightarrow> gtime" where
  "used_at r i = (if is_zero_time (r_lastUse r i) then r_loadedAt r i else r_lastUse r i)"

definition resident_candidates :: "view \<Rightarrow> router \<Rightarrow> model_id list \<Rightarrow> model_id \<Rightarrow> (model_id \<times> gtime) list" where
  "resident_candidates v r running target =
     map (\<lambda>i. (i, used_at r i))
       (filter (\<lambda>i. i \<noteq> target \<and> router_state v i = Some StateReady) running)"

definition oldest_resident :: "view \<Rightarrow> router \<Rightarrow> model_id list \<Rightarrow> model_id \<Rightarrow> model_id" where
  "oldest_resident v r running target =
     (case sort_key (\<lambda>c. (snd c, fst c)) (resident_candidates v r running target) of
        [] \<Rightarrow> ''''
      | c # _ \<Rightarrow> fst c)"

definition decide :: "view \<Rightarrow> router \<Rightarrow> model_id \<Rightarrow> model_id list \<Rightarrow> goerr + model_id list" where
  "decide v r target running =
     (if router_state v target = Some StateReady then Inr []
      else if \<not> gpu_fresh v r then Inl (Sched ErrNotBooted)
      else if admit_without_evict v r target then Inr []
      else if \<not> fits_if_rest_residual v r target then Inl (Sched ErrResources)
      else
        let victim = oldest_resident v r running target in
        if victim = '''' then Inl (Sched ErrResources) else Inr [victim])"

definition router_eviction :: "view \<Rightarrow> router \<Rightarrow> model_id \<Rightarrow> model_id list \<Rightarrow> model_id list" where
  "router_eviction v r target running =
     (case decide v r target running of Inl _ \<Rightarrow> [] | Inr evict \<Rightarrow> evict)"

text \<open>\<open>exclusiveSwapper\<close> of \<^verbatim>\<open>exclusive.go\<close>: everything but the target.\<close>

definition exclusive_eviction :: "model_id \<Rightarrow> model_id list \<Rightarrow> model_id list" where
  "exclusive_eviction target running = filter (\<lambda>i. i \<noteq> target) running"

section \<open>Admission of a load\<close>

definition admit_load :: "view \<Rightarrow> model_id \<Rightarrow> router \<Rightarrow> goerr option \<times> router" where
  "admit_load v i r =
     (if r_shutting r then (Some (Sched ErrShutdown), r)
      else if \<not> gpu_fresh v r then (Some (Sched ErrNotBooted), r)
      else if r_loadSerial r \<noteq> '''' \<and> r_loadSerial r \<noteq> i then (Some (Sched ErrResources), r)
      else if \<not> admit_without_evict v r i then (Some (Sched ErrResources), r)
      else case model_at r i of
        None \<Rightarrow> (Some (Sched ErrModelNotFound), r)
      | Some m \<Rightarrow> (None, r\<lparr>r_reserved := (r_reserved r)(i \<mapsto> load_bound m), r_loadSerial := i\<rparr>))"

definition grant_load :: "view \<Rightarrow> model_id \<Rightarrow> router \<Rightarrow> goerr option \<times> router" where
  "grant_load v i r = admit_load v i r"

section \<open>Book-keeping\<close>

definition note_use :: "view \<Rightarrow> model_id \<Rightarrow> router \<Rightarrow> router" where
  "note_use v i r = r\<lparr>r_lastUse := (r_lastUse r)(i := v_now v)\<rparr>"

definition note_recovered_ready :: "view \<Rightarrow> model_id \<Rightarrow> router \<Rightarrow> router" where
  "note_recovered_ready v i r =
     (if is_zero_time (r_loadedAt r i) \<and> is_zero_time (r_lastUse r i)
      then r\<lparr>r_loadedAt := (r_loadedAt r)(i := v_now v)\<rparr> else r)"

definition note_loaded :: "view \<Rightarrow> model_id \<Rightarrow> router \<Rightarrow> router" where
  "note_loaded v i r =
     (let r1 = r\<lparr>r_loadedAt := (r_loadedAt r)(i := v_now v)\<rparr>;
          r2 = (if is_zero_time (r_lastUse r1 i)
                then r1\<lparr>r_lastUse := (r_lastUse r1)(i := v_now v)\<rparr> else r1)
      in case model_at r2 i of
           None \<Rightarrow> r2
         | Some m \<Rightarrow> r2\<lparr>r_reserved := (r_reserved r2)(i \<mapsto> load_bound m)\<rparr>)"

definition hold_residual :: "model_id \<Rightarrow> router \<Rightarrow> router" where
  "hold_residual i r =
     (case model_at r i of
        None \<Rightarrow> r
      | Some m \<Rightarrow> r\<lparr>r_reserved := (r_reserved r)(i \<mapsto> residual_of m)\<rparr>)"

section \<open>The planner's contract\<close>

lemma sort_key_head:
  assumes "sort_key f xs = c # cs"
  shows "c \<in> set xs \<and> (\<forall>x \<in> set xs. f c \<le> f x)"
proof -
  have "set (c # cs) = set xs" by (metis assms set_sort)
  moreover have "sorted (map f (c # cs))" by (metis assms sorted_sort_key)
  ultimately show ?thesis by auto
qed

lemma oldest_resident_spec:
  assumes "oldest_resident v r running target = w" "w \<noteq> ''''"
  shows "w \<in> set running \<and> w \<noteq> target \<and> router_state v w = Some StateReady
    \<and> (\<forall>i \<in> set running. i \<noteq> target \<longrightarrow> router_state v i = Some StateReady \<longrightarrow>
         used_at r w < used_at r i \<or> used_at r w = used_at r i \<and> w \<le> i)"
proof -
  obtain c cs where c: "sort_key (\<lambda>c. (snd c, fst c)) (resident_candidates v r running target) = c # cs"
    "w = fst c"
    using assms by (auto simp: oldest_resident_def split: list.splits)
  note h = sort_key_head [OF c(1)]
  have "snd c = used_at r (fst c)" using h by (auto simp: resident_candidates_def)
  then show ?thesis using h c(2) by (auto simp: resident_candidates_def)
qed

lemma decide_cases:
  assumes "decide v r target running = Inr vs"
  shows "vs = [] \<and> (router_state v target = Some StateReady
             \<or> gpu_fresh v r \<and> admit_without_evict v r target)
    \<or> (vs = [oldest_resident v r running target] \<and> oldest_resident v r running target \<noteq> ''''
         \<and> gpu_fresh v r \<and> fits_if_rest_residual v r target \<and> \<not> admit_without_evict v r target)"
  using assms by (auto simp: decide_def Let_def split: if_splits)

lemma decide_victims:
  "decide v r target running = Inr vs \<Longrightarrow> set vs \<subseteq> set running \<and> target \<notin> set vs \<and> length vs \<le> 1"
  using decide_cases [of v r target running vs]
    oldest_resident_spec [of v r running target "oldest_resident v r running target"]
  by auto

interpretation router_planner: decider "decide v r" "router_eviction v r" for v r
  by unfold_locales (use decide_victims in \<open>auto simp: router_eviction_def\<close>)

interpretation exclusive: evictor "\<lambda>target running. Inr (exclusive_eviction target running)"
  by unfold_locales (auto simp: exclusive_eviction_def)

section \<open>Capacity\<close>

text \<open>
  A ledger entry is the peak or the residual of its model, so every claim lies between zero and
  the peak, and as long as the peaks together stay below \<open>2 ^ 63\<close> the budget arithmetic is exact.
\<close>

definition ledger_ok :: "router \<Rightarrow> bool" where
  "ledger_ok r =
     (\<forall>i b. r_reserved r i = Some b \<longrightarrow>
        (\<exists>m. model_at r i = Some m \<and> (b = load_bound m \<or> b = residual_of m)))"

definition peaks_fit :: "router \<Rightarrow> bool" where
  "peaks_fit r = ((\<Sum>im \<leftarrow> models_of r. sint (load_bound (snd im))) < 2 ^ 63)"

definition capacity_ok :: "router \<Rightarrow> bool" where
  "capacity_ok r = (config_ok (r_cfg r) \<and> ledger_ok r \<and> peaks_fit r)"

text \<open>The bytes all models are assumed to hold.\<close>

definition planned :: "view \<Rightarrow> router \<Rightarrow> int" where
  "planned v r = (\<Sum>im \<leftarrow> models_of r. sint (the (bound_for v r (fst im) (snd im) False)))"

lemma collect_holds_eq:
  "collect_holds f ms =
     (if \<forall>(i, m) \<in> set ms. f i m \<noteq> None
      then Some (map (\<lambda>(i, m). \<lparr>hold_id = i, bound = the (f i m), attributed = 0\<rparr>) ms) else None)"
proof (induction ms)
  case (Cons im ms)
  obtain i m where im: "im = (i, m)" by (cases im)
  show ?case by (cases "f i m") (simp_all add: im Cons.IH)
qed simp

lemma fits_collect:
  assumes "\<And>i m b. (i, m) \<in> set ms \<Longrightarrow> f i m = Some b \<Longrightarrow> 0 \<le> sint b \<and> sint b \<le> sint (load_bound m)"
    and "(\<Sum>im \<leftarrow> ms. sint (load_bound (snd im))) < 2 ^ 63"
  shows "(case collect_holds f ms of None \<Rightarrow> False | Some hs \<Rightarrow> fits fr mg hs) \<longleftrightarrow>
    (\<forall>(i, m) \<in> set ms. f i m \<noteq> None) \<and> 0 \<le> sint mg \<and> sint mg \<le> sint fr
    \<and> (\<Sum>im \<leftarrow> ms. sint (the (f (fst im) (snd im)))) \<le> sint fr - sint mg"
proof (cases "\<forall>(i, m) \<in> set ms. f i m \<noteq> None")
  case True
  let ?hs = "map (\<lambda>(i, m). \<lparr>hold_id = i, bound = the (f i m), attributed = 0\<rparr>) ms"
  have rng: "0 \<le> sint (the (f (fst im) (snd im))) \<and> sint (the (f (fst im) (snd im))) \<le> sint (load_bound (snd im))"
    if "im \<in> set ms" for im
    using True that assms(1) [of "fst im" "snd im"] by fastforce
  have sum: "(\<Sum>h \<leftarrow> ?hs. held h) = (\<Sum>im \<leftarrow> ms. sint (the (f (fst im) (snd im))))"
    by (rule arg_cong [where f = sum_list]) (use rng in \<open>auto simp: held_def\<close>)
  also have "\<dots> \<le> (\<Sum>im \<leftarrow> ms. sint (load_bound (snd im)))"
    by (rule sum_list_mono) (use rng in auto)
  finally have "(\<Sum>h \<leftarrow> ?hs. held h) < 2 ^ 63" using assms(2) by linarith
  moreover have "list_all hold_wf ?hs" by (auto simp: list_all_iff hold_wf_def)
  ultimately show ?thesis
    using True sum by (simp add: collect_holds_eq fits_exact)
next
  case False
  then show ?thesis by (auto simp: collect_holds_eq)
qed

lemma models_distinct: "config_ok (r_cfg r) \<Longrightarrow> distinct (map fst (models_of r))"
  by (simp add: config_ok_def models_of_def distinct_model_keys)

lemma model_at_mem: "config_ok (r_cfg r) \<Longrightarrow> (i, m) \<in> set (models_of r) \<longleftrightarrow> model_at r i = Some m"
  using models_distinct by (simp add: model_at_def)

lemma model_bounds:
  assumes "config_ok (r_cfg r)" "(i, m) \<in> set (models_of r)"
  shows "0 \<le> sint (residual_of m) \<and> sint (residual_of m) \<le> sint (load_bound m)"
proof -
  have "model_ok i m" using assms by (auto simp: config_ok_def models_of_def)
  then show ?thesis by (simp add: model_ok_def residual_of_def)
qed

lemma bound_for_range:
  assumes "capacity_ok r" "(i, m) \<in> set (models_of r)" "bound_for v r i m asl = Some b"
  shows "0 \<le> sint b \<and> sint b \<le> sint (load_bound m)"
proof -
  have c: "config_ok (r_cfg r)" "ledger_ok r" using assms(1) by (simp_all add: capacity_ok_def)
  have "b = load_bound m \<or> b = residual_of m" if "r_reserved r i = Some b"
    using that assms(2) c(2) model_at_mem [OF c(1), of i m] unfolding ledger_ok_def
    by (metis option.inject)
  then have "b = load_bound m \<or> b = residual_of m"
    using assms(3) by (auto simp: bound_for_def split: if_splits option.splits)
  then show ?thesis using model_bounds [OF c(1) assms(2)] by auto
qed

lemma rest_bound_range:
  assumes "capacity_ok r" "(i, m) \<in> set (models_of r)" "rest_bound v r t i m = Some b"
  shows "0 \<le> sint b \<and> sint b \<le> sint (load_bound m)"
proof -
  have "b = load_bound m \<or> b = residual_of m"
    using assms(3) by (auto simp: rest_bound_def split: if_splits option.splits)
  then show ?thesis using model_bounds [of r i m] assms(1,2) by (auto simp: capacity_ok_def)
qed

lemma fits_now_iff:
  assumes "capacity_ok r"
  shows "fits_now v r t \<longleftrightarrow>
    (\<forall>(i, m) \<in> set (models_of r). bound_for v r i m (i = t) \<noteq> None)
    \<and> 0 \<le> sint (margin r) \<and> sint (margin r) \<le> sint (free (r_snap r))
    \<and> (\<Sum>im \<leftarrow> models_of r. sint (the (bound_for v r (fst im) (snd im) (fst im = t))))
        \<le> sint (free (r_snap r)) - sint (margin r)"
  unfolding fits_now_def
  by (rule fits_collect) (use assms bound_for_range in \<open>auto simp: capacity_ok_def peaks_fit_def\<close>)

lemma fits_rest_iff:
  assumes "capacity_ok r"
  shows "fits_if_rest_residual v r t \<longleftrightarrow>
    (\<forall>(i, m) \<in> set (models_of r). rest_bound v r t i m \<noteq> None)
    \<and> 0 \<le> sint (margin r) \<and> sint (margin r) \<le> sint (total (r_snap r))
    \<and> (\<Sum>im \<leftarrow> models_of r. sint (the (rest_bound v r t (fst im) (snd im))))
        \<le> sint (total (r_snap r)) - sint (margin r)"
  unfolding fits_if_rest_residual_def
  by (rule fits_collect) (use assms rest_bound_range in \<open>auto simp: capacity_ok_def peaks_fit_def\<close>)

text \<open>Admission: everything held, the new load at its peak, is within the free or the total bytes.\<close>

lemma admit_load_safe:
  assumes ok: "capacity_ok r" and adm: "admit_load v i r = (None, r')"
  shows "gpu_fresh v r \<and> \<not> r_shutting r \<and> (r_loadSerial r = '''' \<or> r_loadSerial r = i)
    \<and> r_loadSerial r' = i
    \<and> planned v r' + sint (margin r)
        \<le> (if fits_now v r i then sint (free (r_snap r)) else sint (total (r_snap r)))"
proof -
  obtain m where m: "model_at r i = Some m"
    and r': "r' = r\<lparr>r_reserved := (r_reserved r)(i \<mapsto> load_bound m), r_loadSerial := i\<rparr>"
    and g: "gpu_fresh v r" "\<not> r_shutting r" "r_loadSerial r = '''' \<or> r_loadSerial r = i"
    and a: "admit_without_evict v r i"
    using adm by (auto simp: admit_load_def split: if_splits option.splits)
  have mem: "(i, m') \<in> set (models_of r) \<Longrightarrow> m' = m" for m'
    using ok m by (simp add: capacity_ok_def model_at_mem)
  have b: "bound_for v r' j n False = bound_for v r j n (j = i)" if "(j, n) \<in> set (models_of r)" for j n
    using that mem by (auto simp: bound_for_def r')
  have models: "models_of r' = models_of r" by (simp add: r' models_of_def)
  have p: "planned v r' = (\<Sum>im \<leftarrow> models_of r. sint (the (bound_for v r (fst im) (snd im) (fst im = i))))"
    unfolding planned_def models by (rule arg_cong [where f = sum_list]) (auto simp: b)
  have "planned v r' + sint (margin r)
        \<le> (if fits_now v r i then sint (free (r_snap r)) else sint (total (r_snap r)))"
  proof (cases "fits_now v r i")
    case True
    then show ?thesis using fits_now_iff [OF ok, of v i] p by simp
  next
    case False
    then have f: "fits_if_rest_residual v r i" and o: "others_at_residual v r i"
      using a by (auto simp: admit_without_evict_def)
    have "bound_for v r j n (j = i) = rest_bound v r i j n" if "(j, n) \<in> set (models_of r)" for j n
      using o that by (auto simp: others_at_residual_def list_all_iff rest_bound_def bound_for_def)
    then have "planned v r' = (\<Sum>im \<leftarrow> models_of r. sint (the (rest_bound v r i (fst im) (snd im))))"
      unfolding p by (intro arg_cong [where f = sum_list]) auto
    then show ?thesis using fits_rest_iff [OF ok, of v i] f False by simp
  qed
  then show ?thesis using g r' by simp
qed

lemma admit_load_serial:
  "r_loadSerial r \<noteq> '''' \<Longrightarrow> r_loadSerial r \<noteq> i \<Longrightarrow> fst (admit_load v i r) \<noteq> None \<and> snd (admit_load v i r) = r"
  by (auto simp: admit_load_def)

section \<open>The order of the models does not matter\<close>

definition with_models :: "(model_id \<times> model) list \<Rightarrow> router \<Rightarrow> router" where
  "with_models ms r = r\<lparr>r_cfg := (r_cfg r)\<lparr>c_models := ms\<rparr>\<rparr>"

lemma sum_list_mset: "mset xs = mset ys \<Longrightarrow> (\<Sum>x\<leftarrow>xs. f x) = (\<Sum>x\<leftarrow>ys. f x :: int)"
  by (metis mset_map sum_mset_sum_list)

lemma fits_collect_perm:
  assumes "\<And>i m b. (i, m) \<in> set ms \<Longrightarrow> f i m = Some b \<Longrightarrow> 0 \<le> sint b \<and> sint b \<le> sint (load_bound m)"
    and "(\<Sum>im \<leftarrow> ms. sint (load_bound (snd im))) < 2 ^ 63" and "mset ns = mset ms"
  shows "(case collect_holds f ns of None \<Rightarrow> False | Some hs \<Rightarrow> fits fr mg hs)
       = (case collect_holds f ms of None \<Rightarrow> False | Some hs \<Rightarrow> fits fr mg hs)"
proof -
  have s: "set ns = set ms" using assms(3) by (rule mset_eq_setD)
  show ?thesis
    using fits_collect [of ms f fr mg] fits_collect [of ns f fr mg] assms(1,2) s
      sum_list_mset [OF assms(3), of "\<lambda>im. sint (load_bound (snd im))"]
      sum_list_mset [OF assms(3), of "\<lambda>im. sint (the (f (fst im) (snd im)))"]
    by simp
qed

lemma bound_for_with_models [simp]: "bound_for v (with_models ms r) = bound_for v r"
  by (auto simp: bound_for_def with_models_def fun_eq_iff)

lemma rest_bound_with_models [simp]: "rest_bound v (with_models ms r) = rest_bound v r"
  by (auto simp: rest_bound_def with_models_def fun_eq_iff)

lemma used_at_with_models [simp]: "used_at (with_models ms r) = used_at r"
  by (simp add: used_at_def with_models_def fun_eq_iff)

lemma with_models_frame [simp]:
  "models_of (with_models ms r) = ms" "margin (with_models ms r) = margin r"
  "r_snap (with_models ms r) = r_snap r" "gpu_fresh v (with_models ms r) = gpu_fresh v r"
  "r_residualAfter (with_models ms r) = r_residualAfter r"
  "r_bootGPU (with_models ms r) = r_bootGPU r" "observe_age (with_models ms r) = observe_age r"
  by (simp_all add: with_models_def models_of_def margin_def gpu_fresh_def observe_age_def)

lemma oldest_with_models [simp]: "oldest_resident v (with_models ms r) = oldest_resident v r"
  by (simp add: oldest_resident_def resident_candidates_def fun_eq_iff)

lemma admit_perm:
  assumes "capacity_ok r" "mset ms = mset (models_of r)"
  shows "fits_if_rest_residual v (with_models ms r) t = fits_if_rest_residual v r t"
    and "admit_without_evict v (with_models ms r) t = admit_without_evict v r t"
proof -
  have n: "fits_now v (with_models ms r) t = fits_now v r t"
    unfolding fits_now_def with_models_frame bound_for_with_models
    by (rule fits_collect_perm)
      (use assms bound_for_range in \<open>auto simp: capacity_ok_def peaks_fit_def\<close>)
  show f: "fits_if_rest_residual v (with_models ms r) t = fits_if_rest_residual v r t"
    unfolding fits_if_rest_residual_def with_models_frame rest_bound_with_models
    by (rule fits_collect_perm)
      (use assms rest_bound_range in \<open>auto simp: capacity_ok_def peaks_fit_def\<close>)
  have "others_at_residual v (with_models ms r) t = others_at_residual v r t"
    using mset_eq_setD [OF assms(2)] by (simp add: others_at_residual_def list_all_iff)
  then show "admit_without_evict v (with_models ms r) t = admit_without_evict v r t"
    using n f by (simp add: admit_without_evict_def)
qed

lemma decide_perm:
  "capacity_ok r \<Longrightarrow> mset ms = mset (models_of r) \<Longrightarrow>
     decide v (with_models ms r) t running = decide v r t running"
  by (simp add: decide_def admit_perm)

section \<open>The ledger invariant\<close>

lemma capacity_ok_cong:
  "capacity_ok r \<Longrightarrow> r_cfg r' = r_cfg r \<Longrightarrow> r_reserved r' = r_reserved r \<Longrightarrow> capacity_ok r'"
  by (simp add: capacity_ok_def ledger_ok_def peaks_fit_def model_at_def models_of_def)

lemma capacity_ok_reserve:
  assumes "capacity_ok r" "model_at r i = Some m" "b = load_bound m \<or> b = residual_of m"
  shows "capacity_ok (r\<lparr>r_reserved := (r_reserved r)(i \<mapsto> b)\<rparr>)"
  using assms by (auto simp: capacity_ok_def ledger_ok_def peaks_fit_def model_at_def models_of_def)

lemma capacity_ok_delete:
  "capacity_ok r \<Longrightarrow> capacity_ok (r\<lparr>r_reserved := (r_reserved r)(i := None)\<rparr>)"
  by (auto simp: capacity_ok_def ledger_ok_def peaks_fit_def model_at_def models_of_def)

lemma capacity_ok_note_loaded: "capacity_ok r \<Longrightarrow> capacity_ok (note_loaded v i r)"
proof -
  assume c: "capacity_ok r"
  define r1 where "r1 = r\<lparr>r_loadedAt := (r_loadedAt r)(i := v_now v)\<rparr>"
  define r2 where "r2 = (if is_zero_time (r_lastUse r1 i)
    then r1\<lparr>r_lastUse := (r_lastUse r1)(i := v_now v)\<rparr> else r1)"
  have "capacity_ok r2" by (rule capacity_ok_cong [OF c]) (simp_all add: r2_def r1_def)
  then show ?thesis
    unfolding note_loaded_def Let_def r1_def [symmetric] r2_def [symmetric]
    by (auto split: option.split intro!: capacity_ok_reserve)
qed

lemma capacity_ok_hold_residual: "capacity_ok r \<Longrightarrow> capacity_ok (hold_residual i r)"
  by (auto simp: hold_residual_def split: option.split intro!: capacity_ok_reserve)

lemma capacity_ok_admit: "capacity_ok r \<Longrightarrow> capacity_ok (snd (admit_load v i r))"
proof -
  assume c: "capacity_ok r"
  have "capacity_ok (r\<lparr>r_reserved := (r_reserved r)(i \<mapsto> load_bound m), r_loadSerial := i\<rparr>)"
    if "model_at r i = Some m" for m
    by (rule capacity_ok_cong [OF capacity_ok_reserve [OF c that]]) auto
  then show ?thesis using c by (simp add: admit_load_def split: option.split)
qed

end
