(* ===== verification/Router_Recover.thy ===== *)
theory Router_Recover
  imports Budget
begin

text \<open>
  Recovery on the router's side (\<^verbatim>\<open>internal/router/recover.go\<close>): the facts it hands to the scheduler,
  the result of a probe, the tentative change of the ledger, its confirmation or its rollback once
  the client has answered, and the note to the scheduler. \<open>tell\<close> runs one scheduler event with the
  host the router is at that moment.
\<close>

section \<open>The router as the scheduler's host\<close>

definition recovery_facts_of :: "view \<Rightarrow> router \<Rightarrow> facts" where
  "recovery_facts_of v r =
     \<lparr>f_states = v_states v,
      f_markers = set (filter (\<lambda>i. r_residualAfter r i \<noteq> None) (map fst (v_states v))),
      f_inflight = set (filter (\<lambda>i. i \<in> v_inflight v) (map fst (v_states v)))\<rparr>"

definition host_of :: "view \<Rightarrow> router \<Rightarrow> host" where
  "host_of v r =
     \<lparr>model_state = router_state v, running_models = router_running v, clock_now = v_now v,
      planner = Decider (router_eviction v r) (decide v r),
      recovery_facts = Some (recovery_facts_of v r),
      serve_taken = v_serve v, ctx_done = v_gone v, admit_taken = v_admit v\<rparr>"

definition tell :: "view \<Rightarrow> fifo_event \<Rightarrow> router \<Rightarrow> router" where
  "tell v e r = r\<lparr>r_sched := fifo_step (r_sched r) (host_of v r, e)\<rparr>"

section \<open>Probe results\<close>

record recover_event =
  e_token :: nat
  e_model :: model_id
  e_gen :: nat
  e_completedAt :: gtime
  e_status :: status
  e_err :: "goerr option"
  e_kind :: status_err_kind
  e_class :: recovery_class
  e_proof :: nat

text \<open>What the goroutine of \<open>BeginProbe\<close> sends: \<open>result\<close> is the answer of \<open>Client.Status\<close>.\<close>

definition probe_result ::
  "fifo \<Rightarrow> nat \<Rightarrow> model_id \<Rightarrow> nat \<Rightarrow> gtime \<Rightarrow> goerr + status \<Rightarrow> recover_event" where
  "probe_result s token m gen completed result =
     (let err = (case result of Inl e \<Rightarrow> Some e | Inr _ \<Rightarrow> None);
          st = (case result of Inl _ \<Rightarrow> zero_status | Inr st \<Rightarrow> st)
      in \<lparr>e_token = token, e_model = m, e_gen = gen, e_completedAt = completed, e_status = st,
          e_err = err, e_kind = classify_status_err err,
          e_class = (if err = None then classify_recovery st else RecInvalid),
          e_proof = proof_gen s m\<rparr>)"

section \<open>The ledger\<close>

record ledger_snap =
  ls_reserved :: "int64 option"
  ls_marker :: "gtime option"

definition snap_ledger :: "model_id \<Rightarrow> router \<Rightarrow> ledger_snap" where
  "snap_ledger i r = \<lparr>ls_reserved = r_reserved r i, ls_marker = r_residualAfter r i\<rparr>"

definition restore_ledger :: "model_id \<Rightarrow> ledger_snap \<Rightarrow> router \<Rightarrow> router" where
  "restore_ledger i snap r =
     r\<lparr>r_reserved := (r_reserved r)(i := ls_reserved snap),
       r_residualAfter := (r_residualAfter r)(i := ls_marker snap)\<rparr>"

definition ensure_peak :: "model_id \<Rightarrow> router \<Rightarrow> router" where
  "ensure_peak i r =
     (case model_at r i of
        None \<Rightarrow> r
      | Some m \<Rightarrow>
          if (case r_reserved r i of None \<Rightarrow> False | Some cur \<Rightarrow> load_bound m <=s cur) then r
          else r\<lparr>r_reserved := (r_reserved r)(i \<mapsto> load_bound m)\<rparr>)"

definition tentative :: "recover_event \<Rightarrow> router \<Rightarrow> router" where
  "tentative ev r =
     (let i = e_model ev in
      case e_class ev of
        RecReadyIdle \<Rightarrow> ensure_peak i (r\<lparr>r_residualAfter := (r_residualAfter r)(i := None)\<rparr>)
      | RecUnloadedIdle \<Rightarrow>
          (let r1 = ensure_peak i r in
           if (case r_residualAfter r1 i of None \<Rightarrow> True | Some prev \<Rightarrow> prev < e_completedAt ev)
           then r1\<lparr>r_residualAfter := (r_residualAfter r1)(i \<mapsto> e_completedAt ev)\<rparr> else r1)
      | RecFailedNotResidentIdle \<Rightarrow>
          (let r1 = ensure_peak i r in
           if (case r_residualAfter r1 i of None \<Rightarrow> True | Some prev \<Rightarrow> prev < e_completedAt ev)
           then r1\<lparr>r_residualAfter := (r_residualAfter r1)(i \<mapsto> e_completedAt ev)\<rparr> else r1)
      | _ \<Rightarrow> ensure_peak i r)"

definition confirm_recover :: "view \<Rightarrow> recover_event \<Rightarrow> router \<Rightarrow> router" where
  "confirm_recover v ev r =
     (let r1 = r\<lparr>r_lastStatus := (r_lastStatus r)(e_model ev \<mapsto> e_status ev)\<rparr>
      in if e_class ev = RecReadyIdle then note_recovered_ready v (e_model ev) r1 else r1)"

definition finish_shutdown :: "view \<Rightarrow> router \<Rightarrow> router" where
  "finish_shutdown v r = tell v (OnShutdown (Sched ErrShutdown)) r"

section \<open>\<open>onRecover\<close>\<close>

text \<open>
  The outcome of \<open>applyClient\<close>: the code of the client and whether a shutdown request was taken
  meanwhile, or \<open>ShutdownFirst\<close> when the shutdown came before the command was sent (the code
  \<open>-1\<close>).
\<close>

datatype apply_answer = Answered apply_code bool | ShutdownFirst

definition note_of :: "recover_mode \<Rightarrow> recover_event \<Rightarrow> apply_code \<Rightarrow> bool \<Rightarrow> probe_note" where
  "note_of md ev ack applied =
     \<lparr>n_token = e_token ev, n_model = e_model ev, n_mode = md, n_class = e_class ev,
      n_kind = e_kind ev, n_ack = ack, n_active = activeRequests (e_status ev),
      n_proof = e_proof ev, n_applied = applied\<rparr>"

definition on_recover :: "view \<Rightarrow> recover_event \<Rightarrow> apply_answer \<Rightarrow> router \<Rightarrow> router" where
  "on_recover v ev ans r =
     (let md = recover_mode_of (r_sched r) (e_token ev); i = e_model ev in
      if md = RecoverDrop then tell v (OnForget i) r
      else
        let snap = snap_ledger i r;
            r1 = (if e_kind ev \<noteq> StatusErrEndpointDown then tentative ev r else r);
            call = (e_kind ev = StatusErrNone \<and> e_class ev \<noteq> RecInvalid)
        in if \<not> call then tell v (OnProbe (note_of md ev ApplyApplied False)) r1
           else case ans of
             ShutdownFirst \<Rightarrow> finish_shutdown v (restore_ledger i snap r1)
           | Answered ack shut \<Rightarrow>
               let applied = (ack = ApplyApplied) in
               if shut then
                 finish_shutdown v
                   (if applied then confirm_recover v ev r1 else restore_ledger i snap r1)
               else if applied then
                 tell v (OnProbe (note_of md ev ack True)) (confirm_recover v ev r1)
               else
                 let r2 = restore_ledger i snap r1;
                     r3 = (if ack = ApplyBusy then ensure_peak i r2 else r2)
                 in tell v (OnProbe (note_of md ev ack False)) r3)"

section \<open>Rollback\<close>

lemma model_at_frame [simp]:
  "model_at (r\<lparr>r_reserved := a\<rparr>) i = model_at r i"
  "model_at (r\<lparr>r_residualAfter := b\<rparr>) i = model_at r i"
  "model_at (r\<lparr>r_sched := s\<rparr>) i = model_at r i"
  "model_at (r\<lparr>r_lastStatus := c\<rparr>) i = model_at r i"
  "model_at (r\<lparr>r_loadedAt := d\<rparr>) i = model_at r i"
  by (simp_all add: model_at_def models_of_def)

text \<open>Only the model's own entries change before the rollback, so the rollback undoes everything.\<close>

lemma ensure_peak_other: "j \<noteq> i \<Longrightarrow> r_reserved (ensure_peak i r) j = r_reserved r j"
  by (auto simp: ensure_peak_def split: option.split)

lemma ensure_peak_frame [simp]:
  "r_residualAfter (ensure_peak i r) = r_residualAfter r" "r_sched (ensure_peak i r) = r_sched r"
  "r_cfg (ensure_peak i r) = r_cfg r"
  by (auto simp: ensure_peak_def split: option.split)

lemma tentative_frame [simp]:
  "r_sched (tentative ev r) = r_sched r" "r_cfg (tentative ev r) = r_cfg r"
  by (auto simp: tentative_def Let_def split: recovery_class.split)

lemma ensure_peak_form: "\<exists>b. ensure_peak i r = r\<lparr>r_reserved := (r_reserved r)(i := b)\<rparr>"
proof -
  have "ensure_peak i r = r\<lparr>r_reserved := (r_reserved r)(i := r_reserved (ensure_peak i r) i)\<rparr>"
    by (auto simp: ensure_peak_def split: option.split)
  then show ?thesis by blast
qed

lemma tentative_form:
  "\<exists>b mk. tentative ev r = r\<lparr>r_reserved := (r_reserved r)(e_model ev := b),
                           r_residualAfter := (r_residualAfter r)(e_model ev := mk)\<rparr>"
proof -
  let ?i = "e_model ev"
  obtain b where b: "ensure_peak ?i r = r\<lparr>r_reserved := (r_reserved r)(?i := b)\<rparr>"
    using ensure_peak_form by blast
  have swap: "r\<lparr>r_residualAfter := x, r_reserved := y\<rparr> = r\<lparr>r_reserved := y, r_residualAfter := x\<rparr>" for x y
    by (rule router.equality) simp_all
  obtain b' where b': "ensure_peak ?i (r\<lparr>r_residualAfter := (r_residualAfter r)(?i := None)\<rparr>) =
      r\<lparr>r_reserved := (r_reserved r)(?i := b'), r_residualAfter := (r_residualAfter r)(?i := None)\<rparr>"
    using ensure_peak_form [of ?i "r\<lparr>r_residualAfter := (r_residualAfter r)(?i := None)\<rparr>"]
    by (auto simp: swap)
  have same: "r\<lparr>r_reserved := (r_reserved r)(?i := b)\<rparr> =
      r\<lparr>r_reserved := (r_reserved r)(?i := b), r_residualAfter := (r_residualAfter r)(?i := r_residualAfter r ?i)\<rparr>"
    by simp
  show ?thesis
    unfolding tentative_def Let_def b b'
    by (cases "e_class ev"; simp; metis same)
qed

lemma restore_tentative: "restore_ledger (e_model ev) (snap_ledger (e_model ev) r) (tentative ev r) = r"
proof -
  obtain b mk where "tentative ev r = r\<lparr>r_reserved := (r_reserved r)(e_model ev := b),
                           r_residualAfter := (r_residualAfter r)(e_model ev := mk)\<rparr>"
    using tentative_form by blast
  then show ?thesis by (simp add: restore_ledger_def snap_ledger_def)
qed

end
