(* ===== verification/Router.thy ===== *)
theory Router
  imports Router_Recover
begin

text \<open>
  The router's loop (\<^verbatim>\<open>internal/router/base.go\<close>, \<open>run\<close>): construction, one definition per case of the
  select, and the step function over its events. Every handler runs to its end on the loop and
  drives the scheduler only through its handlers, so a run of the router is a run of the scheduler over
  the events the loop passes on (\<open>hands\<close>), and the scheduler's invariants hold in every state the
  router reaches.
\<close>

section \<open>Construction\<close>

definition fifo_config :: "config \<Rightarrow> fifo_cfg" where
  "fifo_config c =
     \<lparr>fc_maxQueue = c_maxQueueSize c, fc_drain = c_drainTimeout c,
      fc_models = map (\<lambda>(i, m). (i, m_concurrencyLimit m)) (c_models c)\<rparr>"

definition device_of :: "config \<Rightarrow> string" where
  "device_of c = (if g_device (c_gpu c) \<noteq> '''' then g_device (c_gpu c) else ''fake'')"

text \<open>\<open>New\<close>: \<open>boot\<close> is the first observation, \<open>None\<close> when the observer fails.\<close>

definition new_router :: "config \<Rightarrow> gtime \<Rightarrow> snapshot option \<Rightarrow> router" where
  "new_router c wall boot =
     (let r = \<lparr>r_cfg = c, r_sched = new_fifo (Some (fifo_config c)), r_shutting = False,
               r_lastStatus = Map.empty, r_device = device_of c, r_snap = zero_snapshot,
               r_reserved = Map.empty, r_lastUse = (\<lambda>_. 0), r_loadedAt = (\<lambda>_. 0),
               r_loadSerial = '''', r_bootGPU = False, r_unconfirmed = [],
               r_residualAfter = Map.empty\<rparr>
      in case boot of
           None \<Rightarrow> r
         | Some s \<Rightarrow>
             if deviceID s = r_device r \<and> fresh s wall (observe_age r)
             then r\<lparr>r_snap := s, r_bootGPU := True\<rparr> else r)"

text \<open>What \<open>pollGPU\<close> sends for one observation.\<close>

definition poll_sample :: "string \<Rightarrow> snapshot option \<Rightarrow> snapshot" where
  "poll_sample device obs =
     (case obs of
        None \<Rightarrow> zero_snapshot
      | Some s \<Rightarrow> if \<not> snap_ok s \<or> deviceID s \<noteq> device then zero_snapshot else s)"

section \<open>Observations\<close>

definition clear_marker :: "model_id \<Rightarrow> router \<Rightarrow> router" where
  "clear_marker i r = (hold_residual i r)\<lparr>r_residualAfter := (r_residualAfter r)(i := None)\<rparr>"

definition cleared_by :: "view \<Rightarrow> snapshot \<Rightarrow> router \<Rightarrow> model_id list" where
  "cleared_by v snap r =
     filter (\<lambda>i. case r_residualAfter r i of None \<Rightarrow> False | Some at \<Rightarrow> at < observedAt snap) (v_marks v)"

definition apply_observation :: "view \<Rightarrow> snapshot \<Rightarrow> router \<Rightarrow> router" where
  "apply_observation v snap r =
     (if \<not> snap_ok snap \<or> deviceID snap \<noteq> r_device r
      then tell v OnSampleFailed (r\<lparr>r_snap := zero_snapshot, r_bootGPU := False\<rparr>)
      else
        let cleared = cleared_by v snap r;
            r1 = fold clear_marker cleared (r\<lparr>r_snap := snap, r_bootGPU := True\<rparr>)
        in fold (\<lambda>i. tell v (OnMarkerCleared i)) cleared r1)"

section \<open>The end of an unload or a load\<close>

record unload_notice =
  un_ids :: "model_id list"
  un_err :: "goerr option"
  un_sample :: snapshot
  un_at :: gtime

definition mark_residual :: "gtime \<Rightarrow> model_id \<Rightarrow> router \<Rightarrow> router" where
  "mark_residual at i r = r\<lparr>r_residualAfter := (r_residualAfter r)(i \<mapsto> at)\<rparr>"

definition finish_unload :: "view \<Rightarrow> unload_notice \<Rightarrow> router \<Rightarrow> router" where
  "finish_unload v n r =
     tell v (OnUnloadDone (un_err n))
       (if un_err n = None
        then apply_observation v (un_sample n) (fold (mark_residual (un_at n)) (un_ids n) r)
        else r)"

definition swap_done :: "view \<Rightarrow> model_id \<Rightarrow> goerr option \<Rightarrow> router \<Rightarrow> router" where
  "swap_done v i err r =
     (let r1 = (if err = None then note_loaded v i r else r);
          r2 = (if r_loadSerial r1 = i then r1\<lparr>r_loadSerial := ''''\<rparr> else r1)
      in tell v (OnSwapDone i err) r2)"

section \<open>The loop\<close>

text \<open>
  \<open>RRemind\<close>, \<open>RReleased\<close> and \<open>RUnconfirmed\<close> are the functions the router sends itself over
  \<open>syncCh\<close>: the drain reminder, and the two steps of \<open>Shutdown\<close> that run on the loop.
\<close>

datatype router_event =
    RShutdown
  | RRequest req
  | RCancel nat
  | RUnload unload_notice
  | RSwapDone model_id "goerr option"
  | RServeDone model_id
  | RProxyStart model_id bool
  | RCancelGranted model_id
  | RStatus model_id status "goerr option" nat
  | RBackendDone model_id
  | RTimeout nat
  | RAdmit model_id
  | RObserve snapshot
  | RRecover recover_event apply_answer
  | RRemind
  | RReleased model_id gtime snapshot
  | RUnconfirmed "model_id list"

fun router_step :: "router \<Rightarrow> view \<times> router_event \<Rightarrow> router" where
  "router_step r (v, RShutdown) = finish_shutdown v r"
| "router_step r (v, RRequest q) = tell v (OnRequest q) r"
| "router_step r (v, RCancel i) = tell v (OnCancel i) r"
| "router_step r (v, RUnload n) = finish_unload v n r"
| "router_step r (v, RSwapDone i err) = swap_done v i err r"
| "router_step r (v, RServeDone i) = tell v (OnServeDone i) (note_use v i r)"
| "router_step r (v, RProxyStart i b) = tell v (OnProxyStart i b) r"
| "router_step r (v, RCancelGranted i) = tell v (OnCancelGranted i) r"
| "router_step r (v, RStatus i st err gen) =
     tell v (OnStatus i (activeRequests st) err gen)
       (if err = None then r\<lparr>r_lastStatus := (r_lastStatus r)(i \<mapsto> st)\<rparr> else r)"
| "router_step r (v, RBackendDone i) = tell v (OnBackendDone i) r"
| "router_step r (v, RTimeout i) = tell v (OnQueueTimeout i) r"
| "router_step r (v, RAdmit i) = snd (grant_load v i r)"
| "router_step r (v, RObserve snap) = apply_observation v snap r"
| "router_step r (v, RRecover ev ans) = on_recover v ev ans r"
| "router_step r (v, RRemind) = tell v OnRemind r"
| "router_step r (v, RReleased i at snap) = apply_observation v snap (mark_residual at i r)"
| "router_step r (v, RUnconfirmed ids) = r\<lparr>r_unconfirmed := ids\<rparr>"

section \<open>The router drives the scheduler\<close>

text \<open>The keys of the runtime map are distinct.\<close>

definition view_ok :: "router \<Rightarrow> view \<times> router_event \<Rightarrow> bool" where
  "view_ok r ve = distinct (map fst (v_states (fst ve)))"

lemma host_ok_view: "distinct (map fst (v_states v)) \<Longrightarrow> host_ok (host_of v r)"
  by (simp add: host_ok_def host_of_def recovery_facts_of_def model_keys_def)

lemma sched_frame [simp]:
  "r_sched (hold_residual i r) = r_sched r" "r_sched (note_loaded v i r) = r_sched r"
  "r_sched (note_recovered_ready v i r) = r_sched r" "r_sched (note_use v i r) = r_sched r"
  "r_sched (snd (admit_load v i r)) = r_sched r" "r_sched (mark_residual at i r) = r_sched r"
  "r_sched (restore_ledger i snap r) = r_sched r" "r_sched (confirm_recover v ev r) = r_sched r"
  by (auto simp: hold_residual_def note_loaded_def Let_def note_recovered_ready_def note_use_def
      admit_load_def mark_residual_def restore_ledger_def confirm_recover_def split: option.split)

lemma sched_clear_marker [simp]: "r_sched (clear_marker i r) = r_sched r"
  by (simp add: clear_marker_def)

lemma sched_fold_clear [simp]: "r_sched (fold clear_marker is r) = r_sched r"
  by (induction "is" arbitrary: r) auto

lemma sched_fold_mark [simp]: "r_sched (fold (mark_residual at) is r) = r_sched r"
  by (induction "is" arbitrary: r) auto

section \<open>What the loop passes on\<close>

text \<open>
  The events of the scheduler that an event of the loop stands for, in their order: one for one, but
  for an observation, which fails the sample or clears markers, for an admission and a change of the
  ledger, which are the router's alone, and for the result of a probe.
\<close>

definition observed_events :: "view \<Rightarrow> snapshot \<Rightarrow> router \<Rightarrow> fifo_event list" where
  "observed_events v snap r =
     (if \<not> snap_ok snap \<or> deviceID snap \<noteq> r_device r then [OnSampleFailed]
      else map OnMarkerCleared (cleared_by v snap r))"

definition probe_events :: "recover_event \<Rightarrow> apply_answer \<Rightarrow> router \<Rightarrow> fifo_event list" where
  "probe_events ev ans r =
     (let md = recover_mode_of (r_sched r) (e_token ev) in
      if md = RecoverDrop then [OnForget (e_model ev)]
      else if e_kind ev \<noteq> StatusErrNone \<or> e_class ev = RecInvalid then [OnProbe (note_of md ev ApplyApplied False)]
      else case ans of
        ShutdownFirst \<Rightarrow> [OnShutdown (Sched ErrShutdown)]
      | Answered ack shut \<Rightarrow>
          if shut then [OnShutdown (Sched ErrShutdown)] else [OnProbe (note_of md ev ack (ack = ApplyApplied))])"

fun forwarded_events :: "router \<Rightarrow> view \<times> router_event \<Rightarrow> fifo_event list" where
  "forwarded_events r (v, RShutdown) = [OnShutdown (Sched ErrShutdown)]"
| "forwarded_events r (v, RRequest q) = [OnRequest q]"
| "forwarded_events r (v, RCancel i) = [OnCancel i]"
| "forwarded_events r (v, RUnload n) =
     (if un_err n = None then observed_events v (un_sample n) (fold (mark_residual (un_at n)) (un_ids n) r) else [])
       @ [OnUnloadDone (un_err n)]"
| "forwarded_events r (v, RSwapDone i err) = [OnSwapDone i err]"
| "forwarded_events r (v, RServeDone i) = [OnServeDone i]"
| "forwarded_events r (v, RProxyStart i b) = [OnProxyStart i b]"
| "forwarded_events r (v, RCancelGranted i) = [OnCancelGranted i]"
| "forwarded_events r (v, RStatus i st err gen) = [OnStatus i (activeRequests st) err gen]"
| "forwarded_events r (v, RBackendDone i) = [OnBackendDone i]"
| "forwarded_events r (v, RTimeout i) = [OnQueueTimeout i]"
| "forwarded_events r (v, RAdmit i) = []"
| "forwarded_events r (v, RObserve snap) = observed_events v snap r"
| "forwarded_events r (v, RRecover ev ans) = probe_events ev ans r"
| "forwarded_events r (v, RRemind) = [OnRemind]"
| "forwarded_events r (v, RReleased i at snap) = observed_events v snap (mark_residual at i r)"
| "forwarded_events r (v, RUnconfirmed ids) = []"

definition forwarded :: "router \<Rightarrow> view \<times> router_event \<Rightarrow> (view \<times> fifo_event) list" where
  "forwarded r ve = map (Pair (fst ve)) (forwarded_events r ve)"

fun forwarded_run :: "router \<Rightarrow> (view \<times> router_event) list \<Rightarrow> (view \<times> fifo_event) list" where
  "forwarded_run r [] = []"
| "forwarded_run r (ve # ves) = forwarded r ve @ forwarded_run (router_step r ve) ves"

text \<open>The scheduler handles the event with a host whose clock, runtimes and requests are those of the view.\<close>

definition handed :: "host \<times> fifo_event \<Rightarrow> view \<times> fifo_event \<Rightarrow> bool" where
  "handed he ve = (snd he = snd ve \<and> (\<exists>r. fst he = host_of (fst ve) r))"

definition hands :: "(view \<times> fifo_event) list \<Rightarrow> router \<Rightarrow> router \<Rightarrow> bool" where
  "hands fs r r' =
     (\<exists>es. r_sched r' = run fifo_step (r_sched r) es \<and> run_ok fifo_step routed (r_sched r) es
       \<and> list_all2 handed es fs)"

lemma hands_same: "r_sched r' = r_sched r \<Longrightarrow> hands [] r r'"
  unfolding hands_def by (intro exI [of _ "[]"]) simp

lemma hands_trans: "hands fs r r' \<Longrightarrow> hands gs r' r'' \<Longrightarrow> hands (fs @ gs) r r''"
  unfolding hands_def
proof (elim exE conjE)
  fix es es'
  assume "r_sched r' = run fifo_step (r_sched r) es" "run_ok fifo_step routed (r_sched r) es" "list_all2 handed es fs"
    and "r_sched r'' = run fifo_step (r_sched r') es'" "run_ok fifo_step routed (r_sched r') es'" "list_all2 handed es' gs"
  then show "\<exists>es. r_sched r'' = run fifo_step (r_sched r) es \<and> run_ok fifo_step routed (r_sched r) es
      \<and> list_all2 handed es (fs @ gs)"
    by (intro exI [of _ "es @ es'"]) (simp add: run_append run_ok_append list_all2_appendI)
qed

lemma hands_tell:
  assumes "distinct (map fst (v_states v))" "r_sched r0 = r_sched r" "\<And>n. e = OnProbe n \<Longrightarrow> note_ok (r_sched r) n"
  shows "hands [(v, e)] r (tell v e r0)"
  unfolding hands_def
  using assms host_ok_view [of v r0]
  by (intro exI [of _ "[(host_of v r0, e)]"])
    (auto simp: tell_def routed_def handed_def split: fifo_event.split)

lemma hands_tell_after:
  assumes "distinct (map fst (v_states v))" "hands fs r r0" "\<And>n. e \<noteq> OnProbe n"
  shows "hands (fs @ [(v, e)]) r (tell v e r0)"
  using hands_trans [OF assms(2) hands_tell] assms(1,3) by auto

lemma hands_markers:
  "distinct (map fst (v_states v)) \<Longrightarrow> hands fs r r0 \<Longrightarrow>
     hands (fs @ map (\<lambda>i. (v, OnMarkerCleared i)) is) r (fold (\<lambda>i. tell v (OnMarkerCleared i)) is r0)"
proof (induction "is" arbitrary: fs r0)
  case (Cons i "is")
  have "hands (fs @ [(v, OnMarkerCleared i)]) r (tell v (OnMarkerCleared i) r0)"
    using Cons.prems by (intro hands_tell_after) auto
  then show ?case using Cons.IH [OF Cons.prems(1)] by fastforce
qed simp

lemma hands_observation:
  assumes "distinct (map fst (v_states v))" "r_sched r0 = r_sched r"
  shows "hands (map (Pair v) (observed_events v snap r0)) r (apply_observation v snap r0)"
proof (cases "\<not> snap_ok snap \<or> deviceID snap \<noteq> r_device r0")
  case True
  then show ?thesis using assms by (auto simp: apply_observation_def observed_events_def intro!: hands_tell)
next
  case False
  let ?r = "fold clear_marker (cleared_by v snap r0) (r0\<lparr>r_snap := snap, r_bootGPU := True\<rparr>)"
  have "hands [] r ?r" using assms(2) by (intro hands_same) simp
  from hands_markers [OF assms(1) this, of "cleared_by v snap r0"] show ?thesis
    using False by (simp add: apply_observation_def observed_events_def Let_def o_def)
qed

lemma hands_recover:
  assumes d: "distinct (map fst (v_states v))"
  shows "hands (map (Pair v) (probe_events ev ans r)) r (on_recover v ev ans r)"
proof (cases "recover_mode_of (r_sched r) (e_token ev) = RecoverDrop")
  case True
  then show ?thesis by (auto simp: on_recover_def probe_events_def Let_def intro!: hands_tell [OF d])
next
  case False
  have n: "note_ok (r_sched r) (note_of (recover_mode_of (r_sched r) (e_token ev)) ev ack b)" for ack b
    using False by (simp add: note_ok_def note_of_def)
  have p: "hands [(v, OnProbe (note_of (recover_mode_of (r_sched r) (e_token ev)) ev ack b))] r
      (tell v (OnProbe (note_of (recover_mode_of (r_sched r) (e_token ev)) ev ack b)) r0)"
    if "r_sched r0 = r_sched r" for ack b r0
    by (rule hands_tell [OF d that]) (use n in auto)
  have f: "hands [(v, OnShutdown (Sched ErrShutdown))] r (finish_shutdown v r0)" if "r_sched r0 = r_sched r" for r0
    unfolding finish_shutdown_def by (rule hands_tell [OF d that]) auto
  show ?thesis
    using False
    by (auto simp: on_recover_def probe_events_def Let_def split: apply_answer.split intro!: p f)
qed

lemma router_step_hands:
  assumes "view_ok r ve"
  shows "hands (forwarded r ve) r (router_step r ve)"
proof -
  obtain v e where ve: "ve = (v, e)" by (cases ve)
  have d: "distinct (map fst (v_states v))" using assms by (simp add: view_ok_def ve)
  note parts = forwarded_def finish_shutdown_def finish_unload_def swap_done_def Let_def grant_load_def
  show ?thesis
  proof (cases e)
    case (RUnload n)
    have "hands (map (Pair v) (observed_events v (un_sample n) (fold (mark_residual (un_at n)) (un_ids n) r)))
        r (apply_observation v (un_sample n) (fold (mark_residual (un_at n)) (un_ids n) r))"
      by (rule hands_observation [OF d]) simp
    then show ?thesis
      using hands_tell_after [OF d] hands_tell [OF d refl, of "OnUnloadDone (un_err n)"] by (auto simp: ve RUnload parts)
  next
    case (RObserve snap)
    then show ?thesis using hands_observation [OF d, of r r snap] by (simp add: ve parts)
  next
    case (RReleased i at snap)
    then show ?thesis using hands_observation [OF d, of "mark_residual at i r" r snap] by (simp add: ve parts)
  next
    case (RRecover ev ans)
    then show ?thesis using hands_recover [OF d, of ev ans r] by (simp add: ve parts)
  qed (use d in \<open>auto simp: ve parts intro!: hands_tell intro: hands_same\<close>)
qed

definition drives :: "router \<Rightarrow> router \<Rightarrow> bool" where
  "drives r r' =
     (\<exists>es. r_sched r' = run fifo_step (r_sched r) es \<and> run_ok fifo_step routed (r_sched r) es)"

lemma router_step_drives: "view_ok r ve \<Longrightarrow> drives r (router_step r ve)"
  using router_step_hands unfolding hands_def drives_def by blast

text \<open>The scheduler's invariants in every state of the router.\<close>

definition sched_inv :: "router \<Rightarrow> bool" where
  "sched_inv r = (counters_ok (r_sched r) \<and> queue_ok (r_sched r) \<and> gates_ok (r_sched r)
     \<and> phase_ok (r_sched r) \<and> gens_ok (r_sched r) \<and> rounds_ok (r_sched r))"


lemma run_inv:
  assumes "\<And>s e. I s \<Longrightarrow> routed s e \<Longrightarrow> I (fifo_step s e)"
  shows "I s \<Longrightarrow> run_ok fifo_step routed s es \<Longrightarrow> I (run fifo_step s es)"
  by (induction es arbitrary: s) (auto intro: assms)

lemma drives_inv:
  assumes "\<And>s e. I s \<Longrightarrow> routed s e \<Longrightarrow> I (fifo_step s e)" "I (r_sched r)" "drives r r'"
  shows "I (r_sched r')"
  using assms(3) run_inv [of I, OF assms(1) assms(2)] by (auto simp: drives_def)

lemma rounds_ok_step: "rounds_ok s \<Longrightarrow> routed s e \<Longrightarrow> rounds_ok (fifo_step s e)"
  using round_event by (simp add: round_step_def)

lemma sched_inv_step: "sched_inv r \<Longrightarrow> view_ok r ve \<Longrightarrow> sched_inv (router_step r ve)"
proof -
  assume I: "sched_inv r" and v: "view_ok r ve"
  have "(\<lambda>s. counters_ok s \<and> queue_ok s \<and> gates_ok s \<and> phase_ok s \<and> gens_ok s \<and> rounds_ok s)
      (r_sched (router_step r ve))"
    by (rule drives_inv [OF _ _ router_step_drives [OF v]])
      (use I in \<open>auto simp: sched_inv_def counters_ok_step queue_ok_step gates_ok_step phase_ok_step
         gens_ok_step rounds_ok_step\<close>)
  then show "sched_inv (router_step r ve)" by (simp add: sched_inv_def)
qed

lemma sched_new_router [simp]: "r_sched (new_router c wall boot) = new_fifo (Some (fifo_config c))"
  by (simp add: new_router_def Let_def split: option.split)

lemma sched_inv_new: "sched_inv (new_router c wall boot)"
  using fifo_inv_new [of "Some (fifo_config c)"] rounds_ok_new
  by (simp add: sched_inv_def fifo_inv_def)

section \<open>The ledger in every state\<close>

lemma cfg_tell [simp]: "r_cfg (tell v e r) = r_cfg r" "r_reserved (tell v e r) = r_reserved r"
  by (simp_all add: tell_def)

lemma capacity_ok_tell [simp]: "capacity_ok (tell v e r) = capacity_ok r"
  by (auto intro: capacity_ok_cong)

lemma capacity_ok_ensure: "capacity_ok r \<Longrightarrow> capacity_ok (ensure_peak i r)"
  by (auto simp: ensure_peak_def split: option.split intro!: capacity_ok_reserve)

lemma capacity_ok_marker [simp]:
  "capacity_ok (r\<lparr>r_residualAfter := x\<rparr>) = capacity_ok r" "capacity_ok (r\<lparr>r_lastStatus := y\<rparr>) = capacity_ok r"
  "capacity_ok (r\<lparr>r_loadedAt := z\<rparr>) = capacity_ok r" "capacity_ok (r\<lparr>r_loadSerial := l\<rparr>) = capacity_ok r"
  "capacity_ok (r\<lparr>r_snap := sn\<rparr>) = capacity_ok r" "capacity_ok (r\<lparr>r_bootGPU := b\<rparr>) = capacity_ok r"
  "capacity_ok (r\<lparr>r_lastUse := u\<rparr>) = capacity_ok r" "capacity_ok (r\<lparr>r_unconfirmed := us\<rparr>) = capacity_ok r"
  by (auto intro: capacity_ok_cong)

lemma capacity_ok_tentative: "capacity_ok r \<Longrightarrow> capacity_ok (tentative ev r)"
  by (auto simp: tentative_def Let_def capacity_ok_ensure split: recovery_class.split)

lemma capacity_ok_confirm: "capacity_ok r \<Longrightarrow> capacity_ok (confirm_recover v ev r)"
  by (auto simp: confirm_recover_def Let_def note_recovered_ready_def)

lemma capacity_ok_recover: "capacity_ok r \<Longrightarrow> capacity_ok (on_recover v ev ans r)"
  by (auto simp: on_recover_def Let_def finish_shutdown_def restore_tentative capacity_ok_tentative
      capacity_ok_confirm capacity_ok_ensure split: apply_answer.split)

lemma capacity_ok_clear: "capacity_ok r \<Longrightarrow> capacity_ok (fold clear_marker is r)"
  by (induction "is" arbitrary: r) (auto simp: clear_marker_def capacity_ok_hold_residual)

lemma capacity_ok_fold_tell [simp]: "capacity_ok (fold (\<lambda>i. tell v (f i)) is r) = capacity_ok r"
  by (induction "is" arbitrary: r) auto

lemma capacity_ok_fold_mark [simp]: "capacity_ok (fold (mark_residual at) is r) = capacity_ok r"
  by (induction "is" arbitrary: r) (auto simp: mark_residual_def)

lemma capacity_ok_observation: "capacity_ok r \<Longrightarrow> capacity_ok (apply_observation v snap r)"
  by (auto simp: apply_observation_def Let_def intro!: capacity_ok_clear)

lemma capacity_ok_step: "capacity_ok r \<Longrightarrow> capacity_ok (router_step r ve)"
proof -
  assume c: "capacity_ok r"
  obtain v e where ve: "ve = (v, e)" by (cases ve)
  show ?thesis
    by (cases e)
      (use c in \<open>auto simp: ve finish_shutdown_def finish_unload_def swap_done_def Let_def grant_load_def
        note_use_def mark_residual_def capacity_ok_recover capacity_ok_admit
        intro!: capacity_ok_observation capacity_ok_note_loaded\<close>)
qed

lemma capacity_ok_new:
  "config_ok c \<Longrightarrow> (\<Sum>im \<leftarrow> c_models c. sint (load_bound (snd im))) < 2 ^ 63 \<Longrightarrow>
     capacity_ok (new_router c wall boot)"
  by (auto simp: new_router_def Let_def capacity_ok_def ledger_ok_def peaks_fit_def models_of_def
      split: option.split)

interpretation router_machine: machine router_step view_ok "\<lambda>r. sched_inv r \<and> capacity_ok r"
  by unfold_locales (simp add: sched_inv_step capacity_ok_step)

end
