(* ===== verification/Router_Jobs.thy ===== *)
theory Router_Jobs
  imports Router
begin

text \<open>
  The work the router does off its loop (\<^verbatim>\<open>internal/router/base.go\<close>): the goroutines of \<open>StartUnload\<close>
  and \<open>StartLoad\<close> with \<open>waitIdle\<close> and \<open>sampleAfter\<close>, the polls of the release on shutdown, the error
  response, and the diagnostics of \<^verbatim>\<open>diagnostics.go\<close>. A loop that polls the outside is a recursion over
  the list of what it reads, one entry per round; \<open>None\<close> means it is still polling.
\<close>

section \<open>Durations\<close>

definition drain_budget :: "config \<Rightarrow> gdur" where
  "drain_budget c = (if c_drainTimeout c > 0 then c_drainTimeout c else 180 * second)"

definition status_timeout :: "config \<Rightarrow> gdur" where
  "status_timeout c = (if c_statusTimeout c > 0 then c_statusTimeout c else 5 * second)"

definition queue_timeout :: "config \<Rightarrow> gdur" where
  "queue_timeout c = (if c_queueTimeout c > 0 then c_queueTimeout c else 180 * second)"

definition unload_timeout :: "config \<Rightarrow> model_id \<Rightarrow> gdur" where
  "unload_timeout c i =
     (case map_of (c_models c) i of
        Some m \<Rightarrow>
          if m_unloadTimeout m > 0 then m_unloadTimeout m
          else if c_unloadTimeout c > 0 then c_unloadTimeout c else second
      | None \<Rightarrow> if c_unloadTimeout c > 0 then c_unloadTimeout c else second)"

definition load_timeout :: "config \<Rightarrow> model_id \<Rightarrow> gdur" where
  "load_timeout c i =
     (case map_of (c_models c) i of
        Some m \<Rightarrow> if m_healthCheckTimeout m > 0 then m_healthCheckTimeout m else second
      | None \<Rightarrow> second)"

section \<open>Waiting for an idle model\<close>

text \<open>One round of \<open>waitIdle\<close>: the clock before and after the status, and whether the router was
  shut down during the pause.\<close>

record idle_poll =
  ip_before :: gtime
  ip_status :: "goerr + status"
  ip_after :: gtime
  ip_shutdown :: bool

definition remote_idle :: "status \<Rightarrow> bool" where
  "remote_idle st = (activeRequests st = 0 \<and> wire st \<noteq> WireLoading \<and> wire st \<noteq> WireUnloading)"

fun wait_idle :: "gtime \<Rightarrow> idle_poll list \<Rightarrow> goerr option option" where
  "wait_idle deadline [] = None"
| "wait_idle deadline (p # ps) =
     (if \<not> ip_before p < deadline then Some (Some (Sched ErrDrainTimeout))
      else if (case ip_status p of Inr st \<Rightarrow> remote_idle st | Inl _ \<Rightarrow> False) then Some None
      else if (case ip_status p of Inl _ \<Rightarrow> True | Inr _ \<Rightarrow> False) \<or> \<not> ip_after p < deadline
        then Some (Some (Sched ErrDrainTimeout))
      else if ip_shutdown p then Some (Some (Sched ErrShutdown))
      else wait_idle deadline ps)"

section \<open>The sample after an unload\<close>

record sample_poll =
  sp_obs :: "snapshot option"
  sp_now :: gtime
  sp_shutdown :: bool

definition good_sample :: "string \<Rightarrow> gtime \<Rightarrow> snapshot \<Rightarrow> bool" where
  "good_sample device after s = (snap_ok s \<and> deviceID s = device \<and> after < observedAt s)"

fun sample_after ::
  "string \<Rightarrow> gtime \<Rightarrow> gtime \<Rightarrow> sample_poll list \<Rightarrow> (goerr + snapshot) option" where
  "sample_after device after deadline [] = None"
| "sample_after device after deadline (p # ps) =
     (case sp_obs p of
        Some s \<Rightarrow>
          if good_sample device after s then Some (Inr s)
          else if \<not> sp_now p < deadline then Some (Inl (Plain ''gpu sample after unload not observed''))
          else if sp_shutdown p then Some (Inl (Sched ErrShutdown))
          else sample_after device after deadline ps
      | None \<Rightarrow>
          if \<not> sp_now p < deadline then Some (Inl (Plain ''gpu sample after unload not observed''))
          else if sp_shutdown p then Some (Inl (Sched ErrShutdown))
          else sample_after device after deadline ps)"

section \<open>The unload job\<close>

text \<open>What one victim answers: \<open>waitIdle\<close>, \<open>Stop\<close>, and the clock after it. \<open>None\<close> is a model
  without a runtime, which the loop passes over.\<close>

record victim_run =
  vr_idle :: "goerr option"
  vr_stop :: "goerr option"
  vr_at :: gtime

fun unload_loop ::
  "(model_id \<Rightarrow> victim_run option) \<Rightarrow> model_id list \<Rightarrow> gtime \<Rightarrow> goerr option \<times> gtime" where
  "unload_loop runs [] at = (None, at)"
| "unload_loop runs (i # is) at =
     (case runs i of
        None \<Rightarrow> unload_loop runs is at
      | Some x \<Rightarrow>
          (case vr_idle x of
             Some e \<Rightarrow> (Some e, at)
           | None \<Rightarrow>
               (case vr_stop x of
                  Some e \<Rightarrow> (Some e, at)
                | None \<Rightarrow> unload_loop runs is (vr_at x))))"

text \<open>The notice of the job; \<open>sample\<close> is the outcome of \<open>sampleAfter\<close>.\<close>

definition unload_job ::
  "(model_id \<Rightarrow> victim_run option) \<Rightarrow> model_id list \<Rightarrow> (gtime \<Rightarrow> goerr + snapshot) \<Rightarrow> unload_notice" where
  "unload_job runs ids sample =
     (case unload_loop runs ids 0 of
        (Some e, _) \<Rightarrow> \<lparr>un_ids = ids, un_err = Some e, un_sample = zero_snapshot, un_at = 0\<rparr>
      | (None, at) \<Rightarrow>
          if is_zero_time at
          then \<lparr>un_ids = ids, un_err = Some (Plain ''unload did not complete''),
                un_sample = zero_snapshot, un_at = 0\<rparr>
          else (case sample at of
                  Inl e \<Rightarrow> \<lparr>un_ids = ids, un_err = Some e, un_sample = zero_snapshot, un_at = at\<rparr>
                | Inr s \<Rightarrow> \<lparr>un_ids = ids, un_err = None, un_sample = s, un_at = at\<rparr>))"

section \<open>Shutdown\<close>

record release_poll =
  rp_ctx :: "goerr option"
  rp_protected :: bool
  rp_now :: gtime
  rp_done :: "goerr option"

text \<open>\<open>None\<close> while the model is still protected; \<open>Some None\<close> when it is free.\<close>

fun wait_unprotected :: "model_id \<Rightarrow> gtime \<Rightarrow> release_poll list \<Rightarrow> goerr option option" where
  "wait_unprotected i deadline [] = None"
| "wait_unprotected i deadline (p # ps) =
     (case rp_ctx p of
        Some e \<Rightarrow> Some (Some e)
      | None \<Rightarrow>
          if \<not> rp_protected p then Some None
          else if \<not> rp_now p < deadline then Some (Some (Plain (i @ '' still executing'')))
          else case rp_done p of
            Some e \<Rightarrow> Some (Some e)
          | None \<Rightarrow> wait_unprotected i deadline ps)"

fun rstate_text :: "rstate \<Rightarrow> string" where
  "rstate_text StateUnknown = ''unknown''"
| "rstate_text StateStopped = ''stopped''"
| "rstate_text StateStarting = ''starting''"
| "rstate_text StateReady = ''ready''"
| "rstate_text StateStopping = ''stopping''"
| "rstate_text StateFailed = ''failed''"
| "rstate_text StateShutdown = ''shutdown''"

fun join_comma :: "string list \<Rightarrow> string" where
  "join_comma [] = ''''"
| "join_comma [s] = s"
| "join_comma (s # ss) = s @ '','' @ join_comma ss"

text \<open>The end of \<open>Shutdown\<close>: the models whose release failed, and the error it returns.\<close>

definition shutdown_result ::
  "(model_id \<times> (goerr + (gtime \<times> snapshot) option)) list \<Rightarrow> model_id list \<times> goerr option" where
  "shutdown_result results =
     (let failed = sort (map fst (filter (\<lambda>(i, r). case r of Inl _ \<Rightarrow> True | Inr _ \<Rightarrow> False) results))
      in (failed, if failed \<noteq> [] then Some (Plain (''unconfirmed models: '' @ join_comma failed)) else None))"

definition remaining :: "view \<Rightarrow> model_id list" where
  "remaining v = map fst (filter (\<lambda>(i, st). st \<noteq> StateStopped \<and> st \<noteq> StateShutdown) (v_states v))"

section \<open>The error response\<close>

record http_error =
  he_status :: int
  he_code :: string
  he_msg :: string
  he_retry :: bool

definition write_err :: "goerr \<Rightarrow> http_error" where
  "write_err e =
     (let (status, code, msg) =
            (case as_sched e of
               Some se \<Rightarrow> (err_status se, err_code se, err_msg se)
             | None \<Rightarrow> (502, ''BACKEND'', err_text e))
      in \<lparr>he_status = status, he_code = code, he_msg = msg, he_retry = (status = 429)\<rparr>)"

section \<open>Diagnostics\<close>

record model_diag =
  md_reserved :: int64
  md_state :: rstate
  md_reason :: string
  md_lastError :: "last_error option"
  md_known :: bool
  md_remoteState :: wire_state
  md_residency :: residency

record diagnostics =
  dg_queue :: nat
  dg_observedAt :: gtime
  dg_fresh :: bool
  dg_total :: "64 word"
  dg_free :: "64 word"
  dg_models :: "(model_id \<times> model_diag) list"

definition model_diagnostics :: "router \<Rightarrow> (model_id \<Rightarrow> string) \<Rightarrow> model_id \<times> rstate \<Rightarrow> model_diag" where
  "model_diagnostics r reason is =
     (let base = \<lparr>md_reserved = (case r_reserved r (fst is) of None \<Rightarrow> 0 | Some b \<Rightarrow> b),
                  md_state = snd is, md_reason = reason (fst is), md_lastError = None,
                  md_known = False, md_remoteState = WireOther '''', md_residency = ResidencyOther ''''\<rparr>
      in case r_lastStatus r (fst is) of
           None \<Rightarrow> base
         | Some st \<Rightarrow> base\<lparr>md_known := True, md_remoteState := wire st, md_residency := resid st,
                           md_lastError := lastError st\<rparr>)"

definition snapshot_diagnostics :: "view \<Rightarrow> (model_id \<Rightarrow> string) \<Rightarrow> router \<Rightarrow> diagnostics" where
  "snapshot_diagnostics v reason r =
     \<lparr>dg_queue = length (queued (r_sched r)), dg_observedAt = observedAt (r_snap r),
      dg_fresh = gpu_fresh v r, dg_total = total (r_snap r), dg_free = free (r_snap r),
      dg_models = map (\<lambda>is. (fst is, model_diagnostics r reason is)) (v_states v)\<rparr>"

section \<open>What a finished job shows\<close>

lemma wait_idle_ok:
  "wait_idle deadline ps = Some None \<Longrightarrow>
     \<exists>p \<in> set ps. \<exists>st. ip_status p = Inr st \<and> remote_idle st \<and> ip_before p < deadline"
  by (induction ps) (auto split: if_splits sum.splits)

text \<open>An error of \<open>waitIdle\<close> is one of the scheduler's, so \<open>OnUnloadDone\<close> can tell a drain timeout.\<close>

lemma wait_idle_err:
  "wait_idle deadline ps = Some (Some e) \<Longrightarrow> e = Sched ErrDrainTimeout \<or> e = Sched ErrShutdown"
  by (induction ps) (auto split: if_splits sum.splits)

lemma wait_idle_timeout:
  "ps \<noteq> [] \<Longrightarrow> \<not> ip_before (hd ps) < deadline \<Longrightarrow> wait_idle deadline ps = Some (Some (Sched ErrDrainTimeout))"
  by (cases ps) auto

text \<open>The loop ends: once a round starts at or after the deadline, or the status cannot be read.\<close>

lemma wait_idle_ends:
  "(\<exists>p \<in> set ps. \<not> ip_after p < deadline \<or> \<not> ip_before p < deadline) \<Longrightarrow> wait_idle deadline ps \<noteq> None"
  by (induction ps) auto

lemma sample_after_ok:
  "sample_after device after deadline ps = Some (Inr s) \<Longrightarrow> good_sample device after s"
  by (induction ps) (auto split: if_splits option.splits)

lemma sample_after_ends:
  "(\<exists>p \<in> set ps. \<not> sp_now p < deadline) \<Longrightarrow> sample_after device after deadline ps \<noteq> None"
  by (induction ps) (auto split: option.splits)

lemma unload_loop_ok:
  "unload_loop runs ids at0 = (None, at) \<Longrightarrow>
     (\<forall>i \<in> set ids. \<forall>x. runs i = Some x \<longrightarrow> vr_idle x = None \<and> vr_stop x = None)
     \<and> (at = at0 \<or> (\<exists>i \<in> set ids. \<exists>x. runs i = Some x \<and> at = vr_at x))"
  by (induction ids arbitrary: at0) (auto split: option.splits)

lemma unload_job_ok:
  assumes "un_err (unload_job runs ids sample) = None"
  shows "(\<forall>i \<in> set ids. \<forall>x. runs i = Some x \<longrightarrow> vr_idle x = None \<and> vr_stop x = None)
    \<and> un_ids (unload_job runs ids sample) = ids
    \<and> sample (un_at (unload_job runs ids sample)) = Inr (un_sample (unload_job runs ids sample))
    \<and> (\<exists>i \<in> set ids. \<exists>x. runs i = Some x \<and> un_at (unload_job runs ids sample) = vr_at x)"
proof -
  obtain err at where l: "unload_loop runs ids 0 = (err, at)" by (cases "unload_loop runs ids 0")
  then have e: "err = None" and z: "at \<noteq> 0" and s: "\<exists>s. sample at = Inr s"
    using assms by (auto simp: unload_job_def is_zero_time_def split: option.splits if_splits sum.splits)
  then obtain s where s: "sample at = Inr s" by blast
  have "unload_job runs ids sample = \<lparr>un_ids = ids, un_err = None, un_sample = s, un_at = at\<rparr>"
    using l e z s by (simp add: unload_job_def is_zero_time_def)
  then show ?thesis using unload_loop_ok [of runs ids 0 at] l e z s by auto
qed

section \<open>A confirmed unload releases the victims\<close>

text \<open>
  When the job of \<open>StartUnload\<close> reports success, the loop holds every victim at its unloaded
  residual and no longer waits for a sample after its unload.
\<close>

lemma clear_marker_frame [simp]:
  "model_at (clear_marker i r) j = model_at r j"
  by (auto simp: clear_marker_def hold_residual_def model_at_def models_of_def split: option.split)

lemma model_at_snap [simp]:
  "model_at (r\<lparr>r_snap := s\<rparr>) i = model_at r i" "model_at (r\<lparr>r_bootGPU := b\<rparr>) i = model_at r i"
  by (simp_all add: model_at_def models_of_def)

lemma clear_marker_own:
  "r_residualAfter (clear_marker i r) j = (if j = i then None else r_residualAfter r j)"
  "model_at r i = Some m \<Longrightarrow> r_reserved (clear_marker i r) i = Some (residual_of m)"
  "j \<noteq> i \<Longrightarrow> r_reserved (clear_marker i r) j = r_reserved r j"
  by (auto simp: clear_marker_def hold_residual_def split: option.split)

lemma fold_clear_own:
  assumes "j \<in> set is" "model_at r j = Some m"
  shows "r_reserved (fold clear_marker is r) j = Some (residual_of m)
    \<and> r_residualAfter (fold clear_marker is r) j = None"
  using assms
proof (induction "is" arbitrary: r)
  case Nil
  then show ?case by simp
next
  case (Cons i "is")
  show ?case
  proof (cases "j \<in> set is")
    case True
    then show ?thesis using Cons by simp
  next
    case False
    then have "j = i" using Cons.prems by simp
    moreover have "r_reserved (fold clear_marker ks r') j = r_reserved r' j
        \<and> (r_residualAfter r' j = None \<longrightarrow> r_residualAfter (fold clear_marker ks r') j = None)"
      if "j \<notin> set ks" for ks r'
      using that by (induction ks arbitrary: r') (auto simp: clear_marker_own)
    ultimately show ?thesis using False Cons.prems(2) by (simp add: clear_marker_own)
  qed
qed

lemma tell_frame [simp]:
  "r_reserved (tell v e r) = r_reserved r" "r_residualAfter (tell v e r) = r_residualAfter r"
  "r_device (tell v e r) = r_device r"
  by (simp_all add: tell_def)

lemma fold_tell_frame [simp]:
  "r_reserved (fold (\<lambda>i. tell v (f i)) is r) = r_reserved r"
  "r_residualAfter (fold (\<lambda>i. tell v (f i)) is r) = r_residualAfter r"
  by (induction "is" arbitrary: r) auto

lemma fold_mark_frame [simp]:
  "r_device (fold (mark_residual at) is r) = r_device r"
  "model_at (fold (mark_residual at) is r) j = model_at r j"
  "r_residualAfter (fold (mark_residual at) is r) j = (if j \<in> set is then Some at else r_residualAfter r j)"
  by (induction "is" arbitrary: r) (auto simp: mark_residual_def model_at_def models_of_def)

lemma finish_unload_releases:
  assumes n: "un_err n = None" "good_sample (r_device r) (un_at n) (un_sample n)"
    and marks: "set (un_ids n) \<subseteq> set (v_marks v)" and i: "i \<in> set (un_ids n)" "model_at r i = Some m"
  shows "r_reserved (finish_unload v n r) i = Some (residual_of m)
    \<and> r_residualAfter (finish_unload v n r) i = None"
proof -
  let ?r = "fold (mark_residual (un_at n)) (un_ids n) r"
  have s: "snap_ok (un_sample n)" "deviceID (un_sample n) = r_device ?r"
    "un_at n < observedAt (un_sample n)"
    using n(2) by (simp_all add: good_sample_def)
  have "i \<in> set (cleared_by v (un_sample n) ?r)"
    using marks i(1) s(3) by (auto simp: cleared_by_def)
  moreover have "model_at (?r\<lparr>r_snap := un_sample n, r_bootGPU := True\<rparr>) i = Some m"
    using i(2) by simp
  ultimately show ?thesis
    using fold_clear_own [of i "cleared_by v (un_sample n) ?r"
        "?r\<lparr>r_snap := un_sample n, r_bootGPU := True\<rparr>" m] n(1) s
    by (simp add: finish_unload_def apply_observation_def Let_def)
qed

end
