(* ===== verification/Router_Props.thy ===== *)
theory Router_Props
  imports Router_Jobs
begin

text \<open>
  The properties of the router: its ledger and its planner, the jobs it runs beside the loop, and
  the loop as a driver of the scheduler. The first section has the concrete router the instances
  are evaluated on: a device of 100 bytes with a margin of 10, and two models with a residual of 5
  whose peaks are 60 and 70.
\<close>

section \<open>A concrete router\<close>

definition demo_model :: "model_id \<Rightarrow> int64 \<Rightarrow> int64 \<Rightarrow> model" where
  "demo_model i ld ip =
     \<lparr>m_id = i, m_baseURL = ''http://localhost:9000'', m_name = i, m_aliases = [i @ ''-latest''],
      m_concurrencyLimit = 1, m_unlisted = False, m_prepare = None, m_prepareTimeout = 60 * second,
      m_healthCheckTimeout = 120 * second, m_unloadTimeout = 30 * second,
      m_profile = \<lparr>pr_profileId = ''p'', pr_loadPeak = ld, pr_inferencePeak = ip, pr_residual = 5,
                   pr_maxConcurrency = 1, pr_limits = []\<rparr>,
      m_inferencePath = ''/v1/chat/completions'', m_maxBody = 1000\<rparr>"

definition demo_config :: config where
  "demo_config =
     \<lparr>c_listen = '':8080'', c_logLevel = ''info'', c_healthCheckTimeout = 120 * second,
      c_unloadTimeout = 30 * second, c_queueTimeout = 180 * second, c_prepareTimeout = 60 * second,
      c_statusTimeout = 5 * second, c_drainTimeout = 180 * second, c_shutdownTimeout = 60 * second,
      c_maxQueueSize = 256, c_preload = [],
      c_gpu = \<lparr>g_device = ''gpu0'', g_margin = 10, g_maxAge = 5 * second\<rparr>,
      c_models = [(''a'', demo_model ''a'' 60 40), (''b'', demo_model ''b'' 50 70)],
      c_aliases = None\<rparr>"

definition demo_snapshot :: "64 word \<Rightarrow> gtime \<Rightarrow> snapshot" where
  "demo_snapshot fr at =
     \<lparr>deviceID = ''gpu0'', total = 100, free = fr, used = 100 - fr, observedAt = at, snap_ok = True\<rparr>"

definition demo_view :: "(model_id \<times> rstate) list \<Rightarrow> gtime \<Rightarrow> model_id list \<Rightarrow> view" where
  "demo_view states now marks =
     \<lparr>v_states = states, v_inflight = {}, v_now = now, v_wall = now, v_marks = marks,
      v_serve = (\<lambda>_. True), v_gone = (\<lambda>_. False), v_admit = (\<lambda>_. True)\<rparr>"

definition both_stopped :: view where
  "both_stopped = demo_view [(''a'', StateStopped), (''b'', StateStopped)] 200 []"

definition a_running :: view where
  "a_running = demo_view [(''a'', StateReady), (''b'', StateStopped)] 200 []"

definition booted :: "64 word \<Rightarrow> router" where
  "booted fr = new_router demo_config 100 (Some (demo_snapshot fr 100))"

lemma demo_models_ok: "model_ok ''a'' (demo_model ''a'' 60 40)" "model_ok ''b'' (demo_model ''b'' 50 70)"
proof -
  have p: "\<not> sublist ''..'' ''/v1/chat/completions''" "''/v1/chat/completions'' \<notin> control_paths"
    "prefix ''/'' ''/v1/chat/completions''" by code_simp+
  have b: "sint (pr_residual (m_profile (demo_model i x y))) = 5"
    "sint (pr_loadPeak (m_profile (demo_model i x y))) = sint x"
    "sint (pr_inferencePeak (m_profile (demo_model i x y))) = sint y" for i x y
    by (simp_all add: demo_model_def)
  have lb: "sint (load_bound (demo_model ''a'' 60 40)) = 60" "sint (load_bound (demo_model ''b'' 50 70)) = 70"
    by code_simp+
  show "model_ok ''a'' (demo_model ''a'' 60 40)" "model_ok ''b'' (demo_model ''b'' 50 70)"
    unfolding model_ok_def b lb using p by (simp_all add: demo_model_def)
qed

lemma demo_config_ok: "config_ok demo_config"
proof -
  have "distinct (concat (map model_names (c_models demo_config)))" by code_simp
  then show ?thesis using demo_models_ok by (simp add: config_ok_def demo_config_def)
qed

lemma demo_peaks: "(\<Sum>im \<leftarrow> c_models demo_config. sint (load_bound (snd im))) < 2 ^ 63" by code_simp

lemma booted_ok: "capacity_ok (booted fr)"
  unfolding booted_def by (rule capacity_ok_new [OF demo_config_ok demo_peaks])

text \<open>A request for \<open>b\<close> on a router with no model loaded.\<close>

definition first_request :: router_event where
  "first_request = RRequest \<lparr>req_id = 1, req_model = ''b'', req_admit = True\<rparr>"

section \<open>Properties\<close>

text \<open>C16: The peaks of the configured models sum to less than 2^63 bytes. In every state of the
  loop, a load is admitted only on a fresh observation, while no other load is admitted. The claims of
  all models, the new one at its peak, together with the safety margin stay within the free bytes of
  the device; or else within its total bytes, and then every other model is stopped, waits for no
  sample and is claimed at its residual.\<close>

theorem admitted_load_fits:
  assumes "config_ok c" "(\<Sum>im \<leftarrow> c_models c. sint (load_bound (snd im))) < 2 ^ 63"
    and "run_ok router_step view_ok (new_router c wall boot) ves" "r = run router_step (new_router c wall boot) ves"
    and "admit_load v i r = (None, r')"
  shows "gpu_fresh v r \<and> r_loadSerial r \<in> {'''', i} \<and> r_loadSerial r' = i
    \<and> (if fits_now v r i then planned v r' + sint (margin r') \<le> sint (free (r_snap r'))
       else planned v r' + sint (margin r') \<le> sint (total (r_snap r'))
         \<and> (\<forall>(j, m) \<in> set (models_of r). j \<noteq> i \<longrightarrow>
              router_state v j = Some StateStopped \<and> r_residualAfter r j = None
              \<and> bound_for v r j m False = Some (residual_of m)))"
proof -
  have "capacity_ok r"
    using router_machine.inv_run [OF _ assms(3)] sched_inv_new capacity_ok_new [OF assms(1,2)] assms(4) by blast
  moreover have "margin r' = margin r" "r_snap r' = r_snap r"
    using assms(5) by (auto simp: admit_load_def margin_def split: if_splits option.splits)
  moreover have "others_at_residual v r i" if "\<not> fits_now v r i"
    using assms(5) that by (auto simp: admit_load_def admit_without_evict_def split: if_splits option.splits)
  ultimately show ?thesis using admit_load_safe [OF _ assms(5)] by (auto simp: others_at_residual_def list_all_iff)
qed

text \<open>\<open>b\<close> does not fit in the 50 bytes that are free, but \<open>a\<close> is stopped.\<close>

theorem admitted_load_fits_witness:
  "\<not> fits_now both_stopped (booted 50) ''b''
   \<and> planned both_stopped (snd (admit_load both_stopped ''b'' (booted 50)))
       + sint (margin (snd (admit_load both_stopped ''b'' (booted 50))))
      \<le> sint (total (r_snap (snd (admit_load both_stopped ''b'' (booted 50)))))"
proof -
  have f: "\<not> fits_now both_stopped (booted 50) ''b''" by code_simp
  have "fst (admit_load both_stopped ''b'' (booted 50)) = None" by code_simp
  then have adm: "admit_load both_stopped ''b'' (booted 50) = (None, snd (admit_load both_stopped ''b'' (booted 50)))"
    by (simp add: prod_eq_iff)
  have "booted 50 = run router_step (new_router demo_config 100 (Some (demo_snapshot 50 100))) []"
    "run_ok router_step view_ok (new_router demo_config 100 (Some (demo_snapshot 50 100))) []"
    by (simp_all add: booted_def)
  from admitted_load_fits [OF demo_config_ok demo_peaks this(2,1) adm] show ?thesis using f by simp
qed

text \<open>C18: The loop passes on to the scheduler what it received, nothing else, nothing less and in the
  order of its events: after any run of the router's loop the scheduler is in the state that the
  events named by the function forwarded lead to from its initial state, each of them routed, and handled with the
  clock, the states of the runtimes and the answers of the requests that the loop had at that event.\<close>

theorem router_refines_scheduler:
  assumes "run_ok router_step view_ok (new_router c wall boot) ves"
  shows "\<exists>es. r_sched (run router_step (new_router c wall boot) ves)
                = run fifo_step (new_fifo (Some (fifo_config c))) es
       \<and> run_ok fifo_step routed (new_fifo (Some (fifo_config c))) es
       \<and> list_all2 handed es (forwarded_run (new_router c wall boot) ves)"
proof -
  have "hands (forwarded_run r ves) r (run router_step r ves)" if "run_ok router_step view_ok r ves" for r
    using that
  proof (induction ves arbitrary: r)
    case (Cons ve ves)
    then show ?case using hands_trans [OF router_step_hands] by simp
  qed (simp add: hands_same)
  then have "hands (forwarded_run (new_router c wall boot) ves) (new_router c wall boot) (run router_step (new_router c wall boot) ves)"
    using assms by blast
  then show ?thesis by (simp add: hands_def)
qed

text \<open>A sample that was waited for clears a marker; the loop tells the scheduler so.\<close>

lemma marked_forwards:
  "forwarded_events ((booted 95)\<lparr>r_residualAfter := [''a'' \<mapsto> 150]\<rparr>)
     (demo_view [(''a'', StateStopped)] 200 [''a''], RObserve (demo_snapshot 95 160)) = [OnMarkerCleared ''a'']"
  by code_simp

theorem router_refines_scheduler_witness:
  "\<exists>es. r_sched (run router_step (booted 95) [(both_stopped, first_request)])
          = run fifo_step (new_fifo (Some (fifo_config demo_config))) es
     \<and> map snd es = [OnRequest \<lparr>req_id = 1, req_model = ''b'', req_admit = True\<rparr>]"
proof -
  have "run_ok router_step view_ok (booted 95) [(both_stopped, first_request)]"
    by (simp add: view_ok_def both_stopped_def demo_view_def)
  from router_refines_scheduler [OF this [unfolded booted_def]] obtain es where
    "r_sched (run router_step (booted 95) [(both_stopped, first_request)])
       = run fifo_step (new_fifo (Some (fifo_config demo_config))) es"
    "list_all2 handed es [(both_stopped, OnRequest \<lparr>req_id = 1, req_model = ''b'', req_admit = True\<rparr>)]"
    by (auto simp: booted_def first_request_def forwarded_def)
  then show ?thesis by (auto simp: list_all2_Cons2 handed_def)
qed

text \<open>C35: When the planner names a victim it names one: a running, ready model other than the target,
  used least recently (by id among equals), on a fresh observation, when the target does not fit
  beside the resident models but does beside their residuals.\<close>

theorem victim_is_least_recently_used:
  assumes "decide v r target running = Inr (w # ws)"
  shows "ws = [] \<and> w \<in> set running \<and> w \<noteq> target \<and> router_state v w = Some StateReady
    \<and> (\<forall>i \<in> set running. i \<noteq> target \<longrightarrow> router_state v i = Some StateReady \<longrightarrow>
         used_at r w < used_at r i \<or> used_at r w = used_at r i \<and> w \<le> i)
    \<and> gpu_fresh v r \<and> \<not> fits_now v r target \<and> fits_if_rest_residual v r target"
  using decide_cases [OF assms] oldest_resident_spec [of v r running target w]
  by (auto simp: admit_without_evict_def)

theorem victim_is_least_recently_used_witness:
  "decide a_running (booted 35) ''b'' [''a''] = Inr [''a''] \<and> \<not> fits_now a_running (booted 35) ''b''"
proof -
  have d: "decide a_running (booted 35) ''b'' [''a''] = Inr [''a'']" by code_simp
  show ?thesis using d victim_is_least_recently_used [OF d] by simp
qed

text \<open>The decision does not depend on the order in which Go ranges over the models.\<close>

theorem decision_ignores_map_order:
  assumes "capacity_ok r" "mset ms = mset (models_of r)"
  shows "decide v (with_models ms r) target running = decide v r target running"
  by (rule decide_perm [OF assms])

theorem decision_ignores_map_order_witness:
  "decide a_running (with_models (rev (models_of (booted 35))) (booted 35)) ''b'' [''a'']
   = decide a_running (booted 35) ''b'' [''a'']"
  by (rule decision_ignores_map_order [OF booted_ok]) simp


text \<open>A late result for \<open>a\<close>: the client is busy, so \<open>a\<close> is held at its peak of 60.\<close>

definition late_event :: recover_event where
  "late_event = probe_result (new_fifo None) 1 ''a'' 0 150
     (Inr \<lparr>wire = WireUnloaded, resid = ResidencyNotResident, activeRequests = 0, lastError = None\<rparr>)"

definition awaiting :: router where
  "awaiting = (booted 95)\<lparr>r_sched := (r_sched (booted 95))\<lparr>acceptLate := {1}\<rparr>\<rparr>"


definition sampled :: "string \<Rightarrow> gtime \<Rightarrow> sample_poll list \<Rightarrow> gtime \<Rightarrow> goerr + snapshot" where
  "sampled device deadline polls at =
     (case sample_after device at deadline polls of None \<Rightarrow> Inl Canceled | Some res \<Rightarrow> res)"

text \<open>C25: When the unload job reports success, every victim with a runtime was seen idle and stopped
  without an error, and the loop then holds each victim at its unloaded residual and waits for no
  further sample; the sample it trusts was taken after the last stop.\<close>

theorem confirmed_unload_releases:
  assumes "un_err (unload_job runs ids (sampled (r_device r) deadline polls)) = None"
    and "set ids \<subseteq> set (v_marks v)" "i \<in> set ids" "model_at r i = Some m"
  shows "(\<forall>x. runs i = Some x \<longrightarrow> vr_idle x = None \<and> vr_stop x = None)
    \<and> un_at (unload_job runs ids (sampled (r_device r) deadline polls))
        < observedAt (un_sample (unload_job runs ids (sampled (r_device r) deadline polls)))
    \<and> r_reserved (router_step r (v, RUnload (unload_job runs ids (sampled (r_device r) deadline polls)))) i
        = Some (residual_of m)
    \<and> r_residualAfter (router_step r (v, RUnload (unload_job runs ids (sampled (r_device r) deadline polls)))) i
        = None"
proof -
  let ?n = "unload_job runs ids (sampled (r_device r) deadline polls)"
  note j = unload_job_ok [OF assms(1)]
  have "sample_after (r_device r) (un_at ?n) deadline polls = Some (Inr (un_sample ?n))"
    using j by (auto simp: sampled_def split: option.splits)
  then have g: "good_sample (r_device r) (un_at ?n) (un_sample ?n)" by (rule sample_after_ok)
  then show ?thesis
    using j finish_unload_releases [OF assms(1) g, of v i m] assms(2-4)
    by (simp add: good_sample_def)
qed

definition a_stops :: "model_id \<Rightarrow> victim_run option" where
  "a_stops i = (if i = ''a'' then Some \<lparr>vr_idle = None, vr_stop = None, vr_at = 150\<rparr> else None)"

definition late_sample :: sample_poll where
  "late_sample = \<lparr>sp_obs = Some (demo_snapshot 95 160), sp_now = 160, sp_shutdown = False\<rparr>"

theorem confirmed_unload_releases_witness:
  "r_reserved (router_step (booted 35)
     (demo_view [(''a'', StateStopped), (''b'', StateStopped)] 200 [''a''],
      RUnload (unload_job a_stops [''a''] (sampled (r_device (booted 35)) 1000 [late_sample])))) ''a'' = Some 5"
proof -
  have e: "un_err (unload_job a_stops [''a''] (sampled (r_device (booted 35)) 1000 [late_sample])) = None"
    and m: "model_at (booted 35) ''a'' = Some (demo_model ''a'' 60 40)"
    and five: "residual_of (demo_model ''a'' 60 40) = 5"
    by code_simp+
  show ?thesis
    using confirmed_unload_releases [OF e _ _ m, of "demo_view [(''a'', StateStopped), (''b'', StateStopped)] 200 [''a'']"]
      five by (simp add: demo_view_def)
qed

text \<open>Waiting for a victim to be idle ends with success only when a status read before the
  deadline showed no active request and no lifecycle job, and otherwise with a drain timeout or a
  shutdown, the two errors the scheduler does not hold against the victim.\<close>

theorem waiting_for_idle_ends:
  assumes "\<exists>p \<in> set ps. \<not> ip_after p < deadline \<or> \<not> ip_before p < deadline"
  shows "wait_idle deadline ps = Some None
       \<and> (\<exists>p \<in> set ps. \<exists>st. ip_status p = Inr st \<and> remote_idle st \<and> ip_before p < deadline)
    \<or> wait_idle deadline ps = Some (Some (Sched ErrDrainTimeout))
    \<or> wait_idle deadline ps = Some (Some (Sched ErrShutdown))"
  using wait_idle_ends [OF assms] wait_idle_ok [of deadline ps] wait_idle_err [of deadline ps]
  by (metis option.exhaust)

theorem waiting_for_idle_ends_witness:
  "wait_idle 100 [\<lparr>ip_before = 90, ip_status = Inr (zero_status\<lparr>activeRequests := 1\<rparr>), ip_after = 95, ip_shutdown = False\<rparr>,
                  \<lparr>ip_before = 100, ip_status = Inr zero_status, ip_after = 100, ip_shutdown = False\<rparr>]
     = Some (Some (Sched ErrDrainTimeout))"
  (is "wait_idle 100 ?ps = _")
proof -
  have "wait_idle 100 ?ps = Some None
       \<and> (\<exists>p \<in> set ?ps. \<exists>st. ip_status p = Inr st \<and> remote_idle st \<and> ip_before p < 100)
    \<or> wait_idle 100 ?ps = Some (Some (Sched ErrDrainTimeout))
    \<or> wait_idle 100 ?ps = Some (Some (Sched ErrShutdown))"
    by (rule waiting_for_idle_ends) simp
  then show ?thesis by (auto simp: zero_status_def remote_idle_def)
qed

text \<open>A load is admitted although the free bytes of the device, less the margin, do not cover the
  claims, when all other models are stopped at their residual: the total bytes decide then.\<close>

theorem stopped_models_admit_beyond_free:
  "fst (admit_load both_stopped ''b'' (booted 50)) = None
   \<and> sint (free (r_snap (booted 50))) - sint (margin (booted 50))
       < planned both_stopped (snd (admit_load both_stopped ''b'' (booted 50)))"
proof
  show "fst (admit_load both_stopped ''b'' (booted 50)) = None" by code_simp
  show "sint (free (r_snap (booted 50))) - sint (margin (booted 50))
       < planned both_stopped (snd (admit_load both_stopped ''b'' (booted 50)))" by code_simp
qed

end
