(* ===== verification/Json.thy ===== *)
theory Json
  imports Prelude
begin

text \<open>
  JSON as \<^verbatim>\<open>encoding/json\<close> reads it: \<open>json_parse\<close> is \<^verbatim>\<open>json.Valid\<close> together with the value the text
  stands for. A \<^verbatim>\<open>json.RawMessage\<close> is the value of its text, a number keeps its literal, as
  \<^verbatim>\<open>json.Number\<close> does. Texts are byte strings in UTF-8 (Go replaces invalid UTF-8 in strings by
  \<^verbatim>\<open>U+FFFD\<close>; the model keeps the bytes). \<open>json_text\<close> prints a value as
  \<^verbatim>\<open>json.Encoder\<close> does; \<open>parse_text\<close> says that a printed value is read back.
\<close>

datatype json =
    JNull
  | JBool bool
  | JNum string
  | JStr string
  | JArr "json list"
  | JObj "(string \<times> json) list"

section \<open>Characters\<close>

definition json_space :: "char \<Rightarrow> bool" where
  "json_space c = (c = CHR '' '' \<or> c = CHR 0x09 \<or> c = CHR 0x0A \<or> c = CHR 0x0D)"

definition is_digit :: "char \<Rightarrow> bool" where
  "is_digit c = (CHR ''0'' \<le> c \<and> c \<le> CHR ''9'')"

definition skip_ws :: "string \<Rightarrow> string" where
  "skip_ws = dropWhile json_space"

definition hex_digit :: "char \<Rightarrow> nat option" where
  "hex_digit c =
     (if is_digit c then Some (of_char c - 48)
      else if CHR ''a'' \<le> c \<and> c \<le> CHR ''f'' then Some (of_char c - 87)
      else if CHR ''A'' \<le> c \<and> c \<le> CHR ''F'' then Some (of_char c - 55)
      else None)"

definition hex4 :: "char \<Rightarrow> char \<Rightarrow> char \<Rightarrow> char \<Rightarrow> nat option" where
  "hex4 a b c d =
     (case (hex_digit a, hex_digit b, hex_digit c, hex_digit d) of
        (Some w, Some x, Some y, Some z) \<Rightarrow> Some (w * 4096 + x * 256 + y * 16 + z)
      | _ \<Rightarrow> None)"

definition utf8 :: "nat \<Rightarrow> string" where
  "utf8 n =
     (if n < 128 then [char_of n]
      else if n < 2048 then [char_of (192 + n div 64), char_of (128 + n mod 64)]
      else if n < 65536
        then [char_of (224 + n div 4096), char_of (128 + n div 64 mod 64), char_of (128 + n mod 64)]
      else [char_of (240 + n div 262144), char_of (128 + n div 4096 mod 64),
            char_of (128 + n div 64 mod 64), char_of (128 + n mod 64)])"

section \<open>Strings\<close>

definition simple_escape :: "char \<Rightarrow> char option" where
  "simple_escape c =
     (if c = CHR 0x22 \<or> c = CHR 0x5C \<or> c = CHR ''/'' then Some c
      else if c = CHR ''b'' then Some CHR 0x08
      else if c = CHR ''f'' then Some CHR 0x0C
      else if c = CHR ''n'' then Some CHR 0x0A
      else if c = CHR ''r'' then Some CHR 0x0D
      else if c = CHR ''t'' then Some CHR 0x09
      else None)"

definition high_surrogate :: "nat \<Rightarrow> bool" where
  "high_surrogate u = (0xD800 \<le> u \<and> u < 0xDC00)"

definition low_surrogate :: "nat \<Rightarrow> bool" where
  "low_surrogate u = (0xDC00 \<le> u \<and> u < 0xE000)"

text \<open>The code unit of an escape \<open>\u....\<close> that starts the text, if one does.\<close>

fun next_unit :: "string \<Rightarrow> nat option" where
  "next_unit (x # y # a # b # c # d # _) =
     (if x = CHR 0x5C \<and> y = CHR ''u'' then hex4 a b c d else None)"
| "next_unit _ = None"

text \<open>An escape after its backslash: the bytes it stands for, and the text after it.\<close>

definition unescape_unit :: "nat \<Rightarrow> string \<Rightarrow> string \<times> string" where
  "unescape_unit u cs =
     (case (high_surrogate u, next_unit cs) of
        (True, Some l) \<Rightarrow>
          if low_surrogate l
          then (utf8 (65536 + (u - 0xD800) * 1024 + (l - 0xDC00)), drop 6 cs)
          else (utf8 0xFFFD, cs)
      | (True, None) \<Rightarrow> (utf8 0xFFFD, cs)
      | (False, _) \<Rightarrow> (utf8 (if low_surrogate u then 0xFFFD else u), cs))"

definition unescape :: "string \<Rightarrow> (string \<times> string) option" where
  "unescape cs =
     (case cs of
        [] \<Rightarrow> None
      | e # ds \<Rightarrow>
          if e = CHR ''u'' then
            (case ds of
               w # x # y # z # es \<Rightarrow>
                 (case hex4 w x y z of None \<Rightarrow> None | Some u \<Rightarrow> Some (unescape_unit u es))
             | _ \<Rightarrow> None)
          else map_option (\<lambda>v. ([v], ds)) (simple_escape e))"

lemma unescape_unit_le: "length (snd (unescape_unit u cs)) \<le> length cs"
  by (auto simp: unescape_unit_def split: bool.split option.split)

lemma unescape_less: "unescape cs = Some (v, r) \<Longrightarrow> length r < length cs"
  using unescape_unit_le
  by (auto simp: unescape_def split: list.split_asm if_split_asm option.split_asm)
    (metis le_imp_less_Suc less_SucI snd_conv)

text \<open>The body of a string after its opening quote: the value, and the text after the closing quote.\<close>

function parse_chars :: "string \<Rightarrow> (string \<times> string) option" where
  "parse_chars [] = None"
| "parse_chars (c # cs) =
     (if c = CHR 0x22 then Some ([], cs)
      else if c = CHR 0x5C then
        (case unescape cs of
           None \<Rightarrow> None
         | Some (v, r) \<Rightarrow> map_option (apfst ((@) v)) (parse_chars r))
      else if of_char c < (32 :: nat) then None
      else map_option (apfst ((#) c)) (parse_chars cs))"
  by pat_completeness auto
termination
  by (relation "measure length") (auto dest: unescape_less)

section \<open>Numbers\<close>

definition parse_digits :: "string \<Rightarrow> (string \<times> string) option" where
  "parse_digits cs =
     (let ds = takeWhile is_digit cs in if ds = [] then None else Some (ds, dropWhile is_digit cs))"

definition parse_int :: "string \<Rightarrow> (string \<times> string) option" where
  "parse_int cs =
     (case cs of
        [] \<Rightarrow> None
      | c # ds \<Rightarrow> if c = CHR ''0'' then Some ([c], ds) else parse_digits cs)"

definition parse_frac :: "string \<Rightarrow> (string \<times> string) option" where
  "parse_frac cs =
     (case cs of
        c # ds \<Rightarrow> if c = CHR ''.'' then map_option (apfst ((#) c)) (parse_digits ds) else Some ([], cs)
      | [] \<Rightarrow> Some ([], cs))"

definition parse_exp :: "string \<Rightarrow> (string \<times> string) option" where
  "parse_exp cs =
     (case cs of
        e # ds \<Rightarrow>
          if e = CHR ''e'' \<or> e = CHR ''E'' then
            (case ds of
               s # es \<Rightarrow>
                 if s = CHR ''+'' \<or> s = CHR ''-''
                 then map_option (apfst (\<lambda>xs. e # s # xs)) (parse_digits es)
                 else map_option (apfst ((#) e)) (parse_digits ds)
             | [] \<Rightarrow> None)
          else Some ([], cs)
      | [] \<Rightarrow> Some ([], cs))"

definition parse_number :: "string \<Rightarrow> (string \<times> string) option" where
  "parse_number cs =
     (let (sign, ds) = (case cs of c # ds \<Rightarrow> if c = CHR ''-'' then ([c], ds) else ([], cs) | [] \<Rightarrow> ([], cs))
      in case parse_int ds of
           None \<Rightarrow> None
         | Some (i, r1) \<Rightarrow>
             (case parse_frac r1 of
                None \<Rightarrow> None
              | Some (f, r2) \<Rightarrow>
                  (case parse_exp r2 of
                     None \<Rightarrow> None
                   | Some (e, r3) \<Rightarrow> Some (sign @ i @ f @ e, r3))))"

section \<open>Values\<close>

definition after_word :: "string \<Rightarrow> json \<Rightarrow> string \<Rightarrow> (json \<times> string) option" where
  "after_word w v cs = (if prefix w cs then Some (v, drop (length w) cs) else None)"

text \<open>
  Each call costs one unit of fuel, and of two calls one inside the other at least one has read
  a character, so two units for every character of the text are enough.
\<close>

fun parse_value :: "nat \<Rightarrow> string \<Rightarrow> (json \<times> string) option"
  and parse_elems :: "nat \<Rightarrow> string \<Rightarrow> (json list \<times> string) option"
  and parse_members :: "nat \<Rightarrow> string \<Rightarrow> ((string \<times> json) list \<times> string) option"
where
  "parse_value 0 _ = None"
| "parse_value (Suc k) cs =
     (case skip_ws cs of
        [] \<Rightarrow> None
      | c # ds \<Rightarrow>
          if c = CHR ''n'' then after_word ''null'' JNull (c # ds)
          else if c = CHR ''t'' then after_word ''true'' (JBool True) (c # ds)
          else if c = CHR ''f'' then after_word ''false'' (JBool False) (c # ds)
          else if c = CHR 0x22 then map_option (apfst JStr) (parse_chars ds)
          else if c = CHR ''['' then
            (case skip_ws ds of
               e # es \<Rightarrow> if e = CHR '']'' then Some (JArr [], es)
                        else map_option (apfst JArr) (parse_elems k ds)
             | [] \<Rightarrow> None)
          else if c = CHR ''{'' then
            (case skip_ws ds of
               e # es \<Rightarrow> if e = CHR ''}'' then Some (JObj [], es)
                        else map_option (apfst JObj) (parse_members k ds)
             | [] \<Rightarrow> None)
          else map_option (apfst JNum) (parse_number (c # ds)))"
| "parse_elems 0 _ = None"
| "parse_elems (Suc k) cs =
     (case parse_value k cs of
        None \<Rightarrow> None
      | Some (v, r) \<Rightarrow>
          (case skip_ws r of
             e # es \<Rightarrow>
               if e = CHR '','' then map_option (apfst ((#) v)) (parse_elems k es)
               else if e = CHR '']'' then Some ([v], es) else None
           | [] \<Rightarrow> None))"
| "parse_members 0 _ = None"
| "parse_members (Suc k) cs =
     (case skip_ws cs of
        q # qs \<Rightarrow>
          if q \<noteq> CHR 0x22 then None
          else (case parse_chars qs of
            None \<Rightarrow> None
          | Some (key, r) \<Rightarrow>
              (case skip_ws r of
                 c # ds \<Rightarrow>
                   if c \<noteq> CHR '':'' then None
                   else (case parse_value k ds of
                     None \<Rightarrow> None
                   | Some (v, r2) \<Rightarrow>
                       (case skip_ws r2 of
                          e # es \<Rightarrow>
                            if e = CHR '','' then map_option (apfst ((#) (key, v))) (parse_members k es)
                            else if e = CHR ''}'' then Some ([(key, v)], es) else None
                        | [] \<Rightarrow> None))
               | [] \<Rightarrow> None))
      | [] \<Rightarrow> None)"

text \<open>A whole text: one value with white space around it.\<close>

definition json_parse :: "string \<Rightarrow> json option" where
  "json_parse cs =
     (case parse_value (2 * length cs + 2) cs of
        Some (v, r) \<Rightarrow> if skip_ws r = [] then Some v else None
      | None \<Rightarrow> None)"

section \<open>Every reader consumes what it reads\<close>

lemma length_skip_ws: "length (skip_ws cs) \<le> length cs"
  by (simp add: skip_ws_def length_dropWhile_le)

lemma skip_ws_Cons: "skip_ws cs = c # ds \<Longrightarrow> length ds < length cs"
  using length_skip_ws [of cs] by simp

lemma parse_digits_less: "parse_digits cs = Some (x, r) \<Longrightarrow> length r < length cs"
proof -
  assume "parse_digits cs = Some (x, r)"
  then have "takeWhile is_digit cs \<noteq> []" "r = dropWhile is_digit cs"
    by (simp_all add: parse_digits_def Let_def split: if_split_asm)
  then show ?thesis
    using takeWhile_dropWhile_id [of is_digit cs] by (metis length_append length_greater_0_conv less_add_same_cancel2)
qed

lemma parse_int_less: "parse_int cs = Some (x, r) \<Longrightarrow> length r < length cs"
  by (auto simp: parse_int_def dest: parse_digits_less split: list.split_asm if_split_asm)

lemma parse_frac_le: "parse_frac cs = Some (x, r) \<Longrightarrow> length r \<le> length cs"
  by (auto simp: parse_frac_def dest: parse_digits_less split: list.split_asm if_split_asm)

lemma parse_exp_le: "parse_exp cs = Some (x, r) \<Longrightarrow> length r \<le> length cs"
  by (auto simp: parse_exp_def dest: parse_digits_less split: list.split_asm if_split_asm)

lemma parse_number_less: "parse_number cs = Some (x, r) \<Longrightarrow> length r < length cs"
  by (auto simp: parse_number_def Let_def dest!: parse_int_less parse_frac_le parse_exp_le
      split: list.split_asm if_split_asm option.split_asm prod.split_asm)

lemma parse_chars_less: "parse_chars cs = Some (x, r) \<Longrightarrow> length r < length cs"
  by (induction cs arbitrary: x r rule: parse_chars.induct)
    (fastforce dest!: unescape_less split: if_split_asm option.split_asm)+

lemma after_word_less: "after_word w v cs = Some (x, r) \<Longrightarrow> w \<noteq> [] \<Longrightarrow> length r < length cs"
  by (auto simp: after_word_def prefix_def split: if_split_asm)

lemma parse_value_less:
  "parse_value k cs = Some (v, r) \<Longrightarrow> length r < length cs"
  "parse_elems k cs = Some (vs, r) \<Longrightarrow> length r < length cs"
  "parse_members k cs = Some (ms, r) \<Longrightarrow> length r < length cs"
proof (induction k cs and k cs and k cs arbitrary: v r and vs r and ms r
    rule: parse_value_parse_elems_parse_members.induct)
  case (2 k cs)
  then show ?case
    using after_word_less parse_chars_less parse_number_less
    by (fastforce dest!: skip_ws_Cons split: list.split_asm if_split_asm option.split_asm)
next
  case (4 k cs)
  then show ?case
    by (fastforce dest!: skip_ws_Cons split: list.split_asm if_split_asm option.split_asm)
next
  case (6 k cs)
  then show ?case
    by (fastforce dest!: skip_ws_Cons parse_chars_less split: list.split_asm if_split_asm option.split_asm)
qed simp_all

section \<open>Fuel\<close>

declare parse_elems.simps [simp del] parse_members.simps [simp del] parse_value.simps(2) [simp del]

text \<open>A result found with some fuel is the result with more.\<close>

lemma parse_more:
  "parse_value k cs = Some x \<Longrightarrow> parse_value (Suc k) cs = Some x"
  "parse_elems k cs = Some y \<Longrightarrow> parse_elems (Suc k) cs = Some y"
  "parse_members k cs = Some z \<Longrightarrow> parse_members (Suc k) cs = Some z"
proof (induction k cs and k cs and k cs arbitrary: x and y and z
    rule: parse_value_parse_elems_parse_members.induct)
  case (2 k cs)
  then show ?case
    unfolding parse_value.simps(2) [of "Suc k"]
    by (auto simp: parse_value.simps(2) [of k] split: list.split_asm if_split_asm)
next
  case (4 k cs)
  then show ?case
    unfolding parse_elems.simps(2) [of "Suc k"]
    by (auto simp: parse_elems.simps(2) [of k] split: list.split_asm if_split_asm option.split_asm)
next
  case (6 k cs)
  then show ?case
    unfolding parse_members.simps(2) [of "Suc k"]
    by (auto simp: parse_members.simps(2) [of k] split: list.split_asm if_split_asm option.split_asm)
qed (simp_all add: parse_elems.simps parse_members.simps)

text \<open>Two units of fuel for every character are as good as any larger number.\<close>

lemma parse_enough:
  "2 * length cs + 1 \<le> k \<Longrightarrow> parse_value (Suc k) cs = parse_value k cs"
  "2 * length cs + 2 \<le> k \<Longrightarrow> parse_elems (Suc k) cs = parse_elems k cs"
  "2 * length cs + 2 \<le> k \<Longrightarrow> parse_members (Suc k) cs = parse_members k cs"
proof (induction k cs and k cs and k cs rule: parse_value_parse_elems_parse_members.induct)
  case (2 k cs)
  have "2 * length ds + 2 \<le> k" if "skip_ws cs = c # ds" for c ds
    using 2(3) skip_ws_Cons [OF that] by simp
  with 2(1,2) show ?case
    unfolding parse_value.simps(2) [of "Suc k"] parse_value.simps(2) [of k cs]
    by (auto split: list.split)
next
  case (4 k cs)
  have l: "2 * length es + 2 \<le> k" if "parse_value k cs = Some (v, r)" "skip_ws r = e # es" for v r e es
    using 4(3) skip_ws_Cons [OF that(2)] parse_value_less(1) [OF that(1)] by simp
  have v: "parse_value (Suc k) cs = parse_value k cs" by (rule 4(1)) (use 4(3) in simp)
  show ?case
    unfolding parse_elems.simps(2) [of "Suc k"] parse_elems.simps(2) [of k cs] v
    using 4(2) l by (auto split: list.split option.split)
next
  case (6 k cs)
  have d: "2 * length ds + 1 \<le> k"
    if "skip_ws cs = q # qs" "parse_chars qs = Some (key, r)" "skip_ws r = c # ds" for q qs key r c ds
    using 6(3) skip_ws_Cons [OF that(1)] parse_chars_less [OF that(2)] skip_ws_Cons [OF that(3)] by simp
  have e: "2 * length es + 2 \<le> k"
    if "skip_ws cs = q # qs" "parse_chars qs = Some (key, r)" "skip_ws r = c # ds"
      "parse_value k ds = Some (v, r2)" "skip_ws r2 = e # es" for q qs key r c ds v r2 e es
    using d [OF that(1-3)] parse_value_less(1) [OF that(4)] skip_ws_Cons [OF that(5)] by simp
  show ?case
    unfolding parse_members.simps(2) [of "Suc k"] parse_members.simps(2) [of k cs]
    using 6(1,2) d e by (auto split: list.split option.split)
qed simp_all

lemma parse_value_fuel:
  assumes "2 * length cs + 1 \<le> k"
  shows "parse_value k cs = parse_value (2 * length cs + 2) cs"
proof -
  have "parse_value (2 * length cs + 1 + n) cs = parse_value (2 * length cs + 1) cs" for n
    by (induction n) (simp_all add: parse_enough(1))
  from this [of "k - (2 * length cs + 1)"] this [of 1] assms show ?thesis by simp
qed

lemma parse_value_le: "parse_value k cs = Some x \<Longrightarrow> k \<le> k' \<Longrightarrow> parse_value k' cs = Some x"
  by (induction k' rule: nat_induct) (auto simp: le_Suc_eq intro: parse_more(1))

lemma parse_elems_le: "parse_elems k cs = Some x \<Longrightarrow> k \<le> k' \<Longrightarrow> parse_elems k' cs = Some x"
  by (induction k' rule: nat_induct) (auto simp: le_Suc_eq intro: parse_more(2))

lemma parse_members_le: "parse_members k cs = Some x \<Longrightarrow> k \<le> k' \<Longrightarrow> parse_members k' cs = Some x"
  by (induction k' rule: nat_induct) (auto simp: le_Suc_eq intro: parse_more(3))

text \<open>So a text is read with any amount of fuel that reads it at all.\<close>

lemma json_parse_ok:
  assumes "parse_value k cs = Some (v, r)" "skip_ws r = []"
  shows "json_parse cs = Some v"
proof -
  have "parse_value (k + (2 * length cs + 2)) cs = Some (v, r)"
    using parse_value_le [OF assms(1)] by simp
  then have "parse_value (2 * length cs + 2) cs = Some (v, r)"
    using parse_value_fuel [of cs "k + (2 * length cs + 2)"] by simp
  then show ?thesis using assms(2) by (simp add: json_parse_def)
qed

section \<open>Printing\<close>

text \<open>\<^verbatim>\<open>json.Encoder\<close> without indentation, on texts in ASCII; it escapes the characters of HTML too.\<close>

definition hex_char :: "nat \<Rightarrow> char" where
  "hex_char n = (if n < 10 then char_of (48 + n) else char_of (87 + n))"

definition short_escapes :: "(char \<times> char) list" where
  "short_escapes =
     [(CHR 0x22, CHR 0x22), (CHR 0x5C, CHR 0x5C), (CHR 0x08, CHR ''b''), (CHR 0x0C, CHR ''f''),
      (CHR 0x0A, CHR ''n''), (CHR 0x0D, CHR ''r''), (CHR 0x09, CHR ''t'')]"

definition hex_escaped :: "char \<Rightarrow> bool" where
  "hex_escaped c = (of_char c < (32 :: nat) \<or> c = CHR ''<'' \<or> c = CHR ''>'' \<or> c = CHR ''&'')"

definition json_char :: "char \<Rightarrow> string" where
  "json_char c =
     (case map_of short_escapes c of
        Some e \<Rightarrow> [CHR 0x5C, e]
      | None \<Rightarrow>
          if hex_escaped c
          then [CHR 0x5C, CHR ''u'', CHR ''0'', CHR ''0'',
                hex_char (of_char c div 16), hex_char (of_char c mod 16)]
          else [c])"

definition json_string :: "string \<Rightarrow> string" where
  "json_string s = CHR 0x22 # concat (map json_char s) @ [CHR 0x22]"

fun json_text :: "json \<Rightarrow> string"
  and elems_text :: "json list \<Rightarrow> string"
  and members_text :: "(string \<times> json) list \<Rightarrow> string"
where
  "json_text JNull = ''null''"
| "json_text (JBool b) = (if b then ''true'' else ''false'')"
| "json_text (JNum n) = n"
| "json_text (JStr s) = json_string s"
| "json_text (JArr vs) = CHR ''['' # elems_text vs"
| "json_text (JObj ms) = CHR ''{'' # members_text ms"
| "elems_text [] = '']''"
| "elems_text [v] = json_text v @ '']''"
| "elems_text (v # w # vs) = json_text v @ CHR '','' # elems_text (w # vs)"
| "members_text [] = ''}''"
| "members_text [(k, v)] = json_string k @ CHR '':'' # json_text v @ ''}''"
| "members_text ((k, v) # m # ms) = json_string k @ CHR '':'' # json_text v @ CHR '','' # members_text (m # ms)"

definition valid_number :: "string \<Rightarrow> bool" where
  "valid_number s = (case parse_number s of Some (n, r) \<Rightarrow> r = [] | None \<Rightarrow> False)"

fun numbers_ok :: "json \<Rightarrow> bool" where
  "numbers_ok (JNum n) = valid_number n"
| "numbers_ok (JArr vs) = (\<forall>v \<in> set vs. numbers_ok v)"
| "numbers_ok (JObj ms) = (\<forall>m \<in> set ms. numbers_ok (snd m))"
| "numbers_ok _ = True"

section \<open>Reading what was printed\<close>

lemma hex_digit_char: "k < 16 \<Longrightarrow> hex_digit (hex_char k) = Some k"
proof -
  have "list_all (\<lambda>k. hex_digit (hex_char k) = Some k) [0..<16]" by code_simp
  then show "k < 16 \<Longrightarrow> ?thesis" by (simp add: list_all_iff)
qed

lemma hex4_char:
  assumes "n < 128"
  shows "hex4 CHR ''0'' CHR ''0'' (hex_char (n div 16)) (hex_char (n mod 16)) = Some n"
proof -
  have "hex_digit CHR ''0'' = Some 0" by code_simp
  then show ?thesis
    using assms hex_digit_char [of "n div 16"] hex_digit_char [of "n mod 16"] by (simp add: hex4_def)
qed

lemma unescape_hex:
  assumes "of_char c < (128 :: nat)"
  shows "unescape (CHR ''u'' # CHR ''0'' # CHR ''0'' # hex_char (of_char c div 16)
           # hex_char (of_char c mod 16) # cs) = Some ([c], cs)"
  unfolding unescape_def
  by (simp only: list.case if_True simp_thms option.case hex4_char [OF assms])
    (use assms in \<open>simp add: unescape_unit_def high_surrogate_def low_surrogate_def utf8_def\<close>)

lemma short_escape:
  assumes "(c, e) \<in> set short_escapes"
  shows "json_char c = [CHR 0x5C, e]" "unescape (e # cs) = Some ([c], cs)"
proof -
  have "list_all (\<lambda>(c, e). json_char c = [CHR 0x5C, e] \<and> simple_escape e = Some c \<and> e \<noteq> CHR ''u'') short_escapes"
    by code_simp
  then have *: "json_char c = [CHR 0x5C, e]" "simple_escape e = Some c" "e \<noteq> CHR ''u''"
    using assms by (auto simp only: list_all_iff split: prod.split_asm)
  show "json_char c = [CHR 0x5C, e]" by (rule *(1))
  show "unescape (e # cs) = Some ([c], cs)"
    unfolding unescape_def using *(2,3) by (simp only: list.case if_False option.map)
qed

lemma hex_escaped_ascii: "hex_escaped c \<Longrightarrow> of_char c < (128 :: nat)"
  by (auto simp: hex_escaped_def)

lemma parse_char:
  "parse_chars (json_char c @ cs) = map_option (apfst ((#) c)) (parse_chars cs)"
proof (cases "map_of short_escapes c")
  case (Some e)
  then have "(c, e) \<in> set short_escapes" by (rule map_of_SomeD)
  from short_escape [OF this] show ?thesis
    by (simp add: apfst_def map_prod_def)
next
  case None
  then have q: "c \<noteq> CHR 0x22" "c \<noteq> CHR 0x5C" by (auto simp: short_escapes_def)
  show ?thesis
  proof (cases "hex_escaped c")
    case True
    then have "json_char c = [CHR 0x5C, CHR ''u'', CHR ''0'', CHR ''0'',
        hex_char (of_char c div 16), hex_char (of_char c mod 16)]"
      using None by (simp add: json_char_def)
    then show ?thesis
      using unescape_hex [OF hex_escaped_ascii [OF True], of cs] by (simp add: apfst_def map_prod_def)
  next
    case False
    then show ?thesis using None q by (simp add: json_char_def hex_escaped_def)
  qed
qed

lemma parse_json_string:
  "parse_chars (concat (map json_char s) @ CHR 0x22 # r) = Some (s, r)"
  by (induction s) (simp_all add: parse_char)

subsection \<open>Numbers\<close>

text \<open>What may follow a number: nothing, or a character no number goes on with.\<close>

definition number_ends :: "string \<Rightarrow> bool" where
  "number_ends r =
     (case r of [] \<Rightarrow> True
      | c # _ \<Rightarrow> \<not> is_digit c \<and> c \<notin> {CHR ''.'', CHR ''e'', CHR ''E''})"

lemma parse_digits_append:
  assumes "parse_digits cs = Some (x, r)" "r = [] \<Longrightarrow> number_ends t"
  shows "parse_digits (cs @ t) = Some (x, r @ t)"
proof -
  have x: "x = takeWhile is_digit cs" "x \<noteq> []" and r: "r = dropWhile is_digit cs"
    using assms(1) by (simp_all add: parse_digits_def Let_def split: if_split_asm)
  show ?thesis
  proof (cases "\<exists>c \<in> set cs. \<not> is_digit c")
    case True
    then obtain c where c: "c \<in> set cs" "\<not> is_digit c" by blast
    show ?thesis
      using x r by (simp add: parse_digits_def Let_def takeWhile_append1 [of c cs is_digit, OF c] dropWhile_append1 [of c cs is_digit, OF c])
  next
    case False
    then have all: "r = []" "x = cs" using r x by simp_all
    then have "takeWhile is_digit t = []" "dropWhile is_digit t = t"
      using assms(2) by (cases t; simp add: number_ends_def)+
    then show ?thesis
      using False all x(2) by (simp add: parse_digits_def Let_def takeWhile_append2 dropWhile_append2)
  qed
qed

lemma parse_int_append:
  "parse_int cs = Some (x, r) \<Longrightarrow> (r = [] \<Longrightarrow> number_ends t) \<Longrightarrow> parse_int (cs @ t) = Some (x, r @ t)"
  by (cases cs) (auto simp: parse_int_def dest: parse_digits_append split: if_split_asm)

lemma parse_frac_append:
  assumes "parse_frac cs = Some (x, r)" "r = [] \<Longrightarrow> number_ends t"
  shows "parse_frac (cs @ t) = Some (x, r @ t)"
proof (cases cs)
  case Nil
  then show ?thesis
    using assms by (cases t) (auto simp: parse_frac_def number_ends_def)
next
  case (Cons c ds)
  then show ?thesis
    using assms by (auto simp: parse_frac_def dest: parse_digits_append split: if_split_asm)
qed

lemma parse_exp_append:
  assumes "parse_exp cs = Some (x, r)" "r = [] \<Longrightarrow> number_ends t"
  shows "parse_exp (cs @ t) = Some (x, r @ t)"
proof (cases cs)
  case Nil
  then show ?thesis
    using assms by (cases t) (auto simp: parse_exp_def number_ends_def)
next
  case (Cons e ds)
  show ?thesis
  proof (cases "e = CHR ''e'' \<or> e = CHR ''E''")
    case False
    then show ?thesis using assms(1) Cons by (auto simp: parse_exp_def)
  next
    case True
    then obtain s es where ds: "ds = s # es" using assms Cons by (cases ds) (simp_all add: parse_exp_def)
    define sign where "sign = (s = CHR ''+'' \<or> s = CHR ''-'')"
    have e: "parse_exp (e # s # zs) =
        (if sign then map_option (apfst (\<lambda>xs. e # s # xs)) (parse_digits zs)
         else map_option (apfst ((#) e)) (parse_digits (s # zs)))" for zs
      using True by (simp add: parse_exp_def sign_def)
    show ?thesis
      using assms parse_digits_append [of es _ r t] parse_digits_append [of "s # es" _ r t]
      unfolding Cons ds append_Cons e by (auto split: if_split_asm)
  qed
qed

lemma parse_number_append:
  assumes "parse_number cs = Some (n, [])" "number_ends t"
  shows "parse_number (cs @ t) = Some (n, t)"
proof -
  define sd where "sd = (case cs of c # ds \<Rightarrow> if c = CHR ''-'' then ([c], ds) else ([], cs) | [] \<Rightarrow> ([], cs))"
  obtain s ds where sd': "sd = (s, ds)" by fastforce
  obtain i r1 f r2 e where p: "parse_int ds = Some (i, r1)" "parse_frac r1 = Some (f, r2)"
    "parse_exp r2 = Some (e, [])" "n = s @ i @ f @ e"
    using assms(1) sd' unfolding parse_number_def Let_def sd_def [symmetric]
    by (auto split: option.split_asm)
  have "cs \<noteq> []" using p(1) sd' by (cases cs) (auto simp: sd_def parse_int_def)
  then have "(case cs @ t of c # ds \<Rightarrow> if c = CHR ''-'' then ([c], ds) else ([], cs @ t) | [] \<Rightarrow> ([], cs @ t))
      = (s, ds @ t)"
    using sd' by (cases cs) (auto simp: sd_def split: if_split_asm)
  then show ?thesis
    using parse_int_append [OF p(1), of t] parse_frac_append [OF p(2), of t]
      parse_exp_append [OF p(3), of t] p(4) assms(2)
    by (simp add: parse_number_def Let_def)
qed

subsection \<open>Values\<close>

lemma json_char_not_nil: "json_char c \<noteq> []"
  by (simp add: json_char_def split: option.split)

lemma parse_string_text: "parse_chars (tl (json_string s) @ r) = Some (s, r)"
  by (simp add: json_string_def parse_json_string)

lemma skip_ws_head: "\<not> json_space c \<Longrightarrow> skip_ws (c # cs) = c # cs"
  by (simp add: skip_ws_def)

lemma number_head:
  assumes "parse_number cs = Some (n, r)"
  shows "\<exists>c ds. cs = c # ds \<and> (is_digit c \<or> c = CHR ''-'')"
proof (cases cs)
  case Nil
  then show ?thesis using assms by (simp add: parse_number_def parse_int_def)
next
  case (Cons c ds)
  then show ?thesis
    using assms
    by (auto simp: parse_number_def parse_int_def parse_digits_def Let_def is_digit_def
        split: if_split_asm option.split_asm)
qed

lemma parse_digits_split: "parse_digits cs = Some (x, r) \<Longrightarrow> cs = x @ r"
  by (auto simp: parse_digits_def Let_def split: if_split_asm)

lemma parse_int_split: "parse_int cs = Some (x, r) \<Longrightarrow> cs = x @ r"
  by (cases cs) (auto simp: parse_int_def dest: parse_digits_split split: if_split_asm)

lemma parse_frac_split: "parse_frac cs = Some (x, r) \<Longrightarrow> cs = x @ r"
  by (cases cs) (auto simp: parse_frac_def dest: parse_digits_split split: if_split_asm)

lemma parse_exp_split: "parse_exp cs = Some (x, r) \<Longrightarrow> cs = x @ r"
  by (auto simp: parse_exp_def dest: parse_digits_split split: list.split_asm if_split_asm)

lemma parse_number_split: "parse_number cs = Some (n, r) \<Longrightarrow> cs = n @ r"
  by (cases cs)
    (auto simp: parse_number_def Let_def dest!: parse_int_split parse_frac_split parse_exp_split
      split: if_split_asm option.split_asm)

lemma valid_number: "valid_number n = (parse_number n = Some (n, []))"
  by (auto simp: valid_number_def dest: parse_number_split split: option.split)

lemma json_text_head:
  "numbers_ok v \<Longrightarrow> \<exists>c cs. json_text v = c # cs \<and> \<not> json_space c \<and> c \<noteq> CHR '']''"
proof (cases v)
  case (JNum n)
  assume "numbers_ok v"
  then obtain c cs where "n = c # cs" "is_digit c \<or> c = CHR ''-''"
    using JNum number_head [of n] by (auto simp: valid_number)
  then show ?thesis using JNum by (auto simp: is_digit_def json_space_def)
qed (auto simp: json_space_def json_string_def)

lemma elems_text_head:
  "vs \<noteq> [] \<Longrightarrow> \<forall>v \<in> set vs. numbers_ok v \<Longrightarrow>
     \<exists>c cs. elems_text vs = c # cs \<and> \<not> json_space c \<and> c \<noteq> CHR '']''"
  by (cases vs rule: elems_text.cases) (use json_text_head in fastforce)+

lemma members_text_head: "ms \<noteq> [] \<Longrightarrow> \<exists>cs. members_text ms = CHR 0x22 # cs"
  by (cases ms rule: members_text.cases) (auto simp: json_string_def)

lemma number_ends_sep [simp]:
  "number_ends (CHR '','' # r)" "number_ends (CHR '']'' # r)" "number_ends (CHR ''}'' # r)"
  by (simp_all add: number_ends_def is_digit_def)

lemma json_space_sep [simp]:
  "\<not> json_space CHR '',''" "\<not> json_space CHR '']''" "\<not> json_space CHR ''}''" "\<not> json_space CHR '':''"
  "\<not> json_space CHR 0x22" "\<not> json_space CHR ''[''" "\<not> json_space CHR ''{''"
  by (simp_all add: json_space_def)

text \<open>One member and what follows it.\<close>

lemma parse_member:
  assumes "parse_value k (json_text v @ c # r) = Some (v, c # r)" "\<not> json_space c"
  shows "parse_members (Suc k) (json_string key @ CHR '':'' # json_text v @ c # r) =
    (if c = CHR '','' then map_option (apfst ((#) (key, v))) (parse_members k r)
     else if c = CHR ''}'' then Some ([(key, v)], r) else None)"
  using assms
  by (simp add: parse_members.simps(2) json_string_def skip_ws_head parse_json_string)

text \<open>A value is read from the text that starts with it; a number needs its end there.\<close>

lemma parse_printed:
  "numbers_ok v \<Longrightarrow> number_ends r \<Longrightarrow> \<exists>k. parse_value k (json_text v @ r) = Some (v, r)"
  "vs \<noteq> [] \<Longrightarrow> \<forall>v \<in> set vs. numbers_ok v \<Longrightarrow> \<exists>k. parse_elems k (elems_text vs @ r) = Some (vs, r)"
  "ms \<noteq> [] \<Longrightarrow> \<forall>m \<in> set ms. numbers_ok (snd m) \<Longrightarrow> \<exists>k. parse_members k (members_text ms @ r) = Some (ms, r)"
proof (induction v and vs and ms arbitrary: r and r and r rule: json_text_elems_text_members_text.induct)
  case 1
  show ?case by (rule exI [of _ "1"]) (simp add: parse_value.simps(2) skip_ws_head json_space_def after_word_def)
next
  case (2 b)
  show ?case by (rule exI [of _ "1"]) (simp add: parse_value.simps(2) skip_ws_head json_space_def after_word_def)
next
  case (3 n)
  then have n: "parse_number n = Some (n, [])"
    by (simp add: valid_number)
  then obtain c ds where c: "n = c # ds" "is_digit c \<or> c = CHR ''-''" using number_head by blast
  then have "c \<notin> {CHR ''n'', CHR ''t'', CHR ''f'', CHR 0x22, CHR ''['', CHR ''{''}" "\<not> json_space c"
    by (auto simp: is_digit_def json_space_def)
  then show ?case
    using parse_number_append [OF n 3(2)] c
    by (intro exI [of _ "1"]) (simp add: parse_value.simps(2) skip_ws_head)
next
  case (4 s)
  show ?case
    by (rule exI [of _ "1"])
      (simp add: parse_value.simps(2) json_string_def skip_ws_head json_space_def parse_json_string)
next
  case (5 vs)
  show ?case
  proof (cases "vs = []")
    case True
    then show ?thesis
      by (intro exI [of _ "1"]) (simp add: parse_value.simps(2) skip_ws_head)
  next
    case False
    obtain c cs where c: "elems_text vs = c # cs" "\<not> json_space c" "c \<noteq> CHR '']''"
      using elems_text_head [OF False] 5(2) by auto
    obtain k where "parse_elems k (elems_text vs @ r) = Some (vs, r)" using 5 False by auto
    then show ?thesis
      using c by (intro exI [of _ "Suc k"]) (simp add: parse_value.simps(2) skip_ws_head)
  qed
next
  case (6 ms)
  show ?case
  proof (cases "ms = []")
    case True
    then show ?thesis
      by (intro exI [of _ "1"]) (simp add: parse_value.simps(2) skip_ws_head)
  next
    case False
    obtain cs where c: "members_text ms = CHR 0x22 # cs" using members_text_head [OF False] by blast
    obtain k where "parse_members k (members_text ms @ r) = Some (ms, r)" using 6 False by auto
    then show ?thesis
      using c by (intro exI [of _ "Suc k"]) (simp add: parse_value.simps(2) skip_ws_head)
  qed
next
  case 7
  then show ?case by simp
next
  case (8 v)
  then obtain k where "parse_value k (json_text v @ '']'' @ r) = Some (v, '']'' @ r)"
    by fastforce
  then show ?case
    by (intro exI [of _ "Suc k"]) (simp add: parse_elems.simps(2) skip_ws_head)
next
  case (9 v w vs)
  obtain k where k: "parse_value k (json_text v @ CHR '','' # elems_text (w # vs) @ r)
      = Some (v, CHR '','' # elems_text (w # vs) @ r)"
    using 9(1) [of "CHR '','' # elems_text (w # vs) @ r"] 9(4) by auto
  obtain l where l: "parse_elems l (elems_text (w # vs) @ r) = Some (w # vs, r)"
    using 9(2) [of r] 9(4) by auto
  show ?case
    using parse_value_le [OF k, of "max k l"] parse_elems_le [OF l, of "max k l"]
    by (intro exI [of _ "Suc (max k l)"]) (simp add: parse_elems.simps(2) skip_ws_head)
next
  case 10
  then show ?case by simp
next
  case (11 key v)
  then obtain k where "parse_value k (json_text v @ CHR ''}'' # r) = Some (v, CHR ''}'' # r)"
    by fastforce
  from parse_member [OF this, of key] show ?case
    by (intro exI [of _ "Suc k"]) simp
next
  case (12 key v m ms)
  obtain k where k: "parse_value k (json_text v @ CHR '','' # members_text (m # ms) @ r)
      = Some (v, CHR '','' # members_text (m # ms) @ r)"
    using 12(1) [of "CHR '','' # members_text (m # ms) @ r"] 12(4) by auto
  obtain l where l: "parse_members l (members_text (m # ms) @ r) = Some (m # ms, r)"
    using 12(2) [of r] 12(4) by auto
  show ?case
    using parse_member [OF parse_value_le [OF k, of "max k l"], of key]
      parse_members_le [OF l, of "max k l"]
    by (intro exI [of _ "Suc (max k l)"]) simp
qed

lemma parse_text:
  assumes "numbers_ok v" "list_all json_space r"
  shows "json_parse (json_text v @ r) = Some v"
proof -
  have "number_ends r" using assms(2) by (cases r) (auto simp: number_ends_def json_space_def is_digit_def)
  then obtain k where "parse_value k (json_text v @ r) = Some (v, r)" using parse_printed(1) assms(1) by blast
  moreover have "skip_ws r = []" using assms(2) by (simp add: skip_ws_def list_all_iff)
  ultimately show ?thesis by (rule json_parse_ok)
qed

end
