(* ===== verification/Parse.thy ===== *)
theory Parse
  imports Json Runtime_Types
begin

text \<open>
  The readers of \<^verbatim>\<open>internal/runtime/parse.go\<close>: \<open>ParseStatus\<close> with its decoders and
  \<open>validateStatus\<close>, and \<open>ParseControlError\<close>. \<open>json.Unmarshal\<close> into a map keeps the last of
  several members with one name, into a string it takes \<open>null\<close> for no change; the texts of its type
  errors are those of \<^verbatim>\<open>encoding/json\<close>.
\<close>

section \<open>Texts\<close>

text \<open>The verb \<open>%q\<close>, for ASCII texts.\<close>

definition quote_char :: "char \<Rightarrow> string" where
  "quote_char c =
     (if c = CHR 0x22 \<or> c = CHR 0x5C then [CHR 0x5C, c]
      else if c = CHR 0x07 then [CHR 0x5C, CHR ''a'']
      else if c = CHR 0x08 then [CHR 0x5C, CHR ''b'']
      else if c = CHR 0x0C then [CHR 0x5C, CHR ''f'']
      else if c = CHR 0x0A then [CHR 0x5C, CHR ''n'']
      else if c = CHR 0x0D then [CHR 0x5C, CHR ''r'']
      else if c = CHR 0x09 then [CHR 0x5C, CHR ''t'']
      else if c = CHR 0x0B then [CHR 0x5C, CHR ''v'']
      else if of_char c < (32 :: nat) \<or> c = CHR 0x7F
        then [CHR 0x5C, CHR ''x'', hex_char (of_char c div 16), hex_char (of_char c mod 16)]
      else [c])"

definition go_quote :: "string \<Rightarrow> string" where
  "go_quote s = CHR 0x22 # concat (map quote_char s) @ [CHR 0x22]"

section \<open>Unmarshalling\<close>

fun json_kind :: "json \<Rightarrow> string" where
  "json_kind JNull = ''null''"
| "json_kind (JBool _) = ''bool''"
| "json_kind (JNum _) = ''number''"
| "json_kind (JStr _) = ''string''"
| "json_kind (JArr _) = ''array''"
| "json_kind (JObj _) = ''object''"

definition type_error :: "string \<Rightarrow> json \<Rightarrow> goerr" where
  "type_error t j =
     Plain (''json: cannot unmarshal '' @ json_kind j @ '' into Go value of type '' @ t)"

fun unmarshal_string :: "json \<Rightarrow> goerr + string" where
  "unmarshal_string JNull = Inr ''''"
| "unmarshal_string (JStr s) = Inr s"
| "unmarshal_string j = Inl (type_error ''string'' j)"

text \<open>A map as the members in the order of the text; \<open>member\<close> reads the last one of a name.\<close>

fun unmarshal_map :: "json \<Rightarrow> goerr + (string \<times> json) list" where
  "unmarshal_map JNull = Inr []"
| "unmarshal_map (JObj ms) = Inr ms"
| "unmarshal_map j = Inl (type_error ''map[string]json.RawMessage'' j)"

definition member_at :: "(string \<times> json) list \<Rightarrow> string \<Rightarrow> json option" where
  "member_at ms k = map_of (rev ms) k"

text \<open>A \<open>json.Number\<close> is read from a number and also from a string that holds one.\<close>

fun unmarshal_number :: "json \<Rightarrow> goerr + string" where
  "unmarshal_number JNull = Inr ''''"
| "unmarshal_number (JNum n) = Inr n"
| "unmarshal_number (JStr s) =
     (if valid_number s then Inr s
      else Inl (Plain (''json: invalid number literal, trying to unmarshal ''
                 @ go_quote (CHR 0x22 # s @ [CHR 0x22]) @ '' into Number'')))"
| "unmarshal_number j = Inl (type_error ''json.Number'' j)"

text \<open>\<open>strconv.ParseInt(s, 10, 64)\<close>, which \<open>Number.Int64\<close> calls.\<close>

definition digits_value :: "string \<Rightarrow> int" where
  "digits_value ds = foldl (\<lambda>a c. 10 * a + (of_char c - 48)) 0 ds"

definition parse_int64 :: "string \<Rightarrow> int option" where
  "parse_int64 s =
     (let neg = prefix ''-'' s;
          ds = (if neg \<or> prefix ''+'' s then tl s else s);
          n = (if neg then - digits_value ds else digits_value ds)
      in if ds = [] \<or> \<not> list_all is_digit ds then None
         else if - (2 ^ 63) \<le> n \<and> n < 2 ^ 63 then Some n else None)"

section \<open>Status\<close>

definition status_error :: "string \<Rightarrow> goerr" where
  "status_error s = Plain (''status: '' @ s)"

definition decode_string :: "json \<Rightarrow> string \<Rightarrow> goerr + string" where
  "decode_string raw field =
     (if raw = JNull then Inl (status_error (''null '' @ field))
      else case unmarshal_string raw of
        Inl e \<Rightarrow> Inl (Wrapped (''status: '' @ field @ '': '') e)
      | Inr s \<Rightarrow> if s = '''' then Inl (status_error (''empty '' @ field)) else Inr s)"

definition decode_active :: "json \<Rightarrow> goerr + int" where
  "decode_active raw =
     (if raw = JNull then Inl (status_error ''null active_requests'')
      else case unmarshal_number raw of
        Inl e \<Rightarrow> Inl (Wrapped ''status: active_requests: '' e)
      | Inr n \<Rightarrow>
          (case parse_int64 n of
             None \<Rightarrow> Inl (status_error ''active_requests must be an integer'')
           | Some i \<Rightarrow> if i < 0 then Inl (status_error ''negative active_requests'') else Inr i))"

definition code_and_message :: "(string \<times> json) list \<Rightarrow> (string \<Rightarrow> goerr) \<Rightarrow> string \<Rightarrow> string \<Rightarrow>
    goerr + string \<times> string" where
  "code_and_message ms err missing dot =
     (case member_at ms ''code'' of
        None \<Rightarrow> Inl (err (missing @ ''code''))
      | Some c \<Rightarrow>
          (case member_at ms ''message'' of
             None \<Rightarrow> Inl (err (missing @ ''message''))
           | Some m \<Rightarrow>
               (case unmarshal_string c of
                  Inl _ \<Rightarrow> Inl (err (dot @ ''code''))
                | Inr code \<Rightarrow>
                    if code = '''' then Inl (err (dot @ ''code''))
                    else (case unmarshal_string m of
                            Inl _ \<Rightarrow> Inl (err (dot @ ''message''))
                          | Inr msg \<Rightarrow> Inr (code, msg)))))"

definition decode_last_error :: "json \<Rightarrow> goerr + last_error option" where
  "decode_last_error raw =
     (if raw = JNull then Inr None
      else case unmarshal_map raw of
        Inl e \<Rightarrow> Inl (Wrapped ''status: last_error: '' e)
      | Inr ms \<Rightarrow>
          and_then (code_and_message ms status_error ''last_error missing '' ''last_error.'')
            (\<lambda>(c, m). Inr (Some \<lparr>le_code = c, le_message = m\<rparr>)))"

fun wire_text :: "wire_state \<Rightarrow> string" where
  "wire_text WireUnloaded = ''unloaded''"
| "wire_text WireLoading = ''loading''"
| "wire_text WireReady = ''ready''"
| "wire_text WireUnloading = ''unloading''"
| "wire_text WireFailed = ''failed''"
| "wire_text (WireOther s) = s"

fun residency_text :: "residency \<Rightarrow> string" where
  "residency_text ResidencyResident = ''resident''"
| "residency_text ResidencyNotResident = ''not_resident''"
| "residency_text ResidencyUnknown = ''unknown''"
| "residency_text (ResidencyOther s) = s"

definition validate_status :: "status \<Rightarrow> goerr option" where
  "validate_status st =
     (if (case wire st of WireOther _ \<Rightarrow> True | _ \<Rightarrow> False)
        then Some (status_error (''invalid state '' @ go_quote (wire_text (wire st))))
      else if (case resid st of ResidencyOther _ \<Rightarrow> True | _ \<Rightarrow> False)
        then Some (status_error (''invalid residency '' @ go_quote (residency_text (resid st))))
      else if wire st = WireReady \<and> resid st \<noteq> ResidencyResident
        then Some (status_error ''ready requires residency=resident'')
      else if wire st = WireUnloaded \<and> (resid st \<noteq> ResidencyNotResident \<or> activeRequests st \<noteq> 0)
        then Some (status_error ''unloaded requires not_resident and active_requests=0'')
      else None)"

definition validated :: "status \<Rightarrow> goerr + status" where
  "validated st = (case validate_status st of Some e \<Rightarrow> Inl e | None \<Rightarrow> Inr st)"

definition status_keys :: "string list" where
  "status_keys = [''state'', ''residency'', ''active_requests'', ''last_error'']"

definition parse_status_members :: "(string \<times> json) list \<Rightarrow> goerr + status" where
  "parse_status_members raw =
     (case filter (\<lambda>k. member_at raw k = None) status_keys of
        k # _ \<Rightarrow> Inl (status_error (''missing '' @ k))
      | [] \<Rightarrow>
          and_then (decode_string (the (member_at raw ''state'')) ''state'') (\<lambda>state.
          and_then (decode_string (the (member_at raw ''residency'')) ''residency'') (\<lambda>residency.
          and_then (decode_active (the (member_at raw ''active_requests''))) (\<lambda>active.
          and_then (decode_last_error (the (member_at raw ''last_error''))) (\<lambda>last.
            validated \<lparr>wire = wire_state_of state, resid = residency_of residency,
                       activeRequests = active, lastError = last\<rparr>)))))"

definition parse_status :: "string \<Rightarrow> goerr + status" where
  "parse_status body =
     (case json_parse body of
        None \<Rightarrow> Inl (status_error ''malformed json'')
      | Some j \<Rightarrow>
          (case unmarshal_map j of
             Inl _ \<Rightarrow> Inl (status_error ''malformed json'')
           | Inr raw \<Rightarrow> parse_status_members raw))"

section \<open>Control errors\<close>

definition control_error :: "string \<Rightarrow> goerr" where
  "control_error s = Plain (''control error: '' @ s)"

definition parse_control_error :: "string \<Rightarrow> goerr + string \<times> string" where
  "parse_control_error body =
     (case json_parse body of
        None \<Rightarrow> Inl (control_error ''malformed json'')
      | Some j \<Rightarrow>
          (case unmarshal_map j of
             Inl _ \<Rightarrow> Inl (control_error ''malformed json'')
           | Inr raw \<Rightarrow>
               (case member_at raw ''error'' of
                  None \<Rightarrow> Inl (control_error ''missing error'')
                | Some er \<Rightarrow>
                    (case unmarshal_map er of
                       Inl e \<Rightarrow> Inl (Wrapped ''control error: '' e)
                     | Inr ms \<Rightarrow> code_and_message ms control_error ''missing error.'' ''error.''))))"

section \<open>Accepted statuses\<close>

lemma validate_status_ok:
  "(validate_status st = None) =
     (wire st \<in> {WireUnloaded, WireLoading, WireReady, WireUnloading, WireFailed}
      \<and> resid st \<in> {ResidencyResident, ResidencyNotResident, ResidencyUnknown}
      \<and> (wire st = WireReady \<longrightarrow> resid st = ResidencyResident)
      \<and> (wire st = WireUnloaded \<longrightarrow> resid st = ResidencyNotResident \<and> activeRequests st = 0))"
  by (cases "wire st"; cases "resid st") (simp_all add: validate_status_def)

lemma parse_int64_bounds: "parse_int64 s = Some n \<Longrightarrow> - (2 ^ 63) \<le> n \<and> n < 2 ^ 63"
  unfolding parse_int64_def Let_def by (simp split: if_split_asm)

lemma decode_active_bounds:
  assumes "decode_active raw = Inr n"
  shows "0 \<le> n \<and> n < 2 ^ 63"
proof -
  obtain s where "parse_int64 s = Some n" "\<not> n < 0"
    using assms by (simp add: decode_active_def split: if_split_asm sum.split_asm option.split_asm)
  then show ?thesis using parse_int64_bounds [of s n] by linarith
qed

lemma validated_ok: "(validated st = Inr st') = (st' = st \<and> validate_status st = None)"
  by (auto simp: validated_def split: option.split)

lemma parse_status_members_ok:
  assumes "parse_status_members raw = Inr st"
  shows "validate_status st = None" "0 \<le> activeRequests st" "activeRequests st < 2 ^ 63"
proof -
  obtain n where n: "decode_active (the (member_at raw ''active_requests'')) = Inr n"
    and st: "activeRequests st = n" "validate_status st = None"
    using assms unfolding parse_status_members_def
    by (cases "filter (\<lambda>k. member_at raw k = None) status_keys")
      (auto simp only: list.case and_then_Inr sum.distinct validated_ok status.select_convs)
  show "validate_status st = None" by (rule st)
  show "0 \<le> activeRequests st" "activeRequests st < 2 ^ 63"
    using decode_active_bounds [OF n] st by simp_all
qed

lemma parse_status_ok:
  assumes "parse_status body = Inr st"
  shows "validate_status st = None" "0 \<le> activeRequests st" "activeRequests st < 2 ^ 63"
proof -
  obtain raw where r: "parse_status_members raw = Inr st"
    using assms unfolding parse_status_def
    by (auto simp only: sum.distinct split: option.split_asm sum.split_asm)
  show "validate_status st = None" "0 \<le> activeRequests st" "activeRequests st < 2 ^ 63"
    by (rule parse_status_members_ok [OF r])+
qed

lemma valid_status_classified:
  assumes "validate_status st = None" "0 \<le> activeRequests st"
  shows "classify_recovery st \<noteq> RecInvalid"
  using assms
  by (cases "wire st"; cases "resid st") (simp_all add: validate_status_def classify_recovery_def split: if_split_asm)

section \<open>Decimal texts\<close>

text \<open>The verb \<open>%d\<close>.\<close>

fun nat_text :: "nat \<Rightarrow> string" where
  "nat_text n = (if n < 10 then [char_of (48 + n)] else nat_text (n div 10) @ [char_of (48 + n mod 10)])"

declare nat_text.simps [simp del]

definition int_text :: "int \<Rightarrow> string" where
  "int_text i = (if i < 0 then CHR ''-'' # nat_text (nat (- i)) else nat_text (nat i))"

lemma digit_char:
  assumes "k < 10"
  shows "is_digit (char_of (48 + k))" "of_char (char_of (48 + k) :: char) = (48 :: int) + int k"
    "char_of (48 + k) = CHR ''0'' \<longleftrightarrow> k = 0"
proof -
  have "list_all (\<lambda>k. is_digit (char_of (48 + k)) \<and> of_char (char_of (48 + k) :: char) = (48 :: int) + int k
      \<and> ((char_of (48 + k) = CHR ''0'') = (k = 0))) [0..<10]"
    by code_simp
  then show "is_digit (char_of (48 + k))" "of_char (char_of (48 + k) :: char) = (48 :: int) + int k"
    "char_of (48 + k) = CHR ''0'' \<longleftrightarrow> k = 0"
    using assms by (simp_all add: list_all_iff)
qed

lemma nat_text_digits: "nat_text n \<noteq> []" "list_all is_digit (nat_text n)"
proof (induction n rule: nat_text.induct)
  case (1 n)
  { case 1 show ?case by (subst nat_text.simps) simp }
  { case 2 show ?case using 1 digit_char(1) [of n] digit_char(1) [of "n mod 10"] by (subst nat_text.simps) auto }
qed

lemma nat_text_value: "digits_value (nat_text n) = int n"
proof (induction n rule: nat_text.induct)
  case (1 n)
  then show ?case
    using digit_char(2) [of n] digit_char(2) [of "n mod 10"]
    by (subst nat_text.simps) (auto simp: digits_value_def, presburger)
qed

lemma nat_text_zero: "hd (nat_text n) = CHR ''0'' \<Longrightarrow> n = 0"
proof (induction n rule: nat_text.induct)
  case (1 n)
  then show ?case
    using digit_char(3) [of n] nat_text_digits(1) [of "n div 10"]
    by (cases "n < 10") (simp_all add: nat_text.simps [of n])
qed

lemma parse_nat_text: "parse_number (nat_text n) = Some (nat_text n, [])"
proof -
  obtain c cs where c: "nat_text n = c # cs" using nat_text_digits(1) by (cases "nat_text n") auto
  have d: "is_digit c" "list_all is_digit cs" using nat_text_digits(2) [of n] c by simp_all
  then have "takeWhile is_digit (c # cs) = c # cs" "dropWhile is_digit (c # cs) = []"
    by (simp_all add: list_all_iff takeWhile_eq_all_conv [THEN iffD2])
  then have "parse_int (nat_text n) = Some (nat_text n, [])"
    using c d nat_text_zero [of n] by (auto simp: parse_int_def parse_digits_def nat_text.simps [of 0])
  moreover have "c \<noteq> CHR ''-''" using d by (auto simp: is_digit_def)
  ultimately show ?thesis
    using c by (simp add: parse_number_def parse_frac_def parse_exp_def)
qed

lemma parse_int64_text:
  assumes "0 \<le> i" "i < 2 ^ 63"
  shows "parse_int64 (int_text i) = Some i"
proof -
  obtain c cs where c: "nat_text (nat i) = c # cs"
    using nat_text_digits(1) by (cases "nat_text (nat i)") auto
  have "c \<noteq> CHR ''-''" "c \<noteq> CHR ''+''"
    using nat_text_digits(2) [of "nat i"] c by (auto simp: is_digit_def)
  moreover have "int_text i = nat_text (nat i)" using assms by (simp add: int_text_def)
  ultimately show ?thesis
    using nat_text_digits [of "nat i"] nat_text_value [of "nat i"] assms c
    by (simp add: parse_int64_def Let_def)
qed

section \<open>The documents a runtime sends\<close>

text \<open>As \<^verbatim>\<open>runtime/mock/types.go\<close> encodes its statuses and control errors.\<close>

definition last_error_json :: "last_error option \<Rightarrow> json" where
  "last_error_json e =
     (case e of
        None \<Rightarrow> JNull
      | Some l \<Rightarrow> JObj [(''code'', JStr (le_code l)), (''message'', JStr (le_message l))])"

definition encode_status :: "status \<Rightarrow> string" where
  "encode_status st =
     json_text (JObj [(''state'', JStr (wire_text (wire st))),
                      (''residency'', JStr (residency_text (resid st))),
                      (''active_requests'', JNum (int_text (activeRequests st))),
                      (''last_error'', last_error_json (lastError st))]) @ [CHR 0x0A]"

definition encode_control_error :: "string \<Rightarrow> string \<Rightarrow> string" where
  "encode_control_error message code =
     json_text (JObj [(''error'', JObj [(''code'', JStr code), (''message'', JStr message)])]) @ [CHR 0x0A]"

lemma wire_state_text: "wire st \<in> {WireUnloaded, WireLoading, WireReady, WireUnloading, WireFailed} \<Longrightarrow>
    wire_state_of (wire_text (wire st)) = wire st \<and> wire_text (wire st) \<noteq> ''''"
  by (auto simp: wire_state_of_def)

lemma residency_of_text: "resid st \<in> {ResidencyResident, ResidencyNotResident, ResidencyUnknown} \<Longrightarrow>
    residency_of (residency_text (resid st)) = resid st \<and> residency_text (resid st) \<noteq> ''''"
  by (auto simp: residency_of_def)

lemma decode_encoded_error:
  "\<forall>l. e = Some l \<longrightarrow> le_code l \<noteq> '''' \<Longrightarrow> decode_last_error (last_error_json e) = Inr e"
  by (cases e) (simp_all add: decode_last_error_def last_error_json_def code_and_message_def member_at_def)

lemma parse_encoded_status:
  assumes "validate_status st = None" "0 \<le> activeRequests st" "activeRequests st < 2 ^ 63"
    and "\<forall>l. lastError st = Some l \<longrightarrow> le_code l \<noteq> ''''"
  shows "parse_status (encode_status st) = Inr st"
proof -
  note v = validate_status_ok [of st, THEN iffD1, OF assms(1)]
  let ?ms = "[(''state'', JStr (wire_text (wire st))), (''residency'', JStr (residency_text (resid st))),
    (''active_requests'', JNum (int_text (activeRequests st))), (''last_error'', last_error_json (lastError st))]"
  have "numbers_ok (JObj ?ms)"
    using assms(2) parse_nat_text [of "nat (activeRequests st)"]
    by (simp add: last_error_json_def valid_number int_text_def split: option.split)
  then have j: "json_parse (encode_status st) = Some (JObj ?ms)"
    unfolding encode_status_def by (rule parse_text) (simp add: json_space_def)
  have m: "member_at ?ms ''state'' = Some (JStr (wire_text (wire st)))"
    "member_at ?ms ''residency'' = Some (JStr (residency_text (resid st)))"
    "member_at ?ms ''active_requests'' = Some (JNum (int_text (activeRequests st)))"
    "member_at ?ms ''last_error'' = Some (last_error_json (lastError st))"
    by (simp_all add: member_at_def)
  have eq: "\<lparr>wire = wire_state_of (wire_text (wire st)), resid = residency_of (residency_text (resid st)),
      activeRequests = activeRequests st, lastError = lastError st\<rparr> = st"
    using wire_state_text [of st] residency_of_text [of st] v by simp
  have d: "decode_string (JStr (wire_text (wire st))) ''state'' = Inr (wire_text (wire st))"
    "decode_string (JStr (residency_text (resid st))) ''residency'' = Inr (residency_text (resid st))"
    "decode_active (JNum (int_text (activeRequests st))) = Inr (activeRequests st)"
    using wire_state_text [of st] residency_of_text [of st] v parse_int64_text [OF assms(2,3)] assms(2)
    by (simp_all add: decode_string_def decode_active_def)
  have k: "filter (\<lambda>k. member_at ?ms k = None) status_keys = []"
    by (simp only: status_keys_def filter.simps m option.distinct if_False)
  have "parse_status_members ?ms = validated st"
    unfolding parse_status_members_def k
    by (simp only: list.case m option.sel d decode_encoded_error [OF assms(4)] and_then_simps eq)
  then have "parse_status_members ?ms = Inr st" using assms(1) by (simp add: validated_ok)
  then show ?thesis using j by (simp add: parse_status_def)
qed

lemma parse_encoded_control_error:
  "code \<noteq> '''' \<Longrightarrow> parse_control_error (encode_control_error message code) = Inr (code, message)"
proof -
  assume "code \<noteq> ''''"
  have "json_parse (encode_control_error message code)
      = Some (JObj [(''error'', JObj [(''code'', JStr code), (''message'', JStr message)])])"
    unfolding encode_control_error_def by (rule parse_text) (simp_all add: json_space_def)
  then show ?thesis
    using \<open>code \<noteq> ''''\<close> by (simp add: parse_control_error_def member_at_def code_and_message_def)
qed

end
