(* ===== verification/Client_Ops.thy ===== *)
theory Client_Ops
  imports Config Parse
begin

text \<open>
  The control operations of the runtime client, \<^verbatim>\<open>internal/runtime/client.go\<close> and
  \<^verbatim>\<open>prepare.go\<close>: reading a status, the calls of the control endpoints, \<open>doEnsure\<close> (which brings a
  runtime to ready) and \<open>doStop\<close>. An operation runs on its own against one runtime; what it reads on
  its way (answers of the endpoint, clock, contexts, the admission of the router) is a record, and
  its value is the list of control actions it took, in order, with its result. A loop reads its
  rounds from a list; \<open>None\<close> is a list that ends before the loop does.
\<close>

section \<open>The client's settings\<close>

record client_cfg =
  cc_id :: string
  cc_baseURL :: string
  cc_prepare :: "string list option"
  cc_prepareTimeout :: gdur
  cc_healthCheckTimeout :: gdur
  cc_unloadTimeout :: gdur
  cc_statusTimeout :: gdur

text \<open>\<open>NewClient\<close>; no \<open>globals\<close> is \<open>None\<close>.\<close>

definition new_client_cfg :: "model \<Rightarrow> config option \<Rightarrow> client_cfg" where
  "new_client_cfg m globals =
     \<lparr>cc_id = m_id m, cc_baseURL = trim_slashes (m_baseURL m), cc_prepare = m_prepare m,
      cc_prepareTimeout = m_prepareTimeout m, cc_healthCheckTimeout = m_healthCheckTimeout m,
      cc_unloadTimeout = m_unloadTimeout m,
      cc_statusTimeout =
        (case globals of
           None \<Rightarrow> 5 * second
         | Some g \<Rightarrow> if c_statusTimeout g > 0 then c_statusTimeout g else 5 * second)\<rparr>"

section \<open>Requests to the runtime\<close>

text \<open>
  The outcome of one HTTP request: it failed, or it was answered with a status code, the bytes of
  the body that could be read, and the error that ended the reading early.
\<close>

datatype http_answer =
    Failed goerr
  | Response int string "goerr option"

definition fetch_status :: "http_answer \<Rightarrow> goerr + status" where
  "fetch_status a =
     (case a of
        Failed e \<Rightarrow> Inl e
      | Response code body err \<Rightarrow>
          (case err of
             Some e \<Rightarrow> Inl e
           | None \<Rightarrow>
               if code \<noteq> 200 then Inl (Plain (''status: HTTP '' @ int_text code))
               else parse_status body))"

text \<open>\<open>postControl\<close> does not look at the error of reading the body.\<close>

definition post_control :: "string \<Rightarrow> http_answer \<Rightarrow> goerr + string" where
  "post_control path a =
     (case a of
        Failed e \<Rightarrow> Inl e
      | Response code body _ \<Rightarrow>
          if code \<noteq> 200 then
            (case parse_control_error body of
               Inl _ \<Rightarrow> Inl (Plain (path @ '': HTTP '' @ int_text code @ '': '' @ trim_space body))
             | Inr (c, m) \<Rightarrow> Inl (ControlFault code c m))
          else Inr body)"

text \<open>What an operation does to the runtime or asks of the router.\<close>

datatype control_act =
    ActPrepare "string list" string
  | ActGate
  | ActLoad gdur
  | ActUnload gdur

section \<open>The prepare command\<close>

text \<open>\<open>filepath.Dir\<close>: the path up to its last slash, cleaned.\<close>

fun split_path :: "string \<Rightarrow> string list" where
  "split_path [] = [[]]"
| "split_path (c # cs) =
     (if c = CHR ''/'' then [] # split_path cs
      else (case split_path cs of [] \<Rightarrow> [[c]] | p # ps \<Rightarrow> (c # p) # ps))"

text \<open>The components kept so far are in reverse.\<close>

fun clean_parts :: "bool \<Rightarrow> string list \<Rightarrow> string list \<Rightarrow> string list" where
  "clean_parts rooted acc [] = rev acc"
| "clean_parts rooted acc (p # ps) =
     (if p = [] \<or> p = ''.'' then clean_parts rooted acc ps
      else if p = ''..'' then
        (case acc of
           [] \<Rightarrow> clean_parts rooted (if rooted then [] else [p]) ps
         | a # as \<Rightarrow> clean_parts rooted (if a = ''..'' then p # acc else as) ps)
      else clean_parts rooted (p # acc) ps)"

fun join_path :: "string list \<Rightarrow> string" where
  "join_path [] = []"
| "join_path [p] = p"
| "join_path (p # q # ps) = p @ CHR ''/'' # join_path (q # ps)"

definition clean_path :: "string \<Rightarrow> string" where
  "clean_path s =
     (let rooted = prefix ''/'' s; out = join_path (clean_parts rooted [] (split_path s))
      in if rooted then CHR ''/'' # out else if out = [] then ''.'' else out)"

definition dir_of :: "string \<Rightarrow> string" where
  "dir_of s = clean_path (rev (dropWhile (\<lambda>c. c \<noteq> CHR ''/'') (rev s)))"

definition prepare_cwd :: "string list \<Rightarrow> string" where
  "prepare_cwd argv = (case argv of [] \<Rightarrow> [] | a # _ \<Rightarrow> dir_of a)"

definition prepare_unavailable :: goerr where
  "prepare_unavailable =
     CodeError ''PREPARE_UNAVAILABLE'' ''endpoint is down and no prepare command is registered''"

text \<open>\<open>Duration.String\<close> for whole seconds, not negative.\<close>

definition duration_text :: "gdur \<Rightarrow> string" where
  "duration_text d =
     (let s = d div second
      in if s < 60 then int_text s @ ''s''
         else if s < 3600 then int_text (s div 60) @ ''m'' @ int_text (s mod 60) @ ''s''
         else int_text (s div 3600) @ ''h'' @ int_text (s div 60 mod 60) @ ''m'' @ int_text (s mod 60) @ ''s'')"

text \<open>The command ended, the timeout came first, or the operation was cancelled first.\<close>

datatype prep_outcome =
    PrepExit "goerr option"
  | PrepTimeout
  | PrepCancelled goerr

text \<open>
  \<open>runPrepare\<close>, with the flag \<open>prepBusy\<close> as it finds and as it leaves it. When it does not wait for
  the end of the command the flag stays up until the command ends.
\<close>

definition run_prepare ::
  "client_cfg \<Rightarrow> bool \<Rightarrow> prep_outcome \<Rightarrow> control_act list \<times> goerr option \<times> bool" where
  "run_prepare cfg prepBusy outcome =
     (if prepBusy then ([], Some (Plain ''prepare still running''), True)
      else case cc_prepare cfg of
        None \<Rightarrow> ([], Some prepare_unavailable, False)
      | Some argv \<Rightarrow>
          if argv = [] then ([], Some prepare_unavailable, False)
          else ([ActPrepare argv (prepare_cwd argv)],
                (case outcome of
                   PrepExit None \<Rightarrow> (None, False)
                 | PrepExit (Some e) \<Rightarrow> (Some (Wrapped ''prepare failed: '' e), False)
                 | PrepTimeout \<Rightarrow>
                     (Some (Plain (''prepare timed out after '' @ duration_text (cc_prepareTimeout cfg))), True)
                 | PrepCancelled e \<Rightarrow> (Some e, True))))"

section \<open>Waiting for ready\<close>

text \<open>One round: the clock, the status, the context when the status failed, the context in the pause.\<close>

record ready_poll =
  wp_now :: gtime
  wp_status :: http_answer
  wp_ctx :: "goerr option"
  wp_cancelled :: "goerr option"

fun wait_ready :: "gtime \<Rightarrow> ready_poll list \<Rightarrow> goerr option option" where
  "wait_ready deadline [] = None"
| "wait_ready deadline (p # ps) =
     (let go_on = (case wp_cancelled p of Some e \<Rightarrow> Some (Some e) | None \<Rightarrow> wait_ready deadline ps)
      in if \<not> wp_now p < deadline then Some (Some (Plain ''ready check timed out''))
         else case fetch_status (wp_status p) of
           Inl _ \<Rightarrow> (case wp_ctx p of Some e \<Rightarrow> Some (Some e) | None \<Rightarrow> go_on)
         | Inr st \<Rightarrow>
             (case wire st of
                WireReady \<Rightarrow> Some None
              | WireFailed \<Rightarrow>
                  Some (Some (Plain (''remote state=failed residency='' @ residency_text (resid st))))
              | WireUnloaded \<Rightarrow> Some (Some (Plain ''load ended unloaded''))
              | _ \<Rightarrow> go_on))"

section \<open>Loading\<close>

text \<open>\<open>en_gate\<close> is the admission of the router: \<open>None\<close> when no gate is set.\<close>

record ensure_env =
  en_first :: http_answer
  en_prepBusy :: bool
  en_prepare :: prep_outcome
  en_second :: http_answer
  en_waitNow :: gtime
  en_waitPolls :: "ready_poll list"
  en_gate :: "goerr option option"
  en_loadNow :: gtime
  en_postNow :: gtime
  en_post :: http_answer
  en_observed :: http_answer
  en_loadPolls :: "ready_poll list"

definition load_budget :: "client_cfg \<Rightarrow> gdur \<Rightarrow> gdur" where
  "load_budget cfg timeout = (if timeout > 0 then timeout else cc_healthCheckTimeout cfg)"

definition wait_load_gate :: "goerr option option \<Rightarrow> goerr option" where
  "wait_load_gate gate =
     (case gate of None \<Rightarrow> Some (Plain ''load refused without admission'') | Some r \<Rightarrow> r)"

definition post_load :: "gtime \<Rightarrow> gtime \<Rightarrow> http_answer \<Rightarrow> control_act list \<times> (goerr + status)" where
  "post_load deadline now a =
     (let remaining = time_sub deadline now
      in if remaining \<le> 0 then ([], Inl (Plain ''load deadline exceeded''))
         else ([ActLoad remaining], and_then (post_control ''/control/load'' a) parse_status))"

definition last_code :: "status \<Rightarrow> string" where
  "last_code st = (case lastError st of None \<Rightarrow> '''' | Some e \<Rightarrow> le_code e)"

definition timed_out :: "goerr \<Rightarrow> bool" where
  "timed_out e = (err_is e DeadlineExceeded \<or> is_timeout e)"

definition state_text :: "status \<Rightarrow> string" where
  "state_text st = ''state='' @ wire_text (wire st) @ '' residency='' @ residency_text (resid st)"

text \<open>From the gate on: the part of \<open>ensureFromStatus\<close> behind the switch.\<close>

definition load_now :: "gdur \<Rightarrow> ensure_env \<Rightarrow> control_act list \<times> goerr option option" where
  "load_now budget env =
     (case wait_load_gate (en_gate env) of
        Some e \<Rightarrow> ([ActGate], Some (Some e))
      | None \<Rightarrow>
          let deadline = en_loadNow env + budget;
              (acts, res) = post_load deadline (en_postNow env) (en_post env)
          in (ActGate # acts,
              (case res of
                 Inr st \<Rightarrow>
                   if wire st \<noteq> WireReady \<or> resid st \<noteq> ResidencyResident
                   then Some (Some (Plain ''load response is not ready/resident''))
                   else Some None
               | Inl e \<Rightarrow>
                   if \<not> timed_out e then Some (Some e)
                   else (case fetch_status (en_observed env) of
                           Inl _ \<Rightarrow> Some (Some e)
                         | Inr o' \<Rightarrow>
                             if wire o' = WireReady then Some None
                             else if wire o' = WireLoading then wait_ready deadline (en_loadPolls env)
                             else if wire o' = WireFailed \<and> resid o' = ResidencyNotResident
                                 \<and> activeRequests o' = 0
                               then Some (Some (Plain (''load failed: '' @ last_code o')))
                             else Some (Some (Plain (''load not confirmed: '' @ state_text o')))))))"

definition ensure_from_status ::
  "client_cfg \<Rightarrow> gdur \<Rightarrow> ensure_env \<Rightarrow> status \<Rightarrow> control_act list \<times> goerr option option" where
  "ensure_from_status cfg timeout env st =
     (let budget = load_budget cfg timeout
      in case wire st of
           WireReady \<Rightarrow> ([], Some None)
         | WireLoading \<Rightarrow> ([], wait_ready (en_waitNow env + budget) (en_waitPolls env))
         | WireUnloading \<Rightarrow> ([], Some (Some (Plain ''runtime is unloading'')))
         | WireFailed \<Rightarrow>
             if resid st = ResidencyNotResident \<and> activeRequests st = 0 then load_now budget env
             else ([], Some (Some (Plain
                     (''remote state=failed residency='' @ residency_text (resid st) @ ''; refusing load''))))
         | WireUnloaded \<Rightarrow> load_now budget env
         | WireOther s \<Rightarrow>
             ([], Some (Some (Plain (''remote state='' @ s @ ''; refusing to assume ready or stopped'')))))"

definition do_ensure ::
  "client_cfg \<Rightarrow> gdur \<Rightarrow> ensure_env \<Rightarrow> control_act list \<times> goerr option option" where
  "do_ensure cfg timeout env =
     (case fetch_status (en_first env) of
        Inr st \<Rightarrow> ensure_from_status cfg timeout env st
      | Inl err \<Rightarrow>
          if \<not> is_endpoint_down err then ([], Some (Some err))
          else
            let (acts, perr, _) = run_prepare cfg (en_prepBusy env) (en_prepare env)
            in case perr of
                 Some e \<Rightarrow> (acts, Some (Some e))
               | None \<Rightarrow>
                   (case fetch_status (en_second env) of
                      Inl e \<Rightarrow>
                        (acts, Some (Some (if is_endpoint_down e
                           then Wrapped ''endpoint still unavailable after prepare: '' e else e)))
                    | Inr st \<Rightarrow> apfst ((@) acts) (ensure_from_status cfg timeout env st)))"

section \<open>Unloading\<close>

record stop_env =
  se_first :: http_answer
  se_post :: http_answer
  se_observed :: http_answer

definition stop_timeout :: "client_cfg \<Rightarrow> gdur \<Rightarrow> gdur" where
  "stop_timeout cfg timeout = (if timeout \<le> 0 then cc_unloadTimeout cfg else timeout)"

definition is_unloaded :: "status \<Rightarrow> bool" where
  "is_unloaded st = (wire st = WireUnloaded \<and> resid st = ResidencyNotResident \<and> activeRequests st = 0)"

definition do_stop :: "gdur \<Rightarrow> stop_env \<Rightarrow> control_act list \<times> goerr option" where
  "do_stop timeout env =
     (case fetch_status (se_first env) of
        Inl e \<Rightarrow> ([], Some e)
      | Inr st \<Rightarrow>
          if is_unloaded st then ([], None)
          else if activeRequests st > 0
            then ([], Some (Plain (''unload refused while active_requests='' @ int_text (activeRequests st))))
          else if wire st = WireLoading then ([], Some (Plain ''refusing unload while loading''))
          else ([ActUnload timeout],
                (case post_control ''/control/unload'' (se_post env) of
                   Inl e \<Rightarrow>
                     if \<not> timed_out e then Some e
                     else (case fetch_status (se_observed env) of
                             Inl _ \<Rightarrow> Some e
                           | Inr o' \<Rightarrow>
                               if is_unloaded o' then None
                               else Some (Plain (''unload not confirmed: '' @ state_text o')))
                 | Inr body \<Rightarrow>
                     (case parse_status body of
                        Inl e \<Rightarrow> Some e
                      | Inr parsed \<Rightarrow>
                          if is_unloaded parsed then None
                          else Some (Plain ''unload response is not unloaded'')))))"

definition load_fail_reason :: "goerr \<Rightarrow> string" where
  "load_fail_reason e = (if timed_out e then ''timeout'' else ''load_failed'')"

definition unload_fail_reason :: "goerr \<Rightarrow> string" where
  "unload_fail_reason e = (if timed_out e then ''timeout'' else ''unload_failed'')"

end
