(* ===== verification/Client.thy ===== *)
theory Client
  imports Client_Ops
begin

text \<open>
  The loop of the runtime client, \<^verbatim>\<open>Client.run\<close> of \<^verbatim>\<open>internal/runtime/client.go\<close>: one goroutine
  that owns the local state of a runtime and receives requests to load it, to stop it, to read its
  state again (\<open>Reconcile\<close>) and to apply the result of a recovery probe. A load runs beside the
  loop, which goes on receiving; a stop blocks it, so it is two events, its begin and its end. The
  requests carry an id that stands for their reply channel.
\<close>

section \<open>State\<close>

text \<open>What the loop tells others: replies, acknowledgements, and the operations it starts and cancels.\<close>

datatype client_eff =
    Reply nat "goerr option"
  | Ack nat apply_code
  | StartOp nat gdur
  | CancelOp nat

text \<open>
  \<open>cl_op\<close> is the operation whose channel the loop receives from (\<open>opDone\<close>, \<open>opCancel\<close>): its
  generation and its timeout. \<open>cl_stop\<close> is the stop the loop is blocked in, with its reply and
  timeout. \<open>cl_ended\<close> says that the loop has returned.

  The goroutine of an operation sends its result on the variable \<open>opDone\<close>, which the loop may have
  assigned anew by then. \<open>cl_stray\<close> are the operations whose channel the loop let go of before it
  received their result. Each still runs, and its result may come out of the channel the loop receives
  from now; sent on another channel, or on none, it is never received.
\<close>

record client =
  cl_state :: rstate
  cl_reason :: string
  cl_gen :: nat
  cl_inflight :: bool
  cl_op :: "(nat \<times> gdur) option"
  cl_stray :: "(nat \<times> gdur) list"
  cl_handler :: bool
  cl_remote :: "status option"
  cl_waiters :: "nat list"
  cl_stop :: "(nat \<times> gdur) option"
  cl_ended :: bool
  cl_out :: "client_eff list"

definition new_client :: client where
  "new_client =
     \<lparr>cl_state = StateUnknown, cl_reason = '''', cl_gen = 0, cl_inflight = False, cl_op = None, cl_stray = [],
      cl_handler = False, cl_remote = None, cl_waiters = [], cl_stop = None, cl_ended = False,
      cl_out = []\<rparr>"

section \<open>The closures of the loop\<close>

definition set_state :: "rstate \<Rightarrow> string \<Rightarrow> client \<Rightarrow> client" where
  "set_state st reason s = s\<lparr>cl_state := st, cl_reason := reason\<rparr>"

definition say :: "client_eff \<Rightarrow> client \<Rightarrow> client" where
  "say e s = s\<lparr>cl_out := cl_out s @ [e]\<rparr>"

definition notify :: "goerr option \<Rightarrow> client \<Rightarrow> client" where
  "notify err s =
     s\<lparr>cl_out := cl_out s @ map (\<lambda>w. Reply w err) (cl_waiters s), cl_waiters := []\<rparr>"

definition start_op :: "gdur \<Rightarrow> client \<Rightarrow> client" where
  "start_op timeout s =
     (let s1 = set_state StateStarting ''load'' s;
          gen = cl_gen s1 + 1
      in say (StartOp gen timeout)
           (s1\<lparr>cl_gen := gen, cl_op := Some (gen, timeout), cl_inflight := True,
              cl_stray := cl_stray s1 @ (case cl_op s1 of None \<Rightarrow> [] | Some p \<Rightarrow> [p])\<rparr>))"

text \<open>\<open>opCancel()\<close>, when there is an operation.\<close>

definition cancel_op :: "client \<Rightarrow> client" where
  "cancel_op s = (case cl_op s of None \<Rightarrow> s | Some (g, _) \<Rightarrow> say (CancelOp g) s)"

text \<open>The base URL of an accepted configuration parses, so \<open>installProxy\<close> installs a handler.\<close>

definition install_proxy :: "client \<Rightarrow> client" where
  "install_proxy s = s\<lparr>cl_handler := True\<rparr>"

definition drop_proxy :: "client \<Rightarrow> client" where
  "drop_proxy s = s\<lparr>cl_handler := False\<rparr>"

section \<open>Recovery and reconciliation\<close>

record apply_cmd =
  ac_gen :: nat
  ac_class :: recovery_class
  ac_status :: status
  ac_hasStatus :: bool

definition accept_apply :: "apply_cmd \<Rightarrow> client \<Rightarrow> client" where
  "accept_apply cmd s0 =
     (let s = (if ac_hasStatus cmd then s0\<lparr>cl_remote := Some (ac_status cmd)\<rparr> else s0)
      in case ac_class cmd of
           RecReadyIdle \<Rightarrow> set_state StateReady ''recovered'' (install_proxy s)
         | RecUnloadedIdle \<Rightarrow> set_state StateStopped ''recovered_unloaded'' (drop_proxy s)
         | RecFailedNotResidentIdle \<Rightarrow> set_state StateStopped ''recovered_remote_failed'' (drop_proxy s)
         | _ \<Rightarrow> s)"

definition apply_reconcile :: "http_answer \<Rightarrow> client \<Rightarrow> client" where
  "apply_reconcile a s =
     (case fetch_status a of
        Inl _ \<Rightarrow> drop_proxy (set_state StateUnknown ''reconcile'' s)
      | Inr st \<Rightarrow>
          (case wire st of
             WireReady \<Rightarrow> set_state StateReady ''reconcile'' (install_proxy s)
           | WireUnloaded \<Rightarrow> set_state StateStopped ''reconcile'' (drop_proxy s)
           | WireLoading \<Rightarrow> set_state StateStarting ''reconcile'' s
           | WireUnloading \<Rightarrow> set_state StateStopping ''reconcile'' s
           | WireFailed \<Rightarrow> set_state StateFailed ''reconcile'' (drop_proxy s)
           | WireOther _ \<Rightarrow> set_state StateUnknown ''reconcile'' s))"

section \<open>The loop\<close>

datatype client_event =
    CShutdown
  | CReconcile nat http_answer
  | CApply nat apply_cmd
  | CEnsure nat gdur
  | COpDone ensure_env
  | CStrayDone nat ensure_env
  | CStop nat gdur
  | CStopStray nat gdur nat
  | CStopDone stop_env

definition runtime_shutdown :: goerr where
  "runtime_shutdown = CodeError ''SHUTDOWN'' ''runtime is shutdown''"

definition on_shutdown_client :: "client \<Rightarrow> client" where
  "on_shutdown_client s =
     (notify (Some runtime_shutdown)
       (drop_proxy (cancel_op (set_state StateShutdown ''shutdown'' s))))\<lparr>cl_ended := True\<rparr>"

definition on_reconcile :: "nat \<Rightarrow> http_answer \<Rightarrow> client \<Rightarrow> client" where
  "on_reconcile i a s =
     (if cl_state s = StateShutdown then say (Reply i (Some runtime_shutdown)) s
      else
        let s1 = (if cl_op s = None then s\<lparr>cl_gen := cl_gen s + 1\<rparr> else s);
            s2 = say (Reply i None) (apply_reconcile a s1)
        in if cl_state s2 = StateStarting \<and> cl_op s2 = None then start_op 0 s2 else s2)"

definition on_apply :: "nat \<Rightarrow> apply_cmd \<Rightarrow> client \<Rightarrow> client" where
  "on_apply i cmd s =
     (if cl_state s = StateShutdown then say (Ack i ApplyStale) s
      else if cl_op s \<noteq> None then say (Ack i ApplyBusy) s
      else if ac_gen cmd \<noteq> cl_gen s then say (Ack i ApplyStale) s
      else
        let s1 = accept_apply cmd s
        in say (Ack i ApplyApplied) (s1\<lparr>cl_gen := cl_gen s1 + 1\<rparr>))"

definition on_ensure :: "nat \<Rightarrow> gdur \<Rightarrow> client \<Rightarrow> client" where
  "on_ensure i timeout s =
     (case cl_state s of
        StateShutdown \<Rightarrow> say (Reply i (Some runtime_shutdown)) s
      | StateReady \<Rightarrow> say (Reply i None) s
      | StateStarting \<Rightarrow> s\<lparr>cl_waiters := cl_waiters s @ [i]\<rparr>
      | _ \<Rightarrow> start_op timeout (s\<lparr>cl_waiters := cl_waiters s @ [i]\<rparr>))"

text \<open>The result of the operation of generation \<open>g\<close>.\<close>

definition on_op_done :: "nat \<Rightarrow> goerr option \<Rightarrow> client \<Rightarrow> client" where
  "on_op_done g err s =
     (let s1 = (cancel_op s)\<lparr>cl_op := None, cl_inflight := False\<rparr>
      in if g \<noteq> cl_gen s1 then s1
         else case err of
           Some e \<Rightarrow> notify (Some e) (set_state StateFailed (load_fail_reason e) (drop_proxy s1))
         | None \<Rightarrow> notify None (set_state StateReady ''ready'' (install_proxy s1)))"

text \<open>
  The loop receives, on the channel of the operation \<open>p\<close> it waits for, the result of the stray
  operation number \<open>k\<close>: that one is over, and \<open>p\<close> is stray now.
\<close>

definition swap_stray :: "nat \<Rightarrow> nat \<times> gdur \<Rightarrow> client \<Rightarrow> client" where
  "swap_stray k p s = s\<lparr>cl_stray := take k (cl_stray s) @ drop (Suc k) (cl_stray s) @ [p]\<rparr>"

definition on_stray_done :: "nat \<Rightarrow> goerr option \<Rightarrow> client \<Rightarrow> client" where
  "on_stray_done k err s =
     (case cl_op s of
        None \<Rightarrow> s
      | Some p \<Rightarrow> on_op_done (fst (cl_stray s ! k)) err (swap_stray k p s))"

definition on_stop :: "nat \<Rightarrow> gdur \<Rightarrow> client \<Rightarrow> client" where
  "on_stop i timeout s =
     (if cl_state s = StateShutdown then say (Reply i (Some runtime_shutdown)) s
      else
        let s1 = s\<lparr>cl_gen := cl_gen s + 1\<rparr>;
            s2 = (if cl_op s1 \<noteq> None then (cancel_op s1)\<lparr>cl_op := None, cl_inflight := False\<rparr> else s1)
        in (set_state StateStopping ''unload'' s2)\<lparr>cl_stop := Some (i, timeout)\<rparr>)"

text \<open>A stop during an operation takes whatever result comes first, the one of a stray operation too.\<close>

definition on_stop_stray :: "nat \<Rightarrow> gdur \<Rightarrow> nat \<Rightarrow> client \<Rightarrow> client" where
  "on_stop_stray i timeout k s =
     (case cl_op s of
        None \<Rightarrow> s
      | Some p \<Rightarrow> on_stop i timeout (if cl_state s = StateShutdown then s else swap_stray k p s))"

definition on_stop_done :: "nat \<Rightarrow> goerr option \<Rightarrow> client \<Rightarrow> client" where
  "on_stop_done i err s =
     (let s1 = drop_proxy s;
          s2 = (case err of
                  Some e \<Rightarrow> set_state StateFailed (unload_fail_reason e) s1
                | None \<Rightarrow> set_state StateStopped ''unloaded'' s1)
      in (say (Reply i err) (notify err s2))\<lparr>cl_stop := None\<rparr>)"

text \<open>
  One event. The loop receives it when it has not returned and is not blocked in a stop, whose end
  it waits for otherwise; a result is that of the operation in flight or of a stray one, whose
  generation and timeout it has. An event that cannot be received leaves the state as it is.
\<close>

fun client_step :: "client_cfg \<Rightarrow> client \<Rightarrow> client_event \<Rightarrow> client" where
  "client_step cfg s (CStopDone env) =
     (case cl_stop s of
        Some (i, timeout) \<Rightarrow> on_stop_done i (snd (do_stop (stop_timeout cfg timeout) env)) s
      | None \<Rightarrow> s)"
| "client_step cfg s (COpDone env) =
     (if cl_ended s \<or> cl_stop s \<noteq> None then s
      else case cl_op s of
        Some (g, timeout) \<Rightarrow>
          (case snd (do_ensure cfg timeout env) of None \<Rightarrow> s | Some err \<Rightarrow> on_op_done g err s)
      | None \<Rightarrow> s)"
| "client_step cfg s (CStrayDone k env) =
     (if cl_ended s \<or> cl_stop s \<noteq> None \<or> length (cl_stray s) \<le> k then s
      else case snd (do_ensure cfg (snd (cl_stray s ! k)) env) of
        None \<Rightarrow> s
      | Some err \<Rightarrow> on_stray_done k err s)"
| "client_step cfg s CShutdown =
     (if cl_ended s \<or> cl_stop s \<noteq> None then s else on_shutdown_client s)"
| "client_step cfg s (CReconcile i a) =
     (if cl_ended s \<or> cl_stop s \<noteq> None then s else on_reconcile i a s)"
| "client_step cfg s (CApply i cmd) =
     (if cl_ended s \<or> cl_stop s \<noteq> None then s else on_apply i cmd s)"
| "client_step cfg s (CEnsure i timeout) =
     (if cl_ended s \<or> cl_stop s \<noteq> None then s else on_ensure i timeout s)"
| "client_step cfg s (CStop i timeout) =
     (if cl_ended s \<or> cl_stop s \<noteq> None then s else on_stop i timeout s)"
| "client_step cfg s (CStopStray i timeout k) =
     (if cl_ended s \<or> cl_stop s \<noteq> None \<or> length (cl_stray s) \<le> k then s
      else on_stop_stray i timeout k s)"

declare client_step.simps [simp del]

end
