(* ===== verification/Client_Inv.thy ===== *)
theory Client_Inv
  imports Client
begin

text \<open>
  What holds of the client's loop: the invariant \<open>client_inv\<close> (the operation in flight has the current
  generation and stray ones an older one, without stray operations a client that is starting has one
  in flight and waiting requests have something to wait for, the proxy is installed when ready and not
  when stopped or failed), runs without a reconciliation during an operation (\<open>reconciles_idle\<close>), where
  no operation goes stray, the accounting of requests and
  replies (\<open>accounted_run\<close>), generations as proof that nothing happened (\<open>facts_run\<close>), what the runtime
  must have answered for a client to become ready or stopped (\<open>state_confirmed\<close>), and the control
  actions of an operation in closed form (\<open>do_ensure_acts\<close>, \<open>do_stop_acts\<close>).
\<close>

section \<open>Invariant\<close>

text \<open>The generations of stray operations are behind.\<close>

definition stray_ok :: "nat \<Rightarrow> (nat \<times> gdur) option \<Rightarrow> (nat \<times> gdur) list \<Rightarrow> bool" where
  "stray_ok g p ps = list_all (\<lambda>q. fst q \<le> g \<and> (p \<noteq> None \<longrightarrow> fst q < g)) ps"

lemma stray_ok_grow [simp]:
  "stray_ok g None ps \<Longrightarrow> stray_ok (Suc g) p ps" "stray_ok g (Some q) ps \<Longrightarrow> stray_ok (Suc g) p ps"
  "stray_ok g (Some q) ps \<Longrightarrow> stray_ok g None ps" "stray_ok g p []"
  by (auto simp: stray_ok_def list_all_iff)

lemma stray_ok_start [simp]:
  "stray_ok g p ps \<Longrightarrow> \<forall>h t. p = Some (h, t) \<longrightarrow> h = g \<Longrightarrow>
     stray_ok (Suc g) q (ps @ (case p of None \<Rightarrow> [] | Some x \<Rightarrow> [x]))"
  by (cases p) (auto simp: stray_ok_def list_all_iff)

definition op_ok :: "client \<Rightarrow> bool" where
  "op_ok s =
     ((\<forall>g t. cl_op s = Some (g, t) \<longrightarrow> g = cl_gen s)
      \<and> stray_ok (cl_gen s) (cl_op s) (cl_stray s)
      \<and> (cl_inflight s = (cl_op s \<noteq> None))
      \<and> (cl_stop s \<noteq> None \<longrightarrow> cl_state s = StateStopping \<and> cl_op s = None)
      \<and> (cl_stray s = [] \<longrightarrow> cl_state s = StateStarting \<longrightarrow> cl_op s \<noteq> None)
      \<and> (cl_stray s = [] \<longrightarrow> cl_waiters s \<noteq> [] \<longrightarrow> cl_op s \<noteq> None \<or> cl_stop s \<noteq> None)
      \<and> (cl_ended s = (cl_state s = StateShutdown)) \<and> (cl_ended s \<longrightarrow> cl_waiters s = []))"

definition handler_ok :: "client \<Rightarrow> bool" where
  "handler_ok s =
     ((cl_state s = StateReady \<longrightarrow> cl_handler s)
      \<and> (cl_state s \<in> {StateStopped, StateFailed, StateShutdown} \<longrightarrow> \<not> cl_handler s))"

definition client_inv :: "client \<Rightarrow> bool" where
  "client_inv s = (op_ok s \<and> handler_ok s)"

lemmas client_ops =
  set_state_def say_def notify_def start_op_def cancel_op_def install_proxy_def drop_proxy_def Let_def

lemmas client_handlers =
  on_shutdown_client_def on_reconcile_def on_apply_def on_ensure_def on_op_done_def on_stray_done_def on_stop_def
  on_stop_stray_def on_stop_done_def accept_apply_def apply_reconcile_def

lemma client_inv_new: "client_inv new_client"
  by (simp add: client_inv_def op_ok_def handler_ok_def new_client_def)

lemma inv_shutdown: "client_inv s \<Longrightarrow> cl_stop s = None \<Longrightarrow> client_inv (on_shutdown_client s)"
  by (cases "cl_op s") (auto simp: client_inv_def op_ok_def handler_ok_def on_shutdown_client_def client_ops)

lemma inv_apply_reconcile:
  assumes "client_inv s" "\<not> cl_ended s" "cl_stop s = None"
  shows "handler_ok (apply_reconcile a s) \<and> cl_state (apply_reconcile a s) \<noteq> StateShutdown"
    "cl_op (apply_reconcile a s) = cl_op s" "cl_gen (apply_reconcile a s) = cl_gen s"
    "cl_inflight (apply_reconcile a s) = cl_inflight s" "cl_waiters (apply_reconcile a s) = cl_waiters s"
    "cl_stop (apply_reconcile a s) = cl_stop s" "cl_ended (apply_reconcile a s) = cl_ended s"
    "cl_out (apply_reconcile a s) = cl_out s" "cl_remote (apply_reconcile a s) = cl_remote s"
    "cl_stray (apply_reconcile a s) = cl_stray s"
  by (simp_all add: handler_ok_def apply_reconcile_def client_ops split: sum.split wire_state.split)

lemma inv_reconcile:
  assumes "client_inv s" "\<not> cl_ended s" "cl_stop s = None"
  shows "client_inv (on_reconcile i a s)"
proof -
  define s1 where "s1 = (if cl_op s = None then s\<lparr>cl_gen := cl_gen s + 1\<rparr> else s)"
  have "client_inv s1" "\<not> cl_ended s1" "cl_stop s1 = None"
    using assms by (auto simp: s1_def client_inv_def op_ok_def handler_ok_def)
  note r = inv_apply_reconcile [OF this, of a]
  show ?thesis
    using r \<open>client_inv s1\<close> \<open>\<not> cl_ended s1\<close> \<open>cl_stop s1 = None\<close> assms
    unfolding on_reconcile_def s1_def [symmetric] Let_def
    by (cases "cl_op s1") (simp_all add: client_inv_def op_ok_def handler_ok_def say_def start_op_def set_state_def Let_def)
qed

lemma inv_apply: "client_inv s \<Longrightarrow> \<not> cl_ended s \<Longrightarrow> cl_stop s = None \<Longrightarrow> client_inv (on_apply i cmd s)"
  by (cases "ac_class cmd"; cases "cl_op s")
    (simp_all add: client_inv_def op_ok_def handler_ok_def on_apply_def accept_apply_def client_ops)

lemma inv_ensure: "client_inv s \<Longrightarrow> \<not> cl_ended s \<Longrightarrow> cl_stop s = None \<Longrightarrow> client_inv (on_ensure i t s)"
  by (cases "cl_state s") (auto simp: client_inv_def op_ok_def handler_ok_def on_ensure_def client_ops)

lemma inv_op_done:
  "client_inv s \<Longrightarrow> \<not> cl_ended s \<Longrightarrow> cl_stop s = None \<Longrightarrow> cl_op s = Some (g, t) \<Longrightarrow>
     client_inv (on_op_done g err s)"
  by (cases err) (auto simp: client_inv_def op_ok_def handler_ok_def on_op_done_def client_ops)

lemma swap_frame [simp]:
  "cl_state (swap_stray k p s) = cl_state s" "cl_op (swap_stray k p s) = cl_op s" "cl_gen (swap_stray k p s) = cl_gen s"
  "cl_inflight (swap_stray k p s) = cl_inflight s" "cl_handler (swap_stray k p s) = cl_handler s"
  "cl_waiters (swap_stray k p s) = cl_waiters s" "cl_stop (swap_stray k p s) = cl_stop s"
  "cl_ended (swap_stray k p s) = cl_ended s" "cl_out (swap_stray k p s) = cl_out s"
  "cl_stray (swap_stray k p s) \<noteq> []"
  by (simp_all add: swap_stray_def)

lemma stray_ok_swap:
  assumes "stray_ok (cl_gen s) (cl_op s) (cl_stray s)" "fst p = cl_gen s"
  shows "stray_ok (cl_gen s) None (cl_stray (swap_stray k p s))"
  using assms by (auto simp: stray_ok_def swap_stray_def list_all_iff dest: in_set_takeD in_set_dropD)

text \<open>The result of a stray operation never has the current generation: it is dropped.\<close>

lemma stray_done:
  assumes "client_inv s" "k < length (cl_stray s)" "cl_op s = Some p"
  shows "on_stray_done k err s = (cancel_op (swap_stray k p s))\<lparr>cl_op := None, cl_inflight := False\<rparr>"
proof -
  have "cl_stray s ! k \<in> set (cl_stray s)" using assms(2) by simp
  then have "fst (cl_stray s ! k) < cl_gen s"
    using assms(1,3) by (auto simp: client_inv_def op_ok_def stray_ok_def list_all_iff)
  moreover have "cl_gen ((cancel_op (swap_stray k p s))\<lparr>cl_op := None, cl_inflight := False\<rparr>) = cl_gen s"
    by (simp add: cancel_op_def say_def swap_stray_def split: option.split)
  ultimately show ?thesis using assms(3) by (simp add: on_stray_done_def on_op_done_def Let_def)
qed

lemma inv_stray_done:
  assumes "client_inv s" "\<not> cl_ended s" "cl_stop s = None" "k < length (cl_stray s)"
  shows "client_inv (on_stray_done k err s)"
proof (cases "cl_op s")
  case (Some p)
  then have "fst p = cl_gen s" using assms(1) by (cases p) (simp add: client_inv_def op_ok_def)
  then have "stray_ok (cl_gen s) None (cl_stray (swap_stray k p s))"
    using assms(1) stray_ok_swap by (simp add: client_inv_def op_ok_def)
  moreover obtain g t where "p = (g, t)" by (cases p)
  ultimately show ?thesis
    using assms Some
    by (simp add: stray_done [OF assms(1,4) Some])
      (simp add: client_inv_def op_ok_def handler_ok_def cancel_op_def say_def)
qed (use assms in \<open>simp add: on_stray_done_def\<close>)

lemma inv_stop: "client_inv s \<Longrightarrow> \<not> cl_ended s \<Longrightarrow> cl_stop s = None \<Longrightarrow> client_inv (on_stop i t s)"
  by (auto simp: client_inv_def op_ok_def handler_ok_def on_stop_def client_ops split: option.split)

lemma inv_stop_stray:
  assumes "client_inv s" "\<not> cl_ended s" "cl_stop s = None" "k < length (cl_stray s)"
  shows "client_inv (on_stop_stray i t k s)"
proof (cases "cl_op s")
  case (Some p)
  have st: "cl_state s \<noteq> StateShutdown" using assms(1,2) by (simp add: client_inv_def op_ok_def)
  have "fst p = cl_gen s" using assms(1) Some by (cases p) (simp add: client_inv_def op_ok_def)
  then have "stray_ok (cl_gen s) None (cl_stray (swap_stray k p s))"
    using assms(1) stray_ok_swap by (simp add: client_inv_def op_ok_def)
  moreover obtain g g' where "p = (g, g')" by (cases p)
  moreover have "\<not> cl_handler s" if "cl_state s = StateFailed"
    using that assms(1) by (simp add: client_inv_def handler_ok_def)
  ultimately show ?thesis
    using assms(2,3) Some st
    by (simp add: on_stop_stray_def on_stop_def client_inv_def op_ok_def handler_ok_def client_ops)
qed (use assms in \<open>simp add: on_stop_stray_def\<close>)

lemma inv_stop_done: "client_inv s \<Longrightarrow> cl_stop s = Some (i, t) \<Longrightarrow> client_inv (on_stop_done i err s)"
  by (cases err) (auto simp: client_inv_def op_ok_def handler_ok_def on_stop_done_def client_ops)

lemma inv_client_step: "client_inv s \<Longrightarrow> client_inv (client_step cfg s e)"
  by (cases "cl_stop s"; cases e)
    (auto simp: client_step.simps inv_shutdown inv_reconcile inv_apply inv_ensure inv_op_done inv_stray_done inv_stop
      inv_stop_stray inv_stop_done split: option.split prod.split)

interpretation client_machine: machine "client_step cfg" "\<lambda>_ _. True" client_inv for cfg
  by unfold_locales (rule inv_client_step)

section \<open>No operation goes stray\<close>

text \<open>
  An operation is let go of only when a reconciliation moved the client to another state while it ran.
  The program reconciles each client once, before anything else is asked of it.
\<close>

definition reconciles_idle :: "client \<Rightarrow> client_event \<Rightarrow> bool" where
  "reconciles_idle s e = (case e of CReconcile _ _ \<Rightarrow> cl_op s = None | _ \<Rightarrow> True)"

definition undisturbed :: "client \<Rightarrow> bool" where
  "undisturbed s =
     (cl_stray s = [] \<and> (cl_op s \<noteq> None \<longrightarrow> \<not> cl_ended s \<longrightarrow> cl_state s = StateStarting \<and> cl_stop s = None))"

lemma undisturbed_step:
  assumes "undisturbed s" "reconciles_idle s e"
  shows "undisturbed (client_step cfg s e)"
proof (cases e)
  case (CReconcile i a)
  then have "cl_op s = None" "cl_stray s = []" using assms by (simp_all add: reconciles_idle_def undisturbed_def)
  moreover have "cl_op (apply_reconcile a s') = cl_op s'" "cl_stray (apply_reconcile a s') = cl_stray s'"
    "cl_stop (apply_reconcile a s') = cl_stop s'" for s'
    by (simp_all add: apply_reconcile_def client_ops split: sum.split wire_state.split)
  ultimately show ?thesis
    using CReconcile by (cases "cl_stop s") (simp_all add: client_step.simps undisturbed_def on_reconcile_def client_ops)
next
  case (CApply i cmd)
  then show ?thesis
    using assms(1)
    by (cases "cl_op s"; cases "ac_class cmd")
      (simp_all add: client_step.simps undisturbed_def on_apply_def accept_apply_def client_ops, (auto)?)
next
  case (CEnsure i t)
  then show ?thesis
    using assms(1)
    by (cases "cl_op s"; cases "cl_stop s"; cases "cl_state s") (auto simp: client_step.simps undisturbed_def on_ensure_def client_ops)
qed (use assms(1) in \<open>auto simp: client_step.simps undisturbed_def on_shutdown_client_def on_op_done_def on_stop_def
      on_stop_done_def client_ops split: option.split\<close>)

interpretation calm_client: machine "client_step cfg" reconciles_idle "\<lambda>s. client_inv s \<and> undisturbed s" for cfg
  by unfold_locales (simp add: inv_client_step undisturbed_step)

lemma undisturbed_new: "undisturbed new_client"
  by (simp add: undisturbed_def new_client_def)

section \<open>Replies\<close>

fun reply_id :: "client_eff \<Rightarrow> nat list" where
  "reply_id (Reply i _) = [i]"
| "reply_id _ = []"

definition replied :: "client_eff list \<Rightarrow> nat list" where
  "replied es = concat (map reply_id es)"

lemma replied_simps [simp]:
  "replied [] = []" "replied (es @ fs) = replied es @ replied fs" "replied (e # es) = reply_id e @ replied es"
  by (simp_all add: replied_def)

lemma replied_notify [simp]: "replied (map (\<lambda>w. Reply w err) ws) = ws"
  by (induction ws) simp_all

text \<open>The requests that wait for a reply: those for the load, and the one for the stop.\<close>

definition open_requests :: "client \<Rightarrow> nat multiset" where
  "open_requests s = mset (cl_waiters s) + (case cl_stop s of None \<Rightarrow> {#} | Some (i, _) \<Rightarrow> {#i#})"

definition accounted :: "client \<Rightarrow> nat multiset" where
  "accounted s = mset (replied (cl_out s)) + open_requests s"

text \<open>The request an event brings, when the loop receives it.\<close>

definition asked :: "client \<Rightarrow> client_event \<Rightarrow> nat list" where
  "asked s e =
     (if cl_ended s \<or> cl_stop s \<noteq> None then []
      else case e of
        CReconcile i _ \<Rightarrow> [i]
      | CEnsure i _ \<Rightarrow> [i]
      | CStop i _ \<Rightarrow> [i]
      | CStopStray i _ k \<Rightarrow> if cl_op s \<noteq> None \<and> k < length (cl_stray s) then [i] else []
      | _ \<Rightarrow> [])"

fun asked_run :: "client_cfg \<Rightarrow> client \<Rightarrow> client_event list \<Rightarrow> nat list" where
  "asked_run cfg s [] = []"
| "asked_run cfg s (e # es) = asked s e @ asked_run cfg (client_step cfg s e) es"

lemma accounted_say [simp]: "accounted (say e s) = mset (reply_id e) + accounted s"
  by (simp add: accounted_def say_def open_requests_def)

lemma accounted_notify [simp]: "accounted (notify err s) = accounted s"
  by (simp add: accounted_def notify_def open_requests_def)

lemma accounted_frame [simp]:
  "accounted (set_state st rs s) = accounted s" "accounted (install_proxy s) = accounted s"
  "accounted (drop_proxy s) = accounted s" "accounted (cancel_op s) = accounted s"
  "accounted (s\<lparr>cl_gen := g\<rparr>) = accounted s" "accounted (s\<lparr>cl_op := p, cl_inflight := b\<rparr>) = accounted s"
  "accounted (s\<lparr>cl_gen := g, cl_op := p, cl_inflight := b\<rparr>) = accounted s"
  "accounted (s\<lparr>cl_remote := rm\<rparr>) = accounted s" "accounted (s\<lparr>cl_ended := en\<rparr>) = accounted s"
  "accounted (s\<lparr>cl_gen := g, cl_op := p, cl_inflight := b, cl_stray := q\<rparr>) = accounted s"
  "accounted (swap_stray k r s) = accounted s"
  by (cases "cl_op s"; cases "cl_stop s"; simp add: accounted_def open_requests_def set_state_def
      install_proxy_def drop_proxy_def cancel_op_def say_def swap_stray_def split: prod.split)+

lemma accounted_start_op [simp]: "accounted (start_op t s) = accounted s"
  by (simp add: start_op_def Let_def)

lemma accounted_apply_reconcile [simp]: "accounted (apply_reconcile a s) = accounted s"
  by (simp add: apply_reconcile_def split: sum.split wire_state.split)

lemma accounted_accept_apply [simp]: "accounted (accept_apply cmd s) = accounted s"
  by (simp add: accept_apply_def Let_def split: recovery_class.split)

lemma accounted_wait: "accounted (s\<lparr>cl_waiters := cl_waiters s @ [i]\<rparr>) = {#i#} + accounted s"
  by (simp add: accounted_def open_requests_def)

lemma accounted_stop: "cl_stop s = None \<Longrightarrow> accounted (s\<lparr>cl_stop := Some (i, t)\<rparr>) = {#i#} + accounted s"
  by (simp add: accounted_def open_requests_def)

lemma accounted_stopped: "cl_stop s = Some (i, t) \<Longrightarrow> accounted s = {#i#} + accounted (s\<lparr>cl_stop := None\<rparr>)"
  by (simp add: accounted_def open_requests_def)

lemma stop_frame [simp]:
  "cl_stop (set_state st rs s) = cl_stop s" "cl_stop (say e s) = cl_stop s" "cl_stop (cancel_op s) = cl_stop s"
  "cl_stop (drop_proxy s) = cl_stop s" "cl_stop (install_proxy s) = cl_stop s" "cl_stop (notify err s) = cl_stop s"
  "cl_stop (swap_stray k p s) = cl_stop s"
  by (simp_all add: client_ops swap_stray_def split: option.split)

lemma accounted_on_stop:
  "cl_stop s = None \<Longrightarrow> accounted (on_stop i t s) = {#i#} + accounted s"
  by (simp add: on_stop_def Let_def accounted_stop)

lemma accounted_on_stop_done:
  assumes "cl_stop s = Some (i, t)"
  shows "accounted (on_stop_done i err s) = accounted s"
proof -
  let ?s = "say (Reply i err) (notify err
    (case err of Some e \<Rightarrow> set_state StateFailed (unload_fail_reason e) (drop_proxy s)
               | None \<Rightarrow> set_state StateStopped ''unloaded'' (drop_proxy s)))"
  have "cl_stop ?s = Some (i, t)" using assms by (simp split: option.split)
  from accounted_stopped [OF this] show ?thesis
    by (simp add: on_stop_done_def Let_def split: option.splits)
qed

lemma accounted_step: "accounted (client_step cfg s e) = mset (asked s e) + accounted s"
proof (cases "cl_stop s")
  case None
  show ?thesis
    by (cases e)
      (simp_all add: client_step.simps None asked_def on_shutdown_client_def on_reconcile_def on_apply_def
        on_ensure_def on_op_done_def on_stray_done_def on_stop_stray_def accounted_on_stop accounted_wait Let_def
        split: option.split rstate.split prod.split)
next
  case (Some p)
  then show ?thesis
    by (cases e) (auto simp: client_step.simps asked_def accounted_on_stop_done split: prod.split)
qed

lemma accounted_run:
  "accounted (run (client_step cfg) s es) = mset (asked_run cfg s es) + accounted s"
  by (induction es arbitrary: s) (simp_all add: accounted_step)

section \<open>Generations\<close>

text \<open>Everything a probe result could overwrite.\<close>

definition same_facts :: "client \<Rightarrow> client \<Rightarrow> bool" where
  "same_facts s t =
     (cl_state t = cl_state s \<and> cl_handler t = cl_handler s \<and> cl_remote t = cl_remote s
      \<and> cl_op t = cl_op s \<and> cl_stop t = cl_stop s)"

lemma gen_frame [simp]:
  "cl_gen (set_state st rs s) = cl_gen s" "cl_gen (say e s) = cl_gen s" "cl_gen (cancel_op s) = cl_gen s"
  "cl_gen (drop_proxy s) = cl_gen s" "cl_gen (install_proxy s) = cl_gen s" "cl_gen (notify err s) = cl_gen s"
  "cl_gen (start_op t s) = cl_gen s + 1" "cl_gen (swap_stray k p s) = cl_gen s"
  by (simp_all add: client_ops swap_stray_def split: option.split)

lemma gen_accept_apply [simp]: "cl_gen (accept_apply cmd s) = cl_gen s"
  by (simp add: accept_apply_def Let_def split: recovery_class.split)

lemma gen_apply_reconcile [simp]: "cl_gen (apply_reconcile a s) = cl_gen s"
  by (simp add: apply_reconcile_def split: sum.split wire_state.split)

lemma gen_step: "cl_gen s \<le> cl_gen (client_step cfg s e)"
  by (cases e)
    (auto simp: client_step.simps on_shutdown_client_def on_reconcile_def on_apply_def on_ensure_def
      on_op_done_def on_stray_done_def on_stop_def on_stop_stray_def on_stop_done_def Let_def
      split: option.split rstate.split prod.split)

lemma gen_run: "cl_gen s \<le> cl_gen (run (client_step cfg) s es)"
  by (induction es arbitrary: s) (auto intro: gen_step order.trans)

lemma facts_step:
  assumes "cl_op s = None" "cl_stop s = None" "\<not> cl_ended (client_step cfg s e)"
    and "cl_gen (client_step cfg s e) = cl_gen s"
  shows "same_facts s (client_step cfg s e)"
proof (cases e)
  case (CReconcile i a)
  have "cl_gen s < cl_gen (on_reconcile i a s)" if "cl_state s \<noteq> StateShutdown"
    using that assms(1) by (simp add: on_reconcile_def Let_def)
  then show ?thesis
    using assms CReconcile
    by (cases "cl_state s = StateShutdown") (auto simp: client_step.simps same_facts_def on_reconcile_def say_def)
qed (use assms in \<open>auto simp: client_step.simps same_facts_def on_shutdown_client_def on_apply_def on_ensure_def
      on_stray_done_def on_stop_def on_stop_stray_def say_def Let_def start_op_def split: rstate.splits if_splits option.splits\<close>)

lemma same_facts_trans: "same_facts s t \<Longrightarrow> same_facts t u \<Longrightarrow> same_facts s u"
  by (simp add: same_facts_def)

lemma ended_run: "cl_ended s \<Longrightarrow> cl_stop s = None \<Longrightarrow> run (client_step cfg) s es = s"
proof (induction es)
  case (Cons e es)
  have "client_step cfg s e = s" using Cons(2,3) by (cases e) (simp_all add: client_step.simps)
  then show ?case using Cons by simp
qed simp

lemma ended_not_stopping: "client_inv s \<Longrightarrow> cl_ended s \<Longrightarrow> cl_stop s = None"
  by (cases "cl_stop s") (auto simp: client_inv_def op_ok_def)

lemma facts_run:
  assumes "cl_op s = None" "cl_stop s = None" "\<not> cl_ended (run (client_step cfg) s es)" "client_inv s"
    and "cl_gen (run (client_step cfg) s es) = cl_gen s"
  shows "same_facts s (run (client_step cfg) s es)"
  using assms
proof (induction es arbitrary: s)
  case Nil
  then show ?case by (simp add: same_facts_def)
next
  case (Cons e es)
  let ?t = "client_step cfg s e"
  have i: "client_inv ?t" using Cons(5) by (rule inv_client_step)
  have "cl_gen s \<le> cl_gen ?t" "cl_gen ?t \<le> cl_gen (run (client_step cfg) ?t es)"
    by (rule gen_step gen_run)+
  then have g: "cl_gen ?t = cl_gen s" "cl_gen (run (client_step cfg) ?t es) = cl_gen ?t"
    using Cons(6) by simp_all
  have e: "\<not> cl_ended ?t"
  proof
    assume e: "cl_ended ?t"
    moreover have "cl_stop ?t = None" using i e by (rule ended_not_stopping)
    ultimately have "run (client_step cfg) ?t es = ?t" by (rule ended_run)
    then show False using e Cons(4) by simp
  qed
  have f: "same_facts s ?t" using facts_step Cons(2,3) e g(1) by blast
  then have "cl_op ?t = None" "cl_stop ?t = None" using Cons(2,3) by (simp_all add: same_facts_def)
  then have "same_facts ?t (run (client_step cfg) ?t es)"
    using Cons(1) [of ?t] Cons(4) i g(2) by simp
  then show ?case using f by (simp add: same_facts_trans)
qed

section \<open>Local states are confirmed by the runtime\<close>

definition is_ready :: "status \<Rightarrow> bool" where
  "is_ready st = (wire st = WireReady \<and> resid st = ResidencyResident)"

lemma ready_resident: "parse_status body = Inr st \<Longrightarrow> wire st = WireReady \<Longrightarrow> is_ready st"
  using parse_status_ok(1) [of body st] by (simp add: validate_status_ok is_ready_def)

lemma fetch_status_parsed: "fetch_status a = Inr st \<Longrightarrow> \<exists>body. parse_status body = Inr st"
  by (auto simp: fetch_status_def split: http_answer.splits option.splits if_splits)

lemma fetch_ready: "fetch_status a = Inr st \<Longrightarrow> wire st = WireReady \<Longrightarrow> is_ready st"
  using fetch_status_parsed ready_resident by blast

text \<open>The answers in which an operation may have seen its runtime ready.\<close>

definition reports :: "(status \<Rightarrow> bool) \<Rightarrow> http_answer \<Rightarrow> bool" where
  "reports p a = (case fetch_status a of Inr st \<Rightarrow> p st | Inl _ \<Rightarrow> False)"

definition posted :: "string \<Rightarrow> (status \<Rightarrow> bool) \<Rightarrow> http_answer \<Rightarrow> bool" where
  "posted path p a = (case and_then (post_control path a) parse_status of Inr st \<Rightarrow> p st | Inl _ \<Rightarrow> False)"

definition confirms_ready :: "ensure_env \<Rightarrow> bool" where
  "confirms_ready env =
     (reports is_ready (en_first env) \<or> reports is_ready (en_second env) \<or> reports is_ready (en_observed env)
      \<or> posted ''/control/load'' is_ready (en_post env)
      \<or> list_ex (reports is_ready) (map wp_status (en_waitPolls env @ en_loadPolls env)))"

definition confirms_unloaded :: "stop_env \<Rightarrow> bool" where
  "confirms_unloaded env =
     (reports is_unloaded (se_first env) \<or> reports is_unloaded (se_observed env)
      \<or> posted ''/control/unload'' is_unloaded (se_post env))"

lemma wait_ready_confirmed:
  "wait_ready deadline ps = Some None \<Longrightarrow> list_ex (reports is_ready) (map wp_status ps)"
proof (induction ps)
  case (Cons p ps)
  then show ?case
    by (auto simp: reports_def Let_def fetch_ready split: if_splits sum.splits wire_state.splits option.splits)
qed simp

lemma load_now_confirmed:
  assumes "snd (load_now budget env) = Some None"
  shows "confirms_ready env"
  using assms wait_ready_confirmed [of "en_loadNow env + budget" "en_loadPolls env"]
  by (auto simp: load_now_def post_load_def confirms_ready_def reports_def posted_def is_ready_def fetch_ready Let_def
      dest: fetch_ready split: option.splits if_splits sum.splits)

lemma ensure_from_status_confirmed:
  assumes "snd (ensure_from_status cfg t env st) = Some None" "fetch_status a = Inr st"
  shows "reports is_ready a \<or> confirms_ready env"
  using assms wait_ready_confirmed [of "en_waitNow env + load_budget cfg t" "en_waitPolls env"] load_now_confirmed
  by (auto simp: ensure_from_status_def Let_def reports_def confirms_ready_def fetch_ready
      split: wire_state.splits if_splits)

lemma do_ensure_confirmed:
  assumes "snd (do_ensure cfg t env) = Some None"
  shows "confirms_ready env"
proof -
  have "reports is_ready (en_first env) \<or> reports is_ready (en_second env) \<or> confirms_ready env"
    using assms ensure_from_status_confirmed
    by (fastforce simp: do_ensure_def Let_def split: sum.splits if_splits prod.splits option.splits)
  then show ?thesis by (auto simp: confirms_ready_def)
qed

lemma do_stop_confirmed: "snd (do_stop t env) = None \<Longrightarrow> confirms_unloaded env"
  by (auto simp: do_stop_def confirms_unloaded_def reports_def posted_def split: sum.splits if_splits)

section \<open>The control actions of an operation\<close>

text \<open>A status from which a load may be asked for.\<close>

definition may_load :: "status \<Rightarrow> bool" where
  "may_load st =
     (wire st = WireUnloaded \<or> wire st = WireFailed \<and> resid st = ResidencyNotResident \<and> activeRequests st = 0)"

lemma load_now_acts:
  "fst (load_now budget env) =
     ActGate # (if wait_load_gate (en_gate env) = None \<and> 0 < time_sub (en_loadNow env + budget) (en_postNow env)
                then [ActLoad (time_sub (en_loadNow env + budget) (en_postNow env))] else [])"
  by (auto simp: load_now_def post_load_def Let_def split: option.split)

lemma ensure_from_status_acts:
  "fst (ensure_from_status cfg t env st) = (if may_load st then fst (load_now (load_budget cfg t) env) else [])"
  by (cases "wire st") (simp_all add: ensure_from_status_def may_load_def Let_def)

definition prepares :: "client_cfg \<Rightarrow> ensure_env \<Rightarrow> control_act list" where
  "prepares cfg env =
     (case fetch_status (en_first env) of
        Inl e \<Rightarrow> if is_endpoint_down e then fst (run_prepare cfg (en_prepBusy env) (en_prepare env)) else []
      | Inr _ \<Rightarrow> [])"

text \<open>The status a load is decided on: the first one, or the one after a prepare command that ended well.\<close>

definition decisive :: "client_cfg \<Rightarrow> ensure_env \<Rightarrow> status option" where
  "decisive cfg env =
     (case fetch_status (en_first env) of
        Inr st \<Rightarrow> Some st
      | Inl e \<Rightarrow>
          if is_endpoint_down e \<and> fst (snd (run_prepare cfg (en_prepBusy env) (en_prepare env))) = None
          then (case fetch_status (en_second env) of Inr st \<Rightarrow> Some st | Inl _ \<Rightarrow> None) else None)"

lemma do_ensure_acts:
  "fst (do_ensure cfg t env) = prepares cfg env @
     (case decisive cfg env of
        Some st \<Rightarrow> if may_load st then fst (load_now (load_budget cfg t) env) else []
      | None \<Rightarrow> [])"
  by (auto simp: do_ensure_def prepares_def decisive_def ensure_from_status_acts split_beta Let_def
      split: sum.split option.split)

lemma run_prepare_acts:
  "fst (run_prepare cfg busy outcome) =
     (if busy \<or> cc_prepare cfg \<in> {None, Some []} then []
      else [ActPrepare (the (cc_prepare cfg)) (prepare_cwd (the (cc_prepare cfg)))])"
  by (auto simp: run_prepare_def split: option.split)

lemma do_stop_acts:
  "fst (do_stop t env) =
     (case fetch_status (se_first env) of
        Inl _ \<Rightarrow> []
      | Inr st \<Rightarrow> if is_unloaded st \<or> activeRequests st > 0 \<or> wire st = WireLoading then [] else [ActUnload t])"
  by (auto simp: do_stop_def split: sum.split)

lemma wait_ready_ends:
  "\<exists>p \<in> set ps. \<not> wp_now p < deadline \<Longrightarrow> wait_ready deadline ps \<noteq> None"
  by (induction ps) (auto simp: Let_def split: sum.split option.split wire_state.split)

section \<open>Entering ready and stopped\<close>

definition confirmed :: "rstate \<Rightarrow> client \<Rightarrow> client_event \<Rightarrow> bool" where
  "confirmed st s e =
     (case e of
        COpDone env \<Rightarrow> st = StateReady \<and> confirms_ready env
      | CStrayDone _ env \<Rightarrow> st = StateReady \<and> confirms_ready env
      | CStopDone env \<Rightarrow> st = StateStopped \<and> confirms_unloaded env
      | CApply _ cmd \<Rightarrow>
          cl_op s = None \<and> ac_gen cmd = cl_gen s
          \<and> (if st = StateReady then ac_class cmd = RecReadyIdle
             else ac_class cmd \<in> {RecUnloadedIdle, RecFailedNotResidentIdle})
      | CReconcile _ a \<Rightarrow> reports (if st = StateReady then is_ready else is_unloaded) a
      | _ \<Rightarrow> False)"

lemma unloaded_idle: "parse_status body = Inr st \<Longrightarrow> wire st = WireUnloaded \<Longrightarrow> is_unloaded st"
  using parse_status_ok(1) [of body st] by (simp add: validate_status_ok is_unloaded_def)

lemma fetch_unloaded: "fetch_status a = Inr st \<Longrightarrow> wire st = WireUnloaded \<Longrightarrow> is_unloaded st"
  using fetch_status_parsed unloaded_idle by blast

lemma state_frame [simp]:
  "cl_state (set_state st rs s) = st" "cl_state (say e s) = cl_state s" "cl_state (cancel_op s) = cl_state s"
  "cl_state (drop_proxy s) = cl_state s" "cl_state (install_proxy s) = cl_state s"
  "cl_state (notify err s) = cl_state s" "cl_state (start_op t s) = StateStarting"
  "cl_state (swap_stray k p s) = cl_state s"
  by (simp_all add: client_ops swap_stray_def split: option.split)

lemma state_apply_reconcile:
  "cl_state (apply_reconcile a s) = StateReady \<Longrightarrow> reports is_ready a"
  "cl_state (apply_reconcile a s) = StateStopped \<Longrightarrow> reports is_unloaded a"
  by (auto simp: apply_reconcile_def reports_def fetch_ready fetch_unloaded
      split: sum.splits wire_state.splits)

lemma state_confirmed:
  assumes "cl_state s \<noteq> st" "cl_state (client_step cfg s e) = st" "st = StateReady \<or> st = StateStopped"
  shows "confirmed st s e"
proof (cases e)
  case (COpDone env)
  then show ?thesis
    using assms do_ensure_confirmed [of cfg _ env]
    by (auto simp: client_step.simps confirmed_def on_op_done_def Let_def
        split: if_splits option.splits prod.splits)
next
  case (CStrayDone k env)
  then show ?thesis
    using assms do_ensure_confirmed [of cfg _ env]
    by (auto simp: client_step.simps confirmed_def on_stray_done_def on_op_done_def Let_def
        split: if_splits option.splits prod.splits)
next
  case (CStopDone env)
  then show ?thesis
    using assms do_stop_confirmed [of _ env]
    by (auto simp: client_step.simps confirmed_def on_stop_done_def Let_def
        split: if_splits option.splits prod.splits)
next
  case (CReconcile i a)
  then show ?thesis
    using assms state_apply_reconcile [of a]
    by (auto simp: client_step.simps confirmed_def on_reconcile_def Let_def split: if_splits)
next
  case (CApply i cmd)
  then show ?thesis
    using assms
    by (cases "cl_op s") (auto simp: client_step.simps confirmed_def on_apply_def accept_apply_def Let_def
        split: if_splits recovery_class.splits)
qed (use assms in \<open>auto simp: client_step.simps confirmed_def on_shutdown_client_def on_ensure_def on_stop_def
      on_stop_stray_def Let_def split: if_splits rstate.splits option.splits\<close>)

end
