(* ===== verification/Client_Props.thy ===== *)
theory Client_Props
  imports Client_Inv
begin

text \<open>
  The properties of the runtime client and of the documents it exchanges with a runtime.
\<close>

section \<open>Concrete values\<close>

definition demo_cfg :: client_cfg where
  "demo_cfg =
     \<lparr>cc_id = ''a'', cc_baseURL = ''http://localhost:9000'', cc_prepare = Some [''/opt/run/start.sh'', ''a''],
      cc_prepareTimeout = 60 * second, cc_healthCheckTimeout = 120 * second,
      cc_unloadTimeout = 30 * second, cc_statusTimeout = 5 * second\<rparr>"

definition unloaded_status :: status where
  "unloaded_status =
     \<lparr>wire = WireUnloaded, resid = ResidencyNotResident, activeRequests = 0, lastError = None\<rparr>"

definition ready_status :: status where
  "ready_status = \<lparr>wire = WireReady, resid = ResidencyResident, activeRequests = 0, lastError = None\<rparr>"

definition answers :: "status \<Rightarrow> http_answer" where
  "answers st = Response 200 (encode_status st) None"

definition refused :: http_answer where
  "refused = Failed (UrlError ''Get'' (NetOpError False ''dial tcp: connection refused''))"

text \<open>The endpoint is down, the prepare command brings it up, and the load takes ten seconds.\<close>

definition demo_load :: ensure_env where
  "demo_load =
     \<lparr>en_first = refused, en_prepBusy = False, en_prepare = PrepExit None,
      en_second = answers unloaded_status, en_waitNow = 0, en_waitPolls = [], en_gate = Some None,
      en_loadNow = 100, en_postNow = 100, en_post = answers ready_status,
      en_observed = refused, en_loadPolls = []\<rparr>"

definition demo_unload :: stop_env where
  "demo_unload =
     \<lparr>se_first = answers ready_status, se_post = answers unloaded_status, se_observed = refused\<rparr>"

lemma fetch_answers:
  assumes "validate_status st = None" "0 \<le> activeRequests st" "activeRequests st < 2 ^ 63" "lastError st = None"
  shows "fetch_status (answers st) = Inr st" "and_then (post_control path (answers st)) parse_status = Inr st"
  using parse_encoded_status [of st] assms by (simp_all add: fetch_status_def post_control_def answers_def)

lemma demo_statuses [simp]:
  "fetch_status (answers unloaded_status) = Inr unloaded_status"
  "fetch_status (answers ready_status) = Inr ready_status"
  "and_then (post_control path (answers unloaded_status)) parse_status = Inr unloaded_status"
  "and_then (post_control path (answers ready_status)) parse_status = Inr ready_status"
  using fetch_answers [of unloaded_status] fetch_answers [of ready_status]
  by (simp_all add: unloaded_status_def ready_status_def validate_status_def)

lemma demo_refused [simp]:
  "fetch_status refused = Inl (UrlError ''Get'' (NetOpError False ''dial tcp: connection refused''))"
  by (simp add: fetch_status_def refused_def)

lemma refused_down: "is_endpoint_down (UrlError p (NetOpError False m))"
  by (simp add: is_endpoint_down.simps [of "UrlError p (NetOpError False m)"])

lemma demo_cwd: "prepare_cwd [''/opt/run/start.sh'', ''a''] = ''/opt/run''"
  by code_simp

lemma demo_budget: "time_sub (100 + load_budget demo_cfg 0) 100 = 120 * second"
  by code_simp

lemma demo_prepare:
  "run_prepare demo_cfg False (PrepExit None) =
     ([ActPrepare [''/opt/run/start.sh'', ''a''] ''/opt/run''], None, False)"
  using demo_cwd by (simp add: run_prepare_def demo_cfg_def)

lemma demo_load_done:
  "do_ensure demo_cfg 0 demo_load =
     ([ActPrepare [''/opt/run/start.sh'', ''a''] ''/opt/run'', ActGate, ActLoad (120 * second)], Some None)"
proof -
  have "load_now (load_budget demo_cfg 0) demo_load = ([ActGate, ActLoad (120 * second)], Some None)"
    using demo_budget
    by (simp add: load_now_def post_load_def wait_load_gate_def demo_load_def Let_def)
      (simp add: ready_status_def second_def)
  then have "ensure_from_status demo_cfg 0 demo_load unloaded_status
      = ([ActGate, ActLoad (120 * second)], Some None)"
    by (simp add: ensure_from_status_def unloaded_status_def)
  moreover have "fetch_status (en_first demo_load) = Inl (UrlError ''Get'' (NetOpError False ''dial tcp: connection refused''))"
    "fetch_status (en_second demo_load) = Inr unloaded_status"
    "run_prepare demo_cfg (en_prepBusy demo_load) (en_prepare demo_load)
       = ([ActPrepare [''/opt/run/start.sh'', ''a''] ''/opt/run''], None, False)"
    by (simp_all add: demo_load_def demo_prepare)
  ultimately show ?thesis by (simp add: do_ensure_def refused_down)
qed

lemma demo_unload_done: "do_stop timeout demo_unload = ([ActUnload timeout], None)"
proof -
  have "post_control p (answers unloaded_status) = Inr (encode_status unloaded_status)" for p
    by (simp add: post_control_def answers_def)
  moreover have "parse_status (encode_status unloaded_status) = Inr unloaded_status"
    by (rule parse_encoded_status) (simp_all add: unloaded_status_def validate_status_def)
  ultimately show ?thesis
    by (simp add: do_stop_def demo_unload_def) (simp add: is_unloaded_def ready_status_def unloaded_status_def)
qed

section \<open>The loop\<close>

text \<open>C17: Every request the loop receives is answered once or still waits: what was received is
  what was replied to together with what is open. When no reconciliation is received during an
  operation, as in the program, which reconciles a client before it asks anything else of it, a
  request waits only while an operation or a stop is in flight, whose end answers it: with nothing in
  flight nothing is open.\<close>

theorem every_request_is_answered:
  "mset (asked_run cfg new_client es)
     = mset (replied (cl_out (run (client_step cfg) new_client es)))
       + open_requests (run (client_step cfg) new_client es)
   \<and> (run_ok (client_step cfg) reconciles_idle new_client es
      \<longrightarrow> cl_op (run (client_step cfg) new_client es) = None
      \<longrightarrow> cl_stop (run (client_step cfg) new_client es) = None
      \<longrightarrow> open_requests (run (client_step cfg) new_client es) = {#})"
proof -
  let ?t = "run (client_step cfg) new_client es"
  have "accounted new_client = {#}" by (simp add: accounted_def open_requests_def new_client_def)
  then have "accounted ?t = mset (asked_run cfg new_client es)" by (simp add: accounted_run)
  moreover have "client_inv ?t \<and> undisturbed ?t" if "run_ok (client_step cfg) reconciles_idle new_client es"
    using calm_client.inv_run [OF _ that] client_inv_new undisturbed_new by blast
  then have "cl_waiters ?t = []"
    if "run_ok (client_step cfg) reconciles_idle new_client es" "cl_op ?t = None" "cl_stop ?t = None"
    using that by (simp add: client_inv_def op_ok_def undisturbed_def)
  ultimately show ?thesis by (simp add: accounted_def open_requests_def)
qed

text \<open>Two requests for one load, which then succeeds.\<close>

definition joined_load :: "client_event list" where
  "joined_load = [CEnsure 1 0, CEnsure 2 0, COpDone demo_load]"

definition loaded :: client where
  "loaded =
     new_client\<lparr>cl_state := StateReady, cl_reason := ''ready'', cl_gen := 1, cl_handler := True,
       cl_out := [StartOp 1 0, CancelOp 1, Reply 1 None, Reply 2 None]\<rparr>"

lemma joined_load_run: "run (client_step demo_cfg) new_client joined_load = loaded"
  by (simp add: joined_load_def loaded_def client_step.simps new_client_def on_ensure_def demo_load_done
      on_op_done_def client_ops)

theorem every_request_is_answered_witness:
  "mset (asked_run demo_cfg new_client joined_load) = {#1, 2#} \<and> open_requests loaded = {#}"
proof -
  have "cl_op loaded = None" "cl_stop loaded = None" "replied (cl_out loaded) = [1, 2]"
    by (simp_all add: loaded_def new_client_def)
  moreover have "run_ok (client_step demo_cfg) reconciles_idle new_client joined_load"
    by (simp add: joined_load_def reconciles_idle_def)
  ultimately show ?thesis
    using every_request_is_answered [of demo_cfg joined_load] by (simp add: joined_load_run)
qed


text \<open>
  A load is in flight for request 1, a reconciliation finds the runtime unloaded, request 3 starts a
  second load: the first one is stray. Its result comes out of the channel of the second one, which is
  cancelled and never received: the client is starting with nothing in flight, and its requests wait.
\<close>

definition stranding :: "client_event list" where
  "stranding = [CEnsure 1 0, CReconcile 2 (answers unloaded_status), CEnsure 3 0, CStrayDone 0 demo_load]"

definition stranded :: client where
  "stranded =
     new_client\<lparr>cl_state := StateStarting, cl_reason := ''load'', cl_gen := 2, cl_stray := [(2, 0)],
       cl_waiters := [1, 3], cl_out := [StartOp 1 0, Reply 2 None, StartOp 2 0, CancelOp 2]\<rparr>"

theorem stray_result_strands_waiters:
  "run (client_step demo_cfg) new_client stranding = stranded
   \<and> client_step demo_cfg stranded (CEnsure 4 0) = stranded\<lparr>cl_waiters := [1, 3, 4]\<rparr>"
proof
  let ?s1 = "new_client\<lparr>cl_state := StateStarting, cl_reason := ''load'', cl_gen := 1, cl_inflight := True,
    cl_op := Some (1, 0), cl_waiters := [1], cl_out := [StartOp 1 0]\<rparr>"
  let ?s2 = "?s1\<lparr>cl_state := StateStopped, cl_reason := ''reconcile'', cl_out := [StartOp 1 0, Reply 2 None]\<rparr>"
  let ?s3 = "?s1\<lparr>cl_gen := 2, cl_op := Some (2, 0), cl_stray := [(1, 0)], cl_waiters := [1, 3],
    cl_out := [StartOp 1 0, Reply 2 None, StartOp 2 0]\<rparr>"
  have u: "wire unloaded_status = WireUnloaded" by (simp add: unloaded_status_def)
  have "client_step demo_cfg new_client (CEnsure 1 0) = ?s1"
    by (simp add: client_step.simps new_client_def on_ensure_def client_ops)
  moreover have "client_step demo_cfg ?s1 (CReconcile 2 (answers unloaded_status)) = ?s2"
    by (simp add: client_step.simps new_client_def on_reconcile_def apply_reconcile_def u client_ops)
  moreover have "client_step demo_cfg ?s2 (CEnsure 3 0) = ?s3"
    by (simp add: client_step.simps new_client_def on_ensure_def client_ops)
  moreover have "client_step demo_cfg ?s3 (CStrayDone 0 demo_load) = stranded"
    by (simp add: client_step.simps stranded_def new_client_def on_stray_done_def swap_stray_def on_op_done_def
        demo_load_done client_ops)
  ultimately show "run (client_step demo_cfg) new_client stranding = stranded"
    unfolding stranding_def run.simps by simp
  show "client_step demo_cfg stranded (CEnsure 4 0) = stranded\<lparr>cl_waiters := [1, 3, 4]\<rparr>"
    by (simp add: client_step.simps stranded_def new_client_def on_ensure_def)
qed

text \<open>C6: A client becomes ready or stopped only on the word of its runtime: the operation that ends
  read a status (or the answer to its load or unload) that says so, a reconciliation did, or a probe
  result of that class was applied under the current generation with no operation in flight.\<close>

theorem ready_and_stopped_are_confirmed:
  assumes "cl_state s \<noteq> st" "cl_state (client_step cfg s e) = st" "st = StateReady \<or> st = StateStopped"
  shows "confirmed st s e"
  by (rule state_confirmed [OF assms])

theorem ready_and_stopped_are_confirmed_witness:
  "confirms_ready demo_load
   \<and> cl_state (client_step demo_cfg (run (client_step demo_cfg) new_client [CEnsure 1 0, CEnsure 2 0])
        (COpDone demo_load)) = StateReady"
proof -
  let ?s = "run (client_step demo_cfg) new_client [CEnsure 1 0, CEnsure 2 0]"
  have "cl_state ?s = StateStarting"
    by (simp add: client_step.simps new_client_def on_ensure_def client_ops)
  moreover have r: "cl_state (client_step demo_cfg ?s (COpDone demo_load)) = StateReady"
    using joined_load_run by (simp add: joined_load_def loaded_def)
  ultimately have "confirmed StateReady ?s (COpDone demo_load)"
    by (intro ready_and_stopped_are_confirmed [of _ _ demo_cfg]) simp_all
  then show ?thesis using r by (simp add: confirmed_def)
qed

text \<open>C21: The generation a probe captured proves that nothing happened meanwhile: when the result is
  applied, the state, the proxy and the last status of the client are those at the start of the
  probe, provided no operation and no stop was in flight then.\<close>

theorem applied_probe_is_current:
  assumes "s = run (client_step cfg) new_client ds" "t = run (client_step cfg) s es"
    and "cl_op s = None" "cl_stop s = None" "ac_gen cmd = cl_gen s"
    and "cl_out (client_step cfg t (CApply i cmd)) = cl_out t @ [Ack i ApplyApplied]"
  shows "same_facts s t"
proof -
  have "\<not> cl_ended t" "cl_gen t = cl_gen s"
    using assms(5,6) by (auto simp: client_step.simps on_apply_def say_def split: if_splits)
  moreover have "client_inv s" using client_machine.inv_run [OF client_inv_new, of cfg ds] assms(1) by simp
  ultimately show ?thesis using facts_run [OF assms(3,4)] assms(2) by simp
qed

definition unloaded_probe :: "nat \<Rightarrow> apply_cmd" where
  "unloaded_probe g =
     \<lparr>ac_gen = g, ac_class = RecUnloadedIdle, ac_status = unloaded_status, ac_hasStatus = True\<rparr>"

theorem applied_probe_is_current_witness:
  "same_facts new_client new_client
   \<and> cl_state (client_step demo_cfg new_client (CApply 7 (unloaded_probe 0))) = StateStopped"
proof
  have "cl_out (client_step demo_cfg new_client (CApply 7 (unloaded_probe 0)))
      = cl_out new_client @ [Ack 7 ApplyApplied]"
    "cl_op new_client = None" "cl_stop new_client = None" "ac_gen (unloaded_probe 0) = cl_gen new_client"
    by code_simp+
  then show "same_facts new_client new_client"
    by (intro applied_probe_is_current [of _ demo_cfg "[]" _ "[]"]) simp_all
  show "cl_state (client_step demo_cfg new_client (CApply 7 (unloaded_probe 0))) = StateStopped"
    by code_simp
qed

text \<open>C40: A stop that comes while a load is in flight and succeeds tells every request that waits for
  the load that it succeeded, and leaves the client stopped.\<close>

theorem stop_during_load_reports_success:
  assumes "cl_op s = Some (g, t)" "cl_stop s = None" "\<not> cl_ended s" "cl_state s \<noteq> StateShutdown"
    and "w \<in> set (cl_waiters s)" "snd (do_stop (stop_timeout cfg timeout) env) = None"
  shows "Reply w None \<in> set (cl_out (run (client_step cfg) s [CStop i timeout, CStopDone env]))
    \<and> cl_state (run (client_step cfg) s [CStop i timeout, CStopDone env]) = StateStopped"
  using assms
  by (simp add: client_step.simps on_stop_def on_stop_done_def client_ops)

theorem stop_during_load_reports_success_witness:
  "Reply 1 None \<in> set (cl_out (run (client_step demo_cfg) (client_step demo_cfg new_client (CEnsure 1 0))
      [CStop 2 0, CStopDone demo_unload]))"
proof -
  have "cl_op (client_step demo_cfg new_client (CEnsure 1 0)) = Some (1, 0)"
    "cl_stop (client_step demo_cfg new_client (CEnsure 1 0)) = None"
    "\<not> cl_ended (client_step demo_cfg new_client (CEnsure 1 0))"
    "cl_state (client_step demo_cfg new_client (CEnsure 1 0)) \<noteq> StateShutdown"
    "1 \<in> set (cl_waiters (client_step demo_cfg new_client (CEnsure 1 0)))"
    by code_simp+
  from stop_during_load_reports_success [OF this, of demo_cfg 0 demo_unload 2] show ?thesis
    by (simp add: demo_unload_done)
qed

section \<open>Operations\<close>

definition is_load :: "control_act \<Rightarrow> bool" where
  "is_load a = (case a of ActLoad _ \<Rightarrow> True | _ \<Rightarrow> False)"

text \<open>C15: A load is asked of the runtime at most once, only after the router admitted it, with time left,
  and only when the last status says unloaded, or failed and not resident with no active request; the
  prepare command is run only when the endpoint was down, when one is registered and none is running.\<close>

theorem loads_are_admitted:
  "length (filter is_load (fst (do_ensure cfg timeout env))) \<le> 1
   \<and> (\<forall>d. ActLoad d \<in> set (fst (do_ensure cfg timeout env)) \<longrightarrow>
        en_gate env = Some None \<and> 0 < d \<and> (\<exists>st. decisive cfg env = Some st \<and> may_load st))
   \<and> (\<forall>argv cwd. ActPrepare argv cwd \<in> set (fst (do_ensure cfg timeout env)) \<longrightarrow>
        cc_prepare cfg = Some argv \<and> argv \<noteq> [] \<and> \<not> en_prepBusy env
        \<and> (\<exists>e. fetch_status (en_first env) = Inl e \<and> is_endpoint_down e))"
proof -
  have p: "filter is_load (prepares cfg env) = []" "ActLoad d \<notin> set (prepares cfg env)" for d
    by (auto simp: prepares_def run_prepare_acts is_load_def split: sum.split)
  have "length (filter is_load (fst (do_ensure cfg timeout env))) \<le> 1"
    by (simp add: do_ensure_acts p load_now_acts is_load_def split: option.split)
  moreover have "en_gate env = Some None \<and> 0 < d \<and> (\<exists>st. decisive cfg env = Some st \<and> may_load st)"
    if "ActLoad d \<in> set (fst (do_ensure cfg timeout env))" for d
    using that p(2)
    by (cases "decisive cfg env")
      (auto simp: do_ensure_acts load_now_acts wait_load_gate_def split: option.splits if_splits)
  moreover have "cc_prepare cfg = Some argv \<and> argv \<noteq> [] \<and> \<not> en_prepBusy env
      \<and> (\<exists>e. fetch_status (en_first env) = Inl e \<and> is_endpoint_down e)"
    if "ActPrepare argv cwd \<in> set (fst (do_ensure cfg timeout env))" for argv cwd
    using that
    by (cases "fetch_status (en_first env)")
      (auto simp: do_ensure_acts load_now_acts prepares_def run_prepare_acts
        split: option.splits if_splits sum.splits)
  ultimately show ?thesis by blast
qed

theorem loads_are_admitted_witness:
  "ActLoad (120 * second) \<in> set (fst (do_ensure demo_cfg 0 demo_load)) \<and> en_gate demo_load = Some None"
  using loads_are_admitted [of demo_cfg 0 demo_load] by (simp add: demo_load_done)

text \<open>C29: An unload is asked of the runtime only when its status shows no active request and no load in
  progress, and a stop reports success only when a status, or the answer to the unload, says that
  the model is unloaded, not resident and idle.\<close>

theorem unloads_are_idle_and_confirmed:
  "(ActUnload d \<in> set (fst (do_stop timeout env)) \<longrightarrow>
      (\<exists>st. fetch_status (se_first env) = Inr st \<and> activeRequests st = 0 \<and> wire st \<noteq> WireLoading))
   \<and> (snd (do_stop timeout env) = None \<longrightarrow> confirms_unloaded env)"
proof
  show "snd (do_stop timeout env) = None \<longrightarrow> confirms_unloaded env" using do_stop_confirmed by blast
  show "ActUnload d \<in> set (fst (do_stop timeout env)) \<longrightarrow>
      (\<exists>st. fetch_status (se_first env) = Inr st \<and> activeRequests st = 0 \<and> wire st \<noteq> WireLoading)"
  proof (cases "fetch_status (se_first env)")
    case (Inr st)
    then have "0 \<le> activeRequests st" using fetch_status_parsed parse_status_ok(2) by blast
    then show ?thesis using Inr by (auto simp: do_stop_acts split: if_splits)
  qed (simp add: do_stop_acts)
qed

theorem unloads_are_idle_and_confirmed_witness:
  "confirms_unloaded demo_unload \<and> fst (do_stop 30 demo_unload) = [ActUnload 30]"
  using unloads_are_idle_and_confirmed [of 30 30 demo_unload] by (simp add: demo_unload_done)

section \<open>Documents\<close>

definition ascii :: "string \<Rightarrow> bool" where
  "ascii s = list_all (\<lambda>c. of_char c < (128 :: nat)) s"

text \<open>C24: A status as a runtime encodes it is read back as it was, when it is one of the combinations the
  control contract allows and its last error, if it has one, has a code; so is the code with the
  message of a control error. The texts are in ASCII.\<close>

theorem status_documents_round_trip:
  assumes "validate_status st = None" "0 \<le> activeRequests st" "activeRequests st < 2 ^ 63"
    and "\<forall>l. lastError st = Some l \<longrightarrow> le_code l \<noteq> '''' \<and> ascii (le_code l @ le_message l)"
    and "code \<noteq> ''''" "ascii (code @ message)"
  shows "parse_status (encode_status st) = Inr st
    \<and> parse_control_error (encode_control_error message code) = Inr (code, message)"
  using parse_encoded_status [of st] parse_encoded_control_error [of code message] assms by simp

definition failed_status :: status where
  "failed_status =
     \<lparr>wire = WireFailed, resid = ResidencyNotResident, activeRequests = 12,
      lastError = Some \<lparr>le_code = ''OOM'', le_message = ''need <40> GiB, '' @ [CHR 0x22] @ ''a'' @ [CHR 0x22]\<rparr>\<rparr>"

theorem status_documents_round_trip_witness:
  "parse_status (encode_status failed_status) = Inr failed_status
   \<and> parse_control_error (encode_control_error ''model is busy'' ''BUSY'') = Inr (''BUSY'', ''model is busy'')"
  by (rule status_documents_round_trip) (simp_all add: failed_status_def validate_status_def ascii_def)

text \<open>C26: The state of a status the client accepts is one of the five of the control contract and its
  residency one of the three, a ready runtime is resident, an unloaded one is not and has no active
  request, the number of active requests is not negative, and the status has a place in the matrix of
  recovery: its class is never the invalid one.\<close>

theorem parsed_status_is_classified:
  assumes "parse_status body = Inr st"
  shows "wire st \<in> {WireUnloaded, WireLoading, WireReady, WireUnloading, WireFailed}
    \<and> resid st \<in> {ResidencyResident, ResidencyNotResident, ResidencyUnknown}
    \<and> (wire st = WireReady \<longrightarrow> resid st = ResidencyResident)
    \<and> (wire st = WireUnloaded \<longrightarrow> resid st = ResidencyNotResident \<and> activeRequests st = 0)
    \<and> 0 \<le> activeRequests st \<and> classify_recovery st \<noteq> RecInvalid"
  using valid_status_classified parse_status_ok [OF assms] validate_status_ok by blast

theorem parsed_status_is_classified_witness:
  "wire failed_status = WireFailed \<and> classify_recovery failed_status \<noteq> RecInvalid"
  using parsed_status_is_classified [of "encode_status failed_status" failed_status]
    parse_encoded_status [of failed_status]
  by (simp add: failed_status_def validate_status_def)

text \<open>A status document with the state eof, which no runtime may send.\<close>

definition eof_document :: string where
  "eof_document =
     json_text (JObj [(''state'', JStr ''eof''), (''residency'', JStr ''unknown''),
                      (''active_requests'', JNum ''0''), (''last_error'', JNull)])"

definition eof_error :: goerr where
  "eof_error = status_error (''invalid state '' @ go_quote ''eof'')"

text \<open>A status document with the state eof is refused, but the error quotes the state, and the search
  for eof in the text of the error takes it for a dead endpoint: the client runs the prepare command
  of a runtime that has answered.\<close>

theorem broken_status_looks_like_a_dead_endpoint:
  "parse_status eof_document = Inl eof_error \<and> classify_status_err (Some eof_error) = StatusErrEndpointDown
   \<and> ActPrepare [''/opt/run/start.sh'', ''a''] ''/opt/run'' \<in>
       set (fst (do_ensure demo_cfg 0 (demo_load\<lparr>en_first := Response 200 eof_document None\<rparr>)))"
proof -
  have p: "parse_status eof_document = Inl eof_error" by code_simp
  have "contains (map to_lower_char (err_text eof_error)) ''eof''" by code_simp
  then have d: "is_endpoint_down eof_error"
    by (subst is_endpoint_down.simps) (simp add: eof_error_def status_error_def)
  have "prepares demo_cfg (demo_load\<lparr>en_first := Response 200 eof_document None\<rparr>)
      = [ActPrepare [''/opt/run/start.sh'', ''a''] ''/opt/run'']"
    using p d demo_prepare by (simp add: prepares_def fetch_status_def demo_load_def)
  then show ?thesis using p d by (simp add: do_ensure_acts classify_status_err_def)
qed

end

