(* ===== verification/Recovery_Client.thy ===== *)
theory Recovery_Client
  imports Router_Props Client_Props
begin

text \<open>
  Recovery across two goroutines: the router's \<open>onRecover\<close> with the loop of the client that answers
  its command (\<open>applyClient\<close> of \<^verbatim>\<open>internal/router/recover.go\<close>). The router changes its ledger first
  and takes the change back unless the client applied the command.
\<close>

section \<open>The pair\<close>

definition cmd_of :: "recover_event \<Rightarrow> apply_cmd" where
  "cmd_of ev =
     \<lparr>ac_gen = e_gen ev, ac_class = e_class ev, ac_status = e_status ev, ac_hasStatus = True\<rparr>"

text \<open>The code the client put on the acknowledgement channel: the last thing it said.\<close>

definition ack_of :: "client \<Rightarrow> apply_code" where
  "ack_of c = (case last (cl_out c) of Ack _ a \<Rightarrow> a | _ \<Rightarrow> ApplyStale)"

definition calls_client :: "recover_event \<Rightarrow> router \<Rightarrow> bool" where
  "calls_client ev r =
     (recover_mode_of (r_sched r) (e_token ev) \<noteq> RecoverDrop
      \<and> e_kind ev = StatusErrNone \<and> e_class ev \<noteq> RecInvalid)"

text \<open>\<open>shut\<close> says whether a shutdown request was taken with the acknowledgement; \<open>i\<close> names its channel.\<close>

definition recover_with ::
  "client_cfg \<Rightarrow> view \<Rightarrow> recover_event \<Rightarrow> bool \<Rightarrow> nat \<Rightarrow> router \<times> client \<Rightarrow> router \<times> client" where
  "recover_with cfg v ev shut i rc =
     (let (r, c) = rc in
      if calls_client ev r then
        (let c' = client_step cfg c (CApply i (cmd_of ev))
         in (on_recover v ev (Answered (ack_of c') shut) r, c'))
      else (on_recover v ev ShutdownFirst r, c))"

section \<open>What an applied command leaves\<close>

lemma on_apply_ack:
  assumes "\<not> cl_ended c" "cl_stop c = None" "c' = client_step cfg c (CApply i cmd)"
  shows "ack_of c' = ApplyApplied \<and> c' = say (Ack i ApplyApplied) ((accept_apply cmd c)\<lparr>cl_gen := cl_gen c + 1\<rparr>)
    \<or> ack_of c' \<noteq> ApplyApplied \<and> same_facts c c'"
  using assms
  by (auto simp: client_step.simps on_apply_def ack_of_def say_def same_facts_def Let_def)

lemma accept_apply_state:
  "cl_state (accept_apply cmd c) \<noteq> cl_state c \<Longrightarrow>
     ac_class cmd = RecReadyIdle \<and> cl_state (accept_apply cmd c) = StateReady
     \<or> ac_class cmd \<in> {RecUnloadedIdle, RecFailedNotResidentIdle} \<and> cl_state (accept_apply cmd c) = StateStopped"
  by (auto simp: accept_apply_def Let_def split: recovery_class.splits if_splits)

lemma ensure_peak_holds:
  assumes "model_at r i = Some m"
  shows "\<exists>p. r_reserved (ensure_peak i r) i = Some p \<and> load_bound m <=s p"
  using assms by (auto simp: ensure_peak_def word_sle_eq split: option.split)

lemma tentative_holds:
  assumes "model_at r (e_model ev) = Some m"
  shows "\<exists>p. r_reserved (tentative ev r) (e_model ev) = Some p \<and> load_bound m <=s p"
    and "e_class ev = RecReadyIdle \<Longrightarrow> r_residualAfter (tentative ev r) (e_model ev) = None"
    and "e_class ev \<in> {RecUnloadedIdle, RecFailedNotResidentIdle} \<Longrightarrow>
      \<exists>at. r_residualAfter (tentative ev r) (e_model ev) = Some at \<and> e_completedAt ev \<le> at"
proof -
  have "model_at (r\<lparr>r_residualAfter := x\<rparr>) (e_model ev) = Some m" for x using assms by simp
  note peak = ensure_peak_holds [OF assms] ensure_peak_holds [OF this]
  show "\<exists>p. r_reserved (tentative ev r) (e_model ev) = Some p \<and> load_bound m <=s p"
    using peak by (cases "e_class ev") (simp_all add: tentative_def Let_def)
  show "e_class ev = RecReadyIdle \<Longrightarrow> r_residualAfter (tentative ev r) (e_model ev) = None"
    by (simp add: tentative_def Let_def)
  show "e_class ev \<in> {RecUnloadedIdle, RecFailedNotResidentIdle} \<Longrightarrow>
      \<exists>at. r_residualAfter (tentative ev r) (e_model ev) = Some at \<and> e_completedAt ev \<le> at"
    by (auto simp: tentative_def Let_def split: option.split)
qed

lemma confirm_recover_ledger [simp]:
  "r_reserved (confirm_recover v ev r) = r_reserved r"
  "r_residualAfter (confirm_recover v ev r) = r_residualAfter r"
  by (auto simp: confirm_recover_def Let_def note_recovered_ready_def)

lemma on_recover_applied:
  assumes "calls_client ev r"
  shows "r_reserved (on_recover v ev (Answered ApplyApplied shut) r) = r_reserved (tentative ev r)"
    "r_residualAfter (on_recover v ev (Answered ApplyApplied shut) r) = r_residualAfter (tentative ev r)"
  using assms by (simp_all add: on_recover_def calls_client_def finish_shutdown_def Let_def)

section \<open>The ledger follows the client\<close>

text \<open>C12: When the result of a probe changes the state of a client, the router holds the model at its peak
  at least, without a mark if the client is now ready, and marked to wait for a sample taken after
  the probe if it is now stopped.\<close>

theorem ledger_follows_client:
  assumes "recover_with cfg v ev shut i (r, c) = (r', c')" "cl_state c' \<noteq> cl_state c"
    and "\<not> cl_ended c" "cl_stop c = None" "model_at r (e_model ev) = Some m"
  shows "(\<exists>p. r_reserved r' (e_model ev) = Some p \<and> load_bound m <=s p)
    \<and> (cl_state c' = StateReady \<and> r_residualAfter r' (e_model ev) = None
       \<or> cl_state c' = StateStopped \<and> (\<exists>at. r_residualAfter r' (e_model ev) = Some at \<and> e_completedAt ev \<le> at))"
proof -
  have call: "calls_client ev r"
    using assms(1,2) by (auto simp: recover_with_def split: if_splits)
  then have c': "c' = client_step cfg c (CApply i (cmd_of ev))"
    and r': "r' = on_recover v ev (Answered (ack_of c') shut) r"
    using assms(1) by (auto simp: recover_with_def Let_def)
  have ack: "ack_of c' = ApplyApplied" and st: "cl_state c' = cl_state (accept_apply (cmd_of ev) c)"
    using on_apply_ack [OF assms(3,4) c'] assms(2) by (auto simp: same_facts_def say_def)
  have "ac_class (cmd_of ev) = e_class ev" by (simp add: cmd_of_def)
  then show ?thesis
    using accept_apply_state [of "cmd_of ev" c] assms(2) tentative_holds [OF assms(5)]
    by (auto simp: st r' ack on_recover_applied [OF call])
qed

text \<open>The late result for \<open>a\<close>, with a client of generation 0: it is stopped, and \<open>a\<close> is held at 60.\<close>

theorem ledger_follows_client_witness:
  "cl_state (snd (recover_with demo_cfg both_stopped late_event False 1 (awaiting, new_client))) = StateStopped
   \<and> (\<exists>p. r_reserved (fst (recover_with demo_cfg both_stopped late_event False 1 (awaiting, new_client))) ''a''
         = Some p \<and> load_bound (demo_model ''a'' 60 40) <=s p)"
proof -
  let ?rc = "recover_with demo_cfg both_stopped late_event False 1 (awaiting, new_client)"
  have s: "cl_state (snd ?rc) = StateStopped" by code_simp
  have "cl_state new_client = StateUnknown" "\<not> cl_ended new_client" "cl_stop new_client = None"
    "model_at awaiting (e_model late_event) = Some (demo_model ''a'' 60 40)" "e_model late_event = ''a''"
    by code_simp+
  then show ?thesis
    using ledger_follows_client [of demo_cfg both_stopped late_event False 1 awaiting new_client "fst ?rc" "snd ?rc"
        "demo_model ''a'' 60 40"] s by simp
qed

end
