(* ===== verification/Fifo_Serve.thy ===== *)
theory Fifo_Serve
  imports Fifo_Lifecycle
begin

text \<open>
  What one event does to the requests, as the goroutines that wait for them see it: a ledger over
  the effects of the event. \<open>ledger h Q N P H o s\<close> says that, since the log was \<open>o\<close>, the scheduler
  answered requests of \<open>Q\<close> only, each grant as its caller took it; that the ids \<open>N\<close> are those
  answered since and those still queued; and that the counts of granted and of serving requests are
  \<open>P\<close> and \<open>H\<close>, raised by the grants that were taken.
\<close>

section \<open>The ledger\<close>

definition taken :: "model_id \<Rightarrow> eff \<Rightarrow> bool" where
  "taken m e = (case e of EGrantServe _ m' True \<Rightarrow> m' = m | _ \<Rightarrow> False)"

definition grants :: "model_id \<Rightarrow> eff list \<Rightarrow> int" where
  "grants m es = int (length (filter (taken m) es))"

lemma grants_simps [simp]:
  "grants m [] = 0" "grants m (es @ fs) = grants m es + grants m fs"
  "grants m [e] = (if taken m e then 1 else 0)"
  by (simp_all add: grants_def)

definition fair_grant :: "host \<Rightarrow> req set \<Rightarrow> eff \<Rightarrow> bool" where
  "fair_grant h Q e =
     (case e of
        EGrantServe i m b \<Rightarrow> b = serve_taken h i \<and> (\<exists>q \<in> Q. req_id q = i \<and> req_model q = m)
      | EAdmit _ _ \<Rightarrow> False
      | EStartReply _ _ \<Rightarrow> False
      | _ \<Rightarrow> True)"

definition ledger ::
  "host \<Rightarrow> req set \<Rightarrow> nat multiset \<Rightarrow> (model_id \<Rightarrow> int) \<Rightarrow> (model_id \<Rightarrow> int) \<Rightarrow> eff list \<Rightarrow> fifo \<Rightarrow> bool" where
  "ledger h Q N P H log s =
     (set (queued s) \<subseteq> Q
      \<and> (\<exists>es. out s = log @ es \<and> list_all (fair_grant h Q) es
           \<and> N = mset (answered es) + image_mset req_id (mset (queued s))
           \<and> (\<forall>m. cnt (pending s) m = P m + grants m es \<and> cnt (httpIn s) m = H m)))"

lemma ledgerI:
  assumes "set (queued s) \<subseteq> Q" "out s = log @ es" "list_all (fair_grant h Q) es"
    "N = mset (answered es) + image_mset req_id (mset (queued s))"
    "\<And>m. cnt (pending s) m = P m + grants m es" "\<And>m. cnt (httpIn s) m = H m"
  shows "ledger h Q N P H log s"
  using assms unfolding ledger_def by blast

lemma ledger_start:
  "ledger h (set (queued s)) (image_mset req_id (mset (queued s))) (cnt (pending s)) (cnt (httpIn s)) (out s) s"
  by (rule ledgerI [where es = "[]"]) simp_all

lemma ledger_cong:
  assumes "ledger h Q N P H log s" "queued t = queued s" "out t = out s" "pending t = pending s" "httpIn t = httpIn s"
  shows "ledger h Q N P H log t"
  using assms by (simp add: ledger_def)

lemma ledger_emit:
  assumes "ledger h Q N P H log s" "queued t = queued s" "out t = out s @ [e]" "pending t = pending s"
    "httpIn t = httpIn s" "fair_grant h Q e" "answer_ids e = []"
  shows "ledger h Q N P H log t"
proof -
  obtain es where es: "out s = log @ es" "list_all (fair_grant h Q) es"
    "N = mset (answered es) + image_mset req_id (mset (queued s))"
    "\<And>m. cnt (pending s) m = P m + grants m es" "\<And>m. cnt (httpIn s) m = H m" "set (queued s) \<subseteq> Q"
    using assms(1) by (auto simp: ledger_def)
  have "\<not> taken m e" for m using assms(7) by (cases e) (simp_all add: taken_def)
  then show ?thesis using es assms by (intro ledgerI [where es = "es @ [e]"]) simp_all
qed

lemma ledger_emitted:
  assumes "ledger h Q N P H log s" "queued t = queued s" "out t = out s" "pending t = pending s"
    "httpIn t = httpIn s" "fair_grant h Q e" "answer_ids e = []"
  shows "ledger h Q N P H log (emit e t)"
  using assms by (intro ledger_emit [OF assms(1), where e = e]) (simp_all add: emit_def)

lemma ledger_fail:
  assumes "ledger h Q N P H log s" "queued s = r # rs" "queued t = rs" "out t = out s @ [EGrantError (req_id r) e]"
    "pending t = pending s" "httpIn t = httpIn s"
  shows "ledger h Q N P H log t"
proof -
  obtain es where es: "out s = log @ es" "list_all (fair_grant h Q) es"
    "N = mset (answered es) + image_mset req_id (mset (queued s))"
    "\<And>m. cnt (pending s) m = P m + grants m es" "\<And>m. cnt (httpIn s) m = H m" "set (queued s) \<subseteq> Q"
    using assms(1) by (auto simp: ledger_def)
  show ?thesis
    by (rule ledgerI [where es = "es @ [EGrantError (req_id r) e]"])
      (use es assms in \<open>auto simp: taken_def fair_grant_def\<close>)
qed

lemma ledger_grant:
  assumes "ledger h Q N P H log s" "queued s = r # rs"
  shows "ledger h Q N P H log (grant_head h r rs s)"
proof -
  obtain es where es: "out s = log @ es" "list_all (fair_grant h Q) es"
    "N = mset (answered es) + image_mset req_id (mset (queued s))"
    "\<And>m. cnt (pending s) m = P m + grants m es" "\<And>m. cnt (httpIn s) m = H m" "set (queued s) \<subseteq> Q"
    using assms(1) by (auto simp: ledger_def)
  let ?e = "EGrantServe (req_id r) (req_model r) (serve_taken h (req_id r))"
  have t: "taken m ?e = (serve_taken h (req_id r) \<and> req_model r = m)" for m
    by (cases "serve_taken h (req_id r)") (auto simp: taken_def)
  show ?thesis
    by (rule ledgerI [where es = "es @ [?e]"])
      (use es assms(2) in \<open>auto simp: t fair_grant_def grant_head_def emit_def Let_def\<close>)
qed

section \<open>The dispatch loop and the recovery handlers keep it\<close>

lemma ledger_pieces:
  assumes I: "ledger h Q N P H log s"
  shows "ledger h Q N P H log (reopen_unused_gates h s)"
    "ledger h Q N P H log (fold (close_gate h) ms s)"
    "ledger h Q N P H log (arm_drain h ms s)"
    "ledger h Q N P H log (start_unload h r ms s)"
    "ledger h Q N P H log (start_load r s)"
    "queued s = r # rs \<Longrightarrow> ledger h Q N P H log (fail_head r rs e s)"
    "queued s = r # rs \<Longrightarrow> ledger h Q N P H log (fail_drain r rs ms s)"
    "maybe_recover h r s = Some t \<Longrightarrow> ledger h Q N P H log t"
proof -
  show "ledger h Q N P H log (reopen_unused_gates h s)"
    by (rule ledger_cong [OF I]) (simp_all add: reopen_unused_gates_def)
  show "ledger h Q N P H log (fold (close_gate h) ms s)"
    by (rule ledger_cong [OF I]) (simp_all add: fold_close_gate)
  show "ledger h Q N P H log (arm_drain h ms s)"
  proof (cases "drainArmed s")
    case True then show ?thesis using I by (simp add: arm_drain_def)
  next
    case False
    then show ?thesis
      by (intro ledger_emit [OF I, where e = "ERemind (drain_deadline h s ms)"])
        (simp_all add: arm_drain_def emit_def fair_grant_def)
  qed
  show "ledger h Q N P H log (start_load r s)"
    by (rule ledger_emit [OF I, where e = "EStartLoad (req_model r)"]) (simp_all add: start_defs fair_grant_def)
  show "ledger h Q N P H log (start_unload h r ms s)"
    unfolding start_unload_def Let_def
    by (rule ledger_emitted [OF I]) (simp_all add: set_phase_def fair_grant_def)
  show "queued s = r # rs \<Longrightarrow> ledger h Q N P H log (fail_head r rs e s)"
    by (rule ledger_fail [OF I]) (simp_all add: start_defs)
  show "queued s = r # rs \<Longrightarrow> ledger h Q N P H log (fail_drain r rs ms s)"
    by (rule ledger_fail [OF I]) (simp_all add: start_defs)
  show "ledger h Q N P H log t" if "maybe_recover h r s = Some t"
    using that
  proof (cases rule: maybe_recover_cases)
    case adopt
    then show ?thesis by (intro ledger_cong [OF I]) (simp_all add: round_defs)
  next
    case sample
    then show ?thesis by (intro ledger_cong [OF I]) (simp_all add: round_defs)
  next
    case (probe f m ms)
    then show ?thesis
      by (intro ledger_emit [OF I, where e = "EBeginProbe (tokenSeq s + 1) m"])
        (simp_all add: round_defs fair_grant_def)
  qed
qed

lemma ledger_dispatch: "ledger h Q N P H log s \<Longrightarrow> ledger h Q N P H log (try_dispatch h s)"
proof (erule try_dispatch_inv [rotated])
  fix s s' assume I: "ledger h Q N P H log s"
    and step: "dispatch_step h s = Halt s' \<or> dispatch_step h s = Again s'"
  then show "ledger h Q N P H log s'"
    by (rule dispatch_step_inv) (simp_all add: ledger_pieces ledger_grant)
qed

lemma ledger_try:
  assumes "ledger h Q N P H log s" "queued t = queued s" "out t = out s" "pending t = pending s" "httpIn t = httpIn s"
  shows "ledger h Q N P H log (try_dispatch h t)"
  using ledger_cong [OF assms] by (rule ledger_dispatch)

lemma ledger_backend: "ledger h Q N P H log s \<Longrightarrow> ledger h Q N P H log (apply_backend m a g s)"
  by (erule ledger_cong) (simp_all add: apply_backend_def)

lemma absorb_counts [simp]: "pending (absorb n s) = pending s" "httpIn (absorb n s) = httpIn s"
  by (auto simp: absorb_def apply_backend_def Let_def split: recovery_class.split)

lemma ledger_recovery:
  "ledger h Q N P H log s \<Longrightarrow> recovering s \<Longrightarrow> ledger h Q N P H log (fail_owner h e s)"
  "ledger h Q N P H log s \<Longrightarrow> phase s = PhaseRecover \<Longrightarrow> ledger h Q N P H log (launch_probe h s)"
proof -
  have e: "ledger h Q N P H log (end_round s)" "ledger h Q N P H log (s\<lparr>inflightModel := m\<rparr>)"
    "ledger h Q N P H log (set_phase PhaseSample s)" "ledger h Q N P H log (s\<lparr>statusPos := p\<rparr>)"
    if "ledger h Q N P H log s" for s m p
    by (rule ledger_cong [OF that]; simp add: round_defs)+
  have b: "ledger h Q N P H log (begin_probe m s)" if "ledger h Q N P H log s" for s m
    by (rule ledger_emit [OF that, where e = "EBeginProbe (recoverToken s) m"]) (simp_all add: round_defs fair_grant_def)
  note inv = recovery_inv [where I = "ledger h Q N P H log" and h = h, OF ledger_dispatch ledger_pieces(6) e(1) e(2) e(3) b e(4)]
  show "ledger h Q N P H log s \<Longrightarrow> recovering s \<Longrightarrow> ledger h Q N P H log (fail_owner h e s)"
    by (rule inv(1))
  show "ledger h Q N P H log s \<Longrightarrow> phase s = PhaseRecover \<Longrightarrow> ledger h Q N P H log (launch_probe h s)"
    by (rule inv(2))
qed

lemma ledger_note:
  assumes "ledger h Q N P H log s"
  shows "ledger h Q N P H log (note_probe h n s)"
proof -
  have e: "ledger h Q N P H log (s\<lparr>unloadFail := u\<rparr>)" "ledger h Q N P H log (forget_probe m s)"
    "ledger h Q N P H log (mark_seen i m s)" "ledger h Q N P H log (s\<lparr>checked := c, inflightModel := ''''\<rparr>)"
    "ledger h Q N P H log (end_round s)" "ledger h Q N P H log (s\<lparr>statusPos := p\<rparr>)"
    "ledger h Q N P H log (absorb n s)"
    if "ledger h Q N P H log s" for s u m i c p
    by (rule ledger_cong [OF that]; simp add: round_defs forget_probe_def)+
  show ?thesis
    by (rule note_probe_inv [where I = "ledger h Q N P H log"])
      (simp_all add: assms e ledger_dispatch ledger_backend ledger_recovery)
qed

section \<open>The events\<close>

abbreviation ledger_of :: "host \<Rightarrow> fifo \<Rightarrow> fifo \<Rightarrow> bool" where
  "ledger_of h s \<equiv> ledger h (set (queued s)) (image_mset req_id (mset (queued s))) (cnt (pending s)) (cnt (httpIn s)) (out s)"

text \<open>The events that do not come from the goroutine of a request itself.\<close>

fun from_caller :: "fifo_event \<Rightarrow> bool" where
  "from_caller (OnRequest _) = True"
| "from_caller (OnCancel _) = True"
| "from_caller (OnProxyStart _ _) = True"
| "from_caller (OnCancelGranted _) = True"
| "from_caller (OnServeDone _) = True"
| "from_caller _ = False"

lemma mset_remove_req:
  "find (\<lambda>q. req_id q = i) qs = Some q \<Longrightarrow>
     req_id q = i \<and> image_mset req_id (mset qs) = {#i#} + image_mset req_id (mset (remove_req i qs))"
  by (induction qs) (auto split: if_splits)

lemma set_remove_req: "set (remove_req i qs) \<subseteq> set qs"
  by (induction qs) auto

lemma drop_owner_ledger [simp]:
  "out (drop_owner i s) = out s" "queued (drop_owner i s) = queued s"
  "pending (drop_owner i s) = pending s" "httpIn (drop_owner i s) = httpIn s"
  by (simp_all add: drop_owner_def)

lemma ledger_timeout: "ledger_of h s (on_queue_timeout h i s)"
proof (cases "find (\<lambda>q. req_id q = i) (queued s)")
  case None then show ?thesis by (simp add: on_queue_timeout_def ledger_start)
next
  case (Some q)
  note q = mset_remove_req [OF Some]
  show ?thesis
    unfolding on_queue_timeout_def Some option.case
    by (intro ledger_dispatch ledgerI [where es = "[EGrantError (req_id q) (Sched ErrQueueTimeout)]"])
      (use q set_remove_req in \<open>auto simp: grant_error_def emit_def fair_grant_def taken_def\<close>)
qed

lemma ledger_shutdown: "ledger_of h s (on_shutdown e s)"
proof -
  have "answered (map (\<lambda>q. EGrantError (req_id q) e) qs) = map req_id qs"
    "list_all (fair_grant h Q) (map (\<lambda>q. EGrantError (req_id q) e) qs)"
    "grants m (map (\<lambda>q. EGrantError (req_id q) e) qs) = 0" for qs :: "req list" and Q m
    by (induction qs) (simp_all add: fair_grant_def grants_def taken_def)
  then show ?thesis
    unfolding on_shutdown_def fold_grant_error
    by (intro ledgerI [where es = "map (\<lambda>q. EGrantError (req_id q) e) (queued s)"]) simp_all
qed

lemma ledger_fail_first:
  assumes "queued t = queued s" "out t = out s" "pending t = pending s" "httpIn t = httpIn s"
  shows "ledger_of h s (case queued t of [] \<Rightarrow> t | r # rs \<Rightarrow> fail_head r rs e t)"
  using ledger_cong [OF ledger_start [of h s] assms]
  by (cases "queued t") (auto intro: ledger_pieces(6))

lemma ledger_unload_done: "ledger_of h s (on_unload_done h err s)"
proof (cases "phase s = PhaseUnloading")
  case True
  show ?thesis
  proof (cases err)
    case None
    show ?thesis
      by (simp add: on_unload_done_def True None)
        (rule ledger_dispatch, rule ledger_pieces(1), rule ledger_cong [OF ledger_start], simp_all add: fold_open_gate)
  next
    case (Some e)
    show ?thesis
      by (simp add: on_unload_done_def True Some Let_def) (intro conjI impI ledger_dispatch; intro ledger_fail_first [of "s\<lparr>unloadFail := x, phase := PhaseIdle, unloadBegan := False\<rparr>" s for x, simplified])
  qed
qed (simp add: on_unload_done_def ledger_start)

lemma ledger_swap_done: "ledger_of h s (on_swap_done h m err s)"
proof (cases "phase s \<noteq> PhaseLoading \<or> m \<noteq> swapTarget s")
  case False
  let ?s = "s\<lparr>phase := PhaseIdle, unloadBegan := False, swapTarget := '''', swapEvict := []\<rparr>"
  have s: "ledger_of h s ?s" by (rule ledger_cong [OF ledger_start]) simp_all
  then have f: "queued s = r # rs \<Longrightarrow> ledger_of h s (fail_head r rs e ?s)" for r rs e
    by (intro ledger_pieces(6)) simp_all
  show ?thesis
    using False s f
    by (auto simp: on_swap_done_def Let_def intro!: ledger_dispatch split: option.split list.split)
qed (simp add: on_swap_done_def ledger_start)

lemma ledger_event:
  assumes "\<not> from_caller ev"
  shows "ledger_of h s (fifo_step s (h, ev))"
proof -
  have t: "ledger_of h s (try_dispatch h t)"
    if "queued t = queued s" "out t = out s" "pending t = pending s" "httpIn t = httpIn s" for t
    using that by (rule ledger_try [OF ledger_start])
  show ?thesis
  proof (cases ev)
    case (OnMarkerCleared m)
    have "ledger_of h s (s\<lparr>needSample := x, unloadFail := y\<rparr>)" for x y
      by (rule ledger_cong [OF ledger_start]) simp_all
    then show ?thesis
      by (auto simp: OnMarkerCleared marker_cleared_def Let_def end_round_def intro!: t)
  next
    case OnSampleFailed
    show ?thesis
      by (auto simp: OnSampleFailed sample_failed_def recovering_def intro!: ledger_recovery ledger_start)
  next
    case (OnForget m)
    show ?thesis by (simp add: OnForget) (rule ledger_cong [OF ledger_start], simp_all add: forget_probe_def)
  next
    case (OnStatus m a er g)
    show ?thesis
      by (simp add: OnStatus on_status_def ledger_start ledger_dispatch ledger_backend)
  qed (use assms in \<open>auto simp: ledger_timeout ledger_shutdown ledger_unload_done ledger_swap_done ledger_note ledger_start
      on_backend_done_def on_remind_def intro!: t\<close>)
qed

section \<open>The events of a request\<close>

lemma remove_req_absent: "find (\<lambda>q. req_id q = i) qs = None \<Longrightarrow> remove_req i qs = qs"
  by (induction qs) (auto split: if_splits)

lemma ledger_cancel:
  "ledger h (set (remove_req i (queued s))) (image_mset req_id (mset (remove_req i (queued s)))) (cnt (pending s))
     (cnt (httpIn s)) (out s) (on_cancel h i s)"
proof (cases "find (\<lambda>q. req_id q = i) (queued s)")
  case None
  then have "\<not> list_ex (\<lambda>q. req_id q = i) (queued s)" by (auto simp: find_None_iff list_ex_iff)
  then show ?thesis
    using ledger_start [of h s] by (simp add: on_cancel_def remove_req_absent [OF None])
next
  case (Some q)
  then have "list_ex (\<lambda>q. req_id q = i) (queued s)" by (auto simp: find_Some_iff list_ex_iff)
  then show ?thesis
    unfolding on_cancel_def
    by (simp only: if_True) (rule ledger_dispatch, rule ledgerI [where es = "[]"], simp_all)
qed

lemma ledger_cancel_granted:
  "ledger h (set (queued s)) (image_mset req_id (mset (queued s)))
     (\<lambda>j. cnt (pending s) j - (if j = m \<and> 0 < cnt (pending s) m then 1 else 0))
     (cnt (httpIn s)) (out s) (on_cancel_granted h m s)"
  unfolding on_cancel_granted_def
  by (rule ledger_dispatch, rule ledgerI [where es = "[]"]) auto

lemma ledger_serve_done:
  "ledger h (set (queued s)) (image_mset req_id (mset (queued s))) (cnt (pending s))
     (\<lambda>j. cnt (httpIn s) j - (if j = m \<and> 0 < cnt (httpIn s) m then 1 else 0))
     (out s) (on_serve_done h m s)"
  unfolding on_serve_done_def Let_def
  by (rule ledger_dispatch, rule ledgerI [where es = "[]"]) auto

lemma proxy_start_counts:
  "queued (on_proxy_start m True s) = queued s"
  "out (on_proxy_start m True s) = out s @ [EStartReply m (0 < cnt (pending s) m)]"
  "cnt (pending (on_proxy_start m True s)) j
     = cnt (pending s) j - (if j = m \<and> 0 < cnt (pending s) m then 1 else 0)"
  "cnt (httpIn (on_proxy_start m True s)) j
     = cnt (httpIn s) j + (if j = m \<and> 0 < cnt (pending s) m then 1 else 0)"
  by (simp_all add: on_proxy_start_def emit_def Let_def)

text \<open>A request with an admit channel that takes the answer is refused, gone, or queued and dispatched.\<close>

lemma ledger_request:
  assumes "req_id r \<noteq> 0" "req_admit r" "admit_taken h (req_id r)"
  obtains (refused) e where "on_request h r s = emit (EAdmit (req_id r) (Some e)) s"
  | (gone) "ctx_done h (req_id r)" "on_request h r s = s"
  | (queued) "ledger h (insert r (set (queued s))) (add_mset (req_id r) (image_mset req_id (mset (queued s))))
      (cnt (pending s)) (cnt (httpIn s)) (out s @ [EAdmit (req_id r) None]) (on_request h r s)"
proof -
  let ?t = "(emit (EAdmit (req_id r) None) s)\<lparr>queued := queued s @ [r]\<rparr>"
  have "ledger h (insert r (set (queued s))) (add_mset (req_id r) (image_mset req_id (mset (queued s))))
      (cnt (pending s)) (cnt (httpIn s)) (out s @ [EAdmit (req_id r) None]) (try_dispatch h ?t)"
    by (rule ledger_dispatch, rule ledgerI [where es = "[]"]) (auto simp: emit_def)
  moreover have "on_request h r s = emit (EAdmit (req_id r) (Some (Sched ErrModelNotFound))) s
      \<or> on_request h r s = emit (EAdmit (req_id r) (Some (Sched ErrQueueFull))) s
      \<or> ctx_done h (req_id r) \<and> on_request h r s = s \<or> on_request h r s = try_dispatch h ?t"
    using assms by (auto simp: on_request_def reject_admit_def admit_def Let_def)
  ultimately show ?thesis using that by metis
qed

section \<open>The victims of an unload\<close>

text \<open>While an unload is in flight, none of its victims has a request granted or being served.\<close>

definition victims_idle :: "fifo \<Rightarrow> bool" where
  "victims_idle s =
     (phase s = PhaseUnloading \<longrightarrow> (\<forall>v \<in> set (swapEvict s). cnt (pending s) v = 0 \<and> cnt (httpIn s) v = 0))"

lemma protected_counts:
  "pos_counts (pending s) \<Longrightarrow> pos_counts (httpIn s) \<Longrightarrow> pos_counts (unresolved s) \<Longrightarrow> pos_counts (backend s) \<Longrightarrow>
     \<not> protected s v \<Longrightarrow> cnt (pending s) v = 0 \<and> cnt (httpIn s) v = 0"
  using pos_counts_nonneg [of "pending s" v] pos_counts_nonneg [of "httpIn s" v]
    pos_counts_nonneg [of "unresolved s" v] pos_counts_nonneg [of "backend s" v]
  by (simp add: protected_def)

lemma plain_no_grants: "list_all plain_eff es \<Longrightarrow> grants m es = 0"
proof (induction es)
  case (Cons e es)
  then show ?case by (cases e) (simp_all add: grants_def taken_def)
qed simp

lemma ledger_plain:
  assumes "ledger h Q N P H (out s) t" "plain s t"
  shows "cnt (pending t) m = P m" "cnt (httpIn t) m = H m"
  using assms by (auto simp: ledger_def plain_def plain_no_grants)

lemma counts_in_flight:
  assumes "plain s (fifo_step s (h, ev))" "pos_counts (pending s)" "pos_counts (httpIn s)"
    and "cnt (pending s) v = 0" "cnt (httpIn s) v = 0"
  shows "cnt (pending (fifo_step s (h, ev))) v = 0 \<and> cnt (httpIn (fifo_step s (h, ev))) v = 0"
proof (cases "from_caller ev")
  case False
  then show ?thesis
    using ledger_plain [OF ledger_event [OF False] assms(1)] assms by simp
next
  case True
  then show ?thesis
  proof (cases ev)
    case (OnRequest r)
    show ?thesis
    proof (cases rule: on_request_cases [where h = h and r = r and s = s])
      case (rejected q e s0)
      have "pending s0 = pending s" "httpIn s0 = httpIn s" by (subst rejected(2), simp)+
      then show ?thesis using rejected(1) OnRequest assms by (simp add: reject_admit_def grant_error_def emit_def)
    next
      case (gone q t s0)
      have "pending s0 = pending s" "httpIn s0 = httpIn s" by (subst gone(3), simp)+
      then show ?thesis using gone(1,2) OnRequest assms by (auto simp: admit_def emit_def split: if_splits)
    next
      case (accepted q t s0)
      have s0: "pending s0 = pending s" "httpIn s0 = httpIn s" "out s0 = out s" by (subst accepted(3), simp)+
      let ?t = "t\<lparr>queued := queued t @ [q]\<rparr>"
      have t: "pending t = pending s" "httpIn t = httpIn s"
        using accepted(1) s0 by (auto simp: admit_def emit_def split: if_splits)
      obtain es where es: "out t = out s @ es" "list_all plain_eff es"
        using accepted(1) s0 by (auto simp: admit_def emit_def split: if_splits)
      obtain fs where fs: "out (try_dispatch h ?t) = out t @ fs"
        using ledger_dispatch [OF ledger_start [of h ?t]] by (auto simp: ledger_def)
      have "plain t (try_dispatch h ?t)"
        using assms(1) OnRequest accepted(2) es fs by (auto simp: plain_def)
      then have "plain ?t (try_dispatch h ?t)" by (simp add: plain_def)
      from ledger_plain [OF ledger_dispatch [OF ledger_start] this] show ?thesis
        using OnRequest accepted(2) t assms by simp
    qed
  next
    case (OnCancel i)
    then show ?thesis using ledger_plain [OF ledger_cancel, of s h i] assms by simp
  next
    case (OnProxyStart m b)
    then show ?thesis using assms
      by (auto simp: on_proxy_start_def emit_def Let_def)
  next
    case (OnCancelGranted m)
    then show ?thesis using ledger_plain [OF ledger_cancel_granted, of s h m] assms by auto
  next
    case (OnServeDone m)
    then show ?thesis using ledger_plain [OF ledger_serve_done, of s h m] assms by auto
  qed simp_all
qed

lemma unload_emitted:
  assumes "phase (fifo_step s e) = PhaseUnloading" "\<not> busy s \<or> completes s e"
  shows "\<exists>d. unload_ok (fst e) (fifo_step s e) (swapEvict (fifo_step s e)) d"
proof -
  let ?t = "fifo_step s e"
  obtain h ev where e: "e = (h, ev)" by (cases e)
  obtain es where es: "out ?t = out s @ es" "\<forall>f \<in> set es. effect_ok h ?t f"
    using fifo_step_emits [of h s ev] by (auto simp: emits_def e)
  have "busy ?t" using assms(1) by (simp add: busy_def)
  moreover have "completes s e \<Longrightarrow> busy s" by (auto simp: completes_def busy_def split: fifo_event.splits)
  ultimately have "filter is_start es \<noteq> []"
    using jobs_step [of s e] assms(2) es(1)
    by (cases "completes s e"; cases "busy s") (auto simp: finished_jobs_def started_jobs_def)
  then obtain f where f: "f \<in> set es" "is_start f" by (auto simp: filter_empty_conv)
  then have "effect_ok h ?t f" using es(2) by blast
  with f(2) show ?thesis
    using assms(1) by (cases f) (auto simp: load_ok_def unload_ok_def e)
qed

lemma victims_idle_step:
  assumes "victims_idle s" "counters_ok s"
  shows "victims_idle (fifo_step s e)"
proof (cases "phase (fifo_step s e) = PhaseUnloading")
  case ph: True
  let ?t = "fifo_step s e"
  obtain h ev where e: "e = (h, ev)" by (cases e)
  show ?thesis
  proof (cases "busy s \<and> \<not> completes s e")
    case True
    then have j: "same_job s ?t" using same_job_step by blast
    then have "phase s = PhaseUnloading" "swapEvict ?t = swapEvict s" "plain s ?t"
      using ph by (simp_all add: same_job_def)
    then show ?thesis
      using assms counts_in_flight [of s h ev] e by (simp add: victims_idle_def counters_ok_def)
  next
    case False
    then obtain d where "unload_ok h ?t (swapEvict ?t) d" using unload_emitted [OF ph] e by auto
    then have "\<forall>v \<in> set (swapEvict ?t). \<not> protected ?t v" by (simp add: unload_ok_def)
    moreover have "counters_ok ?t" using assms(2) by (rule counters_ok_step)
    ultimately show ?thesis
      using protected_counts [of ?t] by (simp add: victims_idle_def counters_ok_def)
  qed
qed (simp add: victims_idle_def)

section \<open>The limits are those of the configuration\<close>

lemma limits_dispatch: "limits s = L \<Longrightarrow> limits (try_dispatch h s) = L"
proof (erule try_dispatch_inv [where I = "\<lambda>s. limits s = L", rotated])
  fix s s' assume "limits s = L" "dispatch_step h s = Halt s' \<or> dispatch_step h s = Again s'"
  then show "limits s' = L"
  proof (rule dispatch_step_inv [where I = "\<lambda>s. limits s = L"])
    fix s r s' assume I: "limits s = L" and m: "maybe_recover h r s = Some s'"
    from m show "limits s' = L" by (cases rule: maybe_recover_cases) (use I in \<open>simp_all add: round_defs\<close>)
  qed (auto simp: head_defs reopen_unused_gates_def)
qed

lemma limits_absorb: "limits (absorb n s) = limits s"
  by (auto simp: absorb_def apply_backend_def Let_def split: recovery_class.split)

lemma limits_recovery:
  "limits s = L \<Longrightarrow> recovering s \<Longrightarrow> limits (fail_owner h e s) = L"
  "limits s = L \<Longrightarrow> phase s = PhaseRecover \<Longrightarrow> limits (launch_probe h s) = L"
  by (rule recovery_inv [where I = "\<lambda>s. limits s = L"]; simp add: limits_dispatch round_defs start_defs)+

lemma limits_note: "limits s = L \<Longrightarrow> limits (note_probe h n s) = L"
  by (rule note_probe_inv [where I = "\<lambda>s. limits s = L"])
    (simp_all add: limits_dispatch limits_recovery limits_absorb round_defs forget_probe_def apply_backend_def)

lemma limits_step: "limits (fifo_step s e) = limits s"
proof -
  obtain h ev where e: "e = (h, ev)" by (cases e)
  show ?thesis
    by (cases ev)
      (auto simp: e on_request_def reject_admit_def admit_def on_cancel_def drop_owner_def
        on_queue_timeout_def on_proxy_start_def on_cancel_granted_def on_serve_done_def on_status_def
        on_backend_done_def on_unload_done_def on_swap_done_def on_remind_def on_shutdown_def
        fold_grant_error forget_probe_def marker_cleared_def sample_failed_def recovering_def
        reopen_unused_gates_def fold_open_gate emit_def grant_error_def fail_head_def end_round_def
        apply_backend_def Let_def split: option.split list.split
        intro!: limits_dispatch limits_note limits_recovery(1))
qed

end
