(* ===== verification/Serve.thy ===== *)
theory Serve
  imports Fifo_Serve
begin

text \<open>
  The goroutines of the requests, \<open>ServeModel\<close>, \<open>trackedServe\<close>, \<open>watchQueueTimeout\<close> and
  \<open>prepareModel\<close> of \<^verbatim>\<open>internal/router/base.go\<close>, beside the loop that drives the scheduler. A step
  of the system is one rendezvous: a goroutine takes a branch of the select it is blocked in, and
  when that branch sends to the loop, the loop handles the event to its end and hands out what the
  handler answers. The system covers the time until the loop returns and the goroutines that are
  left then.
\<close>

section \<open>Goroutines\<close>

text \<open>A preload waits for its model like a request, through \<open>prepareModel\<close>, and then gives the grant back.\<close>

datatype caller = Inference | Preload

datatype ending = Served | Prepared | Refused goerr | Left | NotStarted

text \<open>
  Where a goroutine is blocked: before the send of its request, in the select on its admit channel,
  in the select on its answer, in \<open>trackedServe\<close> before \<open>OnProxyStart\<close>, in the runtime's handler.
\<close>

datatype stage = GoNew | GoSent | GoWait | GoGranted | GoServing | GoEnded ending

text \<open>\<open>g_ctx\<close>: the context of the request is done. \<open>g_admit\<close>: what its admit channel holds or held.\<close>

record goroutine =
  g_caller :: caller
  g_model :: model_id
  g_ctx :: bool
  g_admit :: "goerr option option"
  g_stage :: stage

text \<open>The ids come from a counter that starts at 1, so the goroutine of id \<open>i\<close> is number \<open>i - 1\<close>.\<close>

definition go_at :: "goroutine list \<Rightarrow> nat \<Rightarrow> goroutine option" where
  "go_at gs i = (if 0 < i \<and> i \<le> length gs then Some (gs ! (i - 1)) else None)"

definition on_go :: "nat \<Rightarrow> (goroutine \<Rightarrow> goroutine) \<Rightarrow> goroutine list \<Rightarrow> goroutine list" where
  "on_go i f gs = (case go_at gs i of None \<Rightarrow> gs | Some g \<Rightarrow> gs[i - 1 := f g])"

definition waits :: "goroutine \<Rightarrow> bool" where
  "waits g = (g_stage g = GoSent \<or> g_stage g = GoWait)"

section \<open>The channels between a goroutine and the loop\<close>

text \<open>
  \<open>grant\<close> sends on a channel without buffer: a goroutine that waits receives the answer (after its
  admission, which is in a buffer), unless its context is done; then either branch may be taken,
  and \<open>serve_taken\<close> of the host decides.
\<close>

definition receives :: "host \<Rightarrow> nat \<Rightarrow> goroutine \<Rightarrow> bool" where
  "receives h i g = (waits g \<and> (g_ctx g \<longrightarrow> serve_taken h i))"

text \<open>
  The host as the goroutines answer it. The admit channel has a buffer of one and is sent to once,
  so the send goes through.
\<close>

definition host_of :: "host \<Rightarrow> goroutine list \<Rightarrow> host" where
  "host_of h gs =
     h\<lparr>serve_taken := (\<lambda>i. case go_at gs i of None \<Rightarrow> False | Some g \<Rightarrow> receives h i g),
       ctx_done := (\<lambda>i. case go_at gs i of None \<Rightarrow> True | Some g \<Rightarrow> g_ctx g),
       admit_taken := (\<lambda>_. True)\<rparr>"

definition deliver :: "host \<Rightarrow> eff \<Rightarrow> goroutine list \<Rightarrow> goroutine list" where
  "deliver h e gs =
     (case e of
        EAdmit i r \<Rightarrow> on_go i (\<lambda>g. g\<lparr>g_admit := Some r\<rparr>) gs
      | EGrantError i err \<Rightarrow>
          on_go i (\<lambda>g. if receives h i g then g\<lparr>g_stage := GoEnded (Refused err)\<rparr> else g) gs
      | EGrantServe i _ True \<Rightarrow> on_go i (\<lambda>g. g\<lparr>g_stage := GoGranted\<rparr>) gs
      | _ \<Rightarrow> gs)"

section \<open>The system\<close>

record system =
  sv_sched :: fifo
  sv_go :: "goroutine list"
  sv_shutting :: bool
  sv_refused :: nat
  sv_returned :: bool

definition new_system :: "fifo_cfg option \<Rightarrow> system" where
  "new_system cfg =
     \<lparr>sv_sched = new_fifo cfg, sv_go = [], sv_shutting = False, sv_refused = 0, sv_returned = False\<rparr>"

definition loop_step :: "host \<Rightarrow> fifo_event \<Rightarrow> system \<Rightarrow> system" where
  "loop_step h ev sv =
     (let s = fifo_step (sv_sched sv) (host_of h (sv_go sv), ev)
      in sv\<lparr>sv_sched := s,
            sv_go := fold (deliver h) (drop (length (out (sv_sched sv))) (out s)) (sv_go sv)\<rparr>)"

definition enter :: "nat \<Rightarrow> stage \<Rightarrow> system \<Rightarrow> system" where
  "enter i st sv = sv\<lparr>sv_go := on_go i (\<lambda>g. g\<lparr>g_stage := st\<rparr>) (sv_go sv)\<rparr>"

section \<open>The steps of a goroutine\<close>

text \<open>\<open>ServeModel\<close> refuses at once when the router is shutting down; otherwise the request gets its id.\<close>

definition arrive :: "caller \<Rightarrow> model_id \<Rightarrow> system \<Rightarrow> system" where
  "arrive c m sv =
     (if c = Inference \<and> sv_shutting sv then sv\<lparr>sv_refused := sv_refused sv + 1\<rparr>
      else sv\<lparr>sv_go := sv_go sv
                @ [\<lparr>g_caller = c, g_model = m, g_ctx = False, g_admit = None, g_stage = GoNew\<rparr>]\<rparr>)"

definition submit :: "host \<Rightarrow> nat \<Rightarrow> goroutine \<Rightarrow> system \<Rightarrow> system" where
  "submit h i g sv =
     (if g_stage g = GoNew \<and> \<not> sv_returned sv
      then loop_step h (OnRequest \<lparr>req_id = i, req_model = g_model g, req_admit = True\<rparr>) (enter i GoSent sv)
      else sv)"

definition read_admit :: "nat \<Rightarrow> goroutine \<Rightarrow> system \<Rightarrow> system" where
  "read_admit i g sv =
     (if g_stage g = GoSent
      then (case g_admit g of
              None \<Rightarrow> sv
            | Some None \<Rightarrow> enter i GoWait sv
            | Some (Some e) \<Rightarrow> enter i (GoEnded (Refused e)) sv)
      else sv)"

text \<open>
  The context is done: a request that was not sent just returns, one that was sent is cancelled on
  the loop (or returns when the loop has). A preload does not insist on its cancel being received.
\<close>

definition leave :: "host \<Rightarrow> nat \<Rightarrow> goroutine \<Rightarrow> system \<Rightarrow> system" where
  "leave h i g sv =
     (if \<not> g_ctx g then sv
      else if g_stage g = GoNew then enter i (GoEnded Left) sv
      else if waits g then
        (if sv_returned sv then enter i (GoEnded Left) sv
         else loop_step h (OnCancel i) (enter i (GoEnded Left) sv))
      else sv)"

definition abandon :: "nat \<Rightarrow> goroutine \<Rightarrow> system \<Rightarrow> system" where
  "abandon i g sv =
     (if g_caller g = Preload \<and> g_ctx g \<and> waits g then enter i (GoEnded Left) sv else sv)"

text \<open>The watcher of an admitted request fires; it outlives the request when it is blocked in its send.\<close>

definition watch_fires :: "host \<Rightarrow> nat \<Rightarrow> goroutine \<Rightarrow> system \<Rightarrow> system" where
  "watch_fires h i g sv =
     (if g_caller g = Inference \<and> g_admit g = Some None \<and> \<not> sv_returned sv
      then loop_step h (OnQueueTimeout i) sv else sv)"

text \<open>The answer to \<open>OnProxyStart\<close> comes on a channel of its own.\<close>

definition start_serving :: "host \<Rightarrow> nat \<Rightarrow> goroutine \<Rightarrow> system \<Rightarrow> system" where
  "start_serving h i g sv =
     (if g_caller g = Inference \<and> g_stage g = GoGranted \<and> \<not> sv_returned sv then
        (let sv' = loop_step h (OnProxyStart (g_model g) True) sv
         in case last (out (sv_sched sv')) of
              EStartReply _ True \<Rightarrow> enter i GoServing sv'
            | _ \<Rightarrow> enter i (GoEnded NotStarted) sv')
      else sv)"

definition give_back :: "host \<Rightarrow> nat \<Rightarrow> goroutine \<Rightarrow> system \<Rightarrow> system" where
  "give_back h i g sv =
     (if g_stage g = GoGranted \<and> \<not> sv_returned sv \<and> (g_caller g = Preload \<or> g_ctx g)
      then loop_step h (OnCancelGranted (g_model g))
             (enter i (GoEnded (if g_caller g = Preload then Prepared else Left)) sv)
      else sv)"

definition finish_serving :: "host \<Rightarrow> nat \<Rightarrow> goroutine \<Rightarrow> system \<Rightarrow> system" where
  "finish_serving h i g sv =
     (if g_stage g = GoServing then
        (if sv_returned sv then enter i (GoEnded Served) sv
         else loop_step h (OnServeDone (g_model g)) (enter i (GoEnded Served) sv))
      else sv)"

text \<open>
  The branch on the router's own context, once the loop has returned. \<open>prepareModel\<close> has it only
  before it sends its request and after its grant.
\<close>

definition see_shutdown :: "nat \<Rightarrow> goroutine \<Rightarrow> system \<Rightarrow> system" where
  "see_shutdown i g sv =
     (if \<not> sv_returned sv then sv
      else if g_stage g = GoNew \<or> waits g \<and> g_caller g = Inference
        then enter i (GoEnded (Refused (Sched ErrShutdown))) sv
      else if g_stage g = GoGranted
        then enter i (GoEnded (if g_caller g = Preload then Prepared else NotStarted)) sv
      else sv)"

section \<open>The step function\<close>

datatype serve_event =
    SvArrive caller model_id
  | SvContext nat
  | SvSubmit host nat
  | SvAdmit nat
  | SvLeave host nat
  | SvAbandon nat
  | SvTimeout host nat
  | SvStart host nat
  | SvGiveBack host nat
  | SvFinish host nat
  | SvClosed nat
  | SvLoop host fifo_event
  | SvShutdown
  | SvReturn

definition with_go :: "nat \<Rightarrow> (goroutine \<Rightarrow> system \<Rightarrow> system) \<Rightarrow> system \<Rightarrow> system" where
  "with_go i f sv = (case go_at (sv_go sv) i of None \<Rightarrow> sv | Some g \<Rightarrow> f g sv)"

text \<open>
  The loop handles the events that are not sent by the goroutine of a request (a queue timeout has
  its own step). \<open>OnShutdown\<close> follows the flag that refuses new requests, and so does the return.
\<close>

definition loop_event :: "system \<Rightarrow> fifo_event \<Rightarrow> bool" where
  "loop_event sv ev =
     (\<not> sv_returned sv \<and> \<not> from_caller ev
      \<and> (case ev of OnQueueTimeout _ \<Rightarrow> False | OnShutdown _ \<Rightarrow> sv_shutting sv | _ \<Rightarrow> True))"

fun serve_step :: "system \<Rightarrow> serve_event \<Rightarrow> system" where
  "serve_step sv (SvArrive c m) = arrive c m sv"
| "serve_step sv (SvContext i) = sv\<lparr>sv_go := on_go i (\<lambda>g. g\<lparr>g_ctx := True\<rparr>) (sv_go sv)\<rparr>"
| "serve_step sv (SvSubmit h i) = with_go i (submit h i) sv"
| "serve_step sv (SvAdmit i) = with_go i (read_admit i) sv"
| "serve_step sv (SvLeave h i) = with_go i (leave h i) sv"
| "serve_step sv (SvAbandon i) = with_go i (abandon i) sv"
| "serve_step sv (SvTimeout h i) = with_go i (watch_fires h i) sv"
| "serve_step sv (SvStart h i) = with_go i (start_serving h i) sv"
| "serve_step sv (SvGiveBack h i) = with_go i (give_back h i) sv"
| "serve_step sv (SvFinish h i) = with_go i (finish_serving h i) sv"
| "serve_step sv (SvClosed i) = with_go i (see_shutdown i) sv"
| "serve_step sv (SvLoop h ev) = (if loop_event sv ev then loop_step h ev sv else sv)"
| "serve_step sv SvShutdown = sv\<lparr>sv_shutting := True\<rparr>"
| "serve_step sv SvReturn = (if sv_shutting sv then sv\<lparr>sv_returned := True\<rparr> else sv)"

end
