(* ===== verification/Serve_Inv.thy ===== *)
theory Serve_Inv
  imports Serve
begin

text \<open>
  The goroutines and the scheduler agree: the counters of granted and of serving requests are
  numbers of goroutines, the queue holds goroutines that wait, and a goroutine that waits with a
  live context is in the queue. One event changes both sides by the same effects (\<open>settle\<close>).
\<close>

section \<open>Lists of goroutines\<close>

lemma go_at_on_go:
  "go_at (on_go i f gs) j = (if j = i then map_option f (go_at gs i) else go_at gs j)"
  by (auto simp: on_go_def go_at_def split: option.split)

lemma length_on_go [simp]: "length (on_go i f gs) = length gs"
  by (simp add: on_go_def split: option.split)

lemma on_go_none: "go_at gs i = None \<Longrightarrow> on_go i f gs = gs"
  by (simp add: on_go_def)

lemma on_go_same: "go_at gs i = Some g \<Longrightarrow> f g = g \<Longrightarrow> on_go i f gs = gs"
  by (auto simp: on_go_def go_at_def split: if_splits)

definition in_stage :: "stage \<Rightarrow> model_id \<Rightarrow> goroutine list \<Rightarrow> int" where
  "in_stage st m gs = int (length (filter (\<lambda>g. g_stage g = st \<and> g_model g = m) gs))"

lemma in_stage_simps [simp]:
  "in_stage st m [] = 0"
  "in_stage st m (gs @ hs) = in_stage st m gs + in_stage st m hs"
  "in_stage st m (g # gs) = of_bool (g_stage g = st \<and> g_model g = m) + in_stage st m gs"
  by (simp_all add: in_stage_def)

lemma in_stage_nonneg: "0 \<le> in_stage st m gs"
  by (simp add: in_stage_def)

lemma in_stage_update:
  "k < length gs \<Longrightarrow> in_stage st m (gs[k := g])
     = in_stage st m gs - of_bool (g_stage (gs ! k) = st \<and> g_model (gs ! k) = m)
       + of_bool (g_stage g = st \<and> g_model g = m)"
proof (induction gs arbitrary: k)
  case (Cons x gs)
  then show ?case by (cases k) auto
qed simp

lemma in_stage_on_go:
  "go_at gs i = Some g \<Longrightarrow> in_stage st m (on_go i f gs)
     = in_stage st m gs - of_bool (g_stage g = st \<and> g_model g = m)
       + of_bool (g_stage (f g) = st \<and> g_model (f g) = m)"
  by (auto simp: on_go_def in_stage_update) (auto simp: go_at_def in_stage_update split: if_splits)

lemma in_stage_some: "go_at gs i = Some g \<Longrightarrow> g_stage g = st \<Longrightarrow> 0 < in_stage st (g_model g) gs"
proof -
  assume "go_at gs i = Some g" "g_stage g = st"
  then have "g \<in> set gs" by (auto simp: go_at_def split: if_splits)
  then have "g \<in> set (filter (\<lambda>x. g_stage x = st \<and> g_model x = g_model g) gs)" using \<open>g_stage g = st\<close> by simp
  then have "0 < length (filter (\<lambda>x. g_stage x = st \<and> g_model x = g_model g) gs)" by (rule length_pos_if_in_set)
  then show ?thesis by (simp only: in_stage_def of_nat_0_less_iff)
qed

section \<open>What a goroutine receives from one event\<close>

text \<open>\<open>gs0\<close> are the goroutines as the host saw them, \<open>es\<close> what is left to hand out.\<close>

definition answers_to :: "host \<Rightarrow> nat \<Rightarrow> goroutine \<Rightarrow> goroutine option \<Rightarrow> bool" where
  "answers_to h i g g' =
     (if receives h i g
      then \<exists>st. g' = Some (g\<lparr>g_stage := st\<rparr>) \<and> (st = GoGranted \<or> (\<exists>e. st = GoEnded (Refused e)))
      else g' = Some g)"

definition known :: "goroutine list \<Rightarrow> req \<Rightarrow> bool" where
  "known gs q = (\<exists>g. go_at gs (req_id q) = Some g \<and> g_model g = req_model q)"

lemma deliver_one:
  assumes "fair_grant (host_of h gs0) Q e" "\<forall>q \<in> Q. known gs q"
    and "\<forall>i \<in> set (answer_ids e). go_at gs i = go_at gs0 i"
  shows "i \<notin> set (answer_ids e) \<Longrightarrow> go_at (deliver h e gs) i = go_at gs i"
    and "i \<in> set (answer_ids e) \<Longrightarrow> go_at gs i = Some g \<Longrightarrow> answers_to h i g (go_at (deliver h e gs) i)"
    and "in_stage GoGranted m (deliver h e gs) = in_stage GoGranted m gs + (if taken m e then 1 else 0)"
    and "in_stage GoServing m (deliver h e gs) = in_stage GoServing m gs"
    and "\<forall>q \<in> Q. known (deliver h e gs) q"
proof -
  show "i \<notin> set (answer_ids e) \<Longrightarrow> go_at (deliver h e gs) i = go_at gs i"
    using assms(1) by (cases e) (auto simp: deliver_def go_at_on_go fair_grant_def split: bool.split)
  have serve: "\<exists>g. go_at gs j = Some g \<and> g_model g = m' \<and> b = receives h j g" if e: "e = EGrantServe j m' b" for j m' b
  proof -
    obtain q where q: "q \<in> Q" "req_id q = j" "req_model q = m'" and b: "b = serve_taken (host_of h gs0) j"
      using assms(1) by (auto simp: e fair_grant_def)
    obtain g where "go_at gs j = Some g" "g_model g = m'" using assms(2) q by (auto simp: known_def)
    then show ?thesis using b assms(3) by (auto simp: e host_of_def)
  qed
  show "i \<in> set (answer_ids e) \<Longrightarrow> go_at gs i = Some g \<Longrightarrow> answers_to h i g (go_at (deliver h e gs) i)"
    using serve assms(1)
    by (cases e) (auto simp: deliver_def go_at_on_go answers_to_def fair_grant_def split: bool.split)
  show "in_stage GoGranted m (deliver h e gs) = in_stage GoGranted m gs + (if taken m e then 1 else 0)"
    "in_stage GoServing m (deliver h e gs) = in_stage GoServing m gs"
  proof (atomize (full), cases e)
    case (EGrantError j er)
    then show "in_stage GoGranted m (deliver h e gs) = in_stage GoGranted m gs + (if taken m e then 1 else 0)
        \<and> in_stage GoServing m (deliver h e gs) = in_stage GoServing m gs"
      by (cases "go_at gs j")
        (auto simp: deliver_def taken_def on_go_none in_stage_on_go receives_def waits_def)
  next
    case (EGrantServe j m' b)
    then show "in_stage GoGranted m (deliver h e gs) = in_stage GoGranted m gs + (if taken m e then 1 else 0)
        \<and> in_stage GoServing m (deliver h e gs) = in_stage GoServing m gs"
      using serve [OF EGrantServe]
      by (cases b) (auto simp: deliver_def taken_def in_stage_on_go receives_def waits_def)
  qed (use assms(1) in \<open>auto simp: deliver_def taken_def fair_grant_def\<close>)
  have "known (on_go j f gs) q" if "known gs q" "\<And>g. g_model (f g) = g_model g" for j f q
    using that by (auto simp: known_def go_at_on_go)
  then show "\<forall>q \<in> Q. known (deliver h e gs) q"
    using assms(1,2) by (cases e) (auto simp: deliver_def fair_grant_def split: bool.split)
qed

lemma deliver_all:
  assumes "list_all (fair_grant (host_of h gs0) Q) es" "distinct (answered es)" "\<forall>q \<in> Q. known gs q"
    and "\<forall>i \<in> set (answered es). go_at gs i = go_at gs0 i"
  shows "(\<forall>i. i \<notin> set (answered es) \<longrightarrow> go_at (fold (deliver h) es gs) i = go_at gs i)
    \<and> (\<forall>i g. i \<in> set (answered es) \<longrightarrow> go_at gs i = Some g \<longrightarrow> answers_to h i g (go_at (fold (deliver h) es gs) i))
    \<and> (\<forall>m. in_stage GoGranted m (fold (deliver h) es gs) = in_stage GoGranted m gs + grants m es)
    \<and> (\<forall>m. in_stage GoServing m (fold (deliver h) es gs) = in_stage GoServing m gs)
    \<and> (\<forall>q \<in> Q. known (fold (deliver h) es gs) q)"
  using assms
proof (induction es arbitrary: gs)
  case Nil
  then show ?case by simp
next
  case (Cons e es)
  let ?g = "deliver h e gs"
  have e: "fair_grant (host_of h gs0) Q e" "\<forall>i \<in> set (answer_ids e). go_at gs i = go_at gs0 i"
    and es: "list_all (fair_grant (host_of h gs0) Q) es" "distinct (answered es)"
    and disj: "\<And>i. i \<in> set (answered es) \<Longrightarrow> i \<notin> set (answer_ids e)"
    using Cons(2,3,5) by auto
  note one = deliver_one [OF e(1) Cons(4) e(2)]
  have "\<forall>i \<in> set (answered es). go_at ?g i = go_at gs0 i"
    using one(1) disj Cons(5) by simp
  note IH = Cons(1) [OF es one(5) this]
  have g: "grants m (e # es) = (if taken m e then 1 else 0) + grants m es" for m by (simp add: grants_def)
  show ?case
  proof (intro conjI allI impI)
    fix i show "i \<notin> set (answered (e # es)) \<Longrightarrow> go_at (fold (deliver h) (e # es) gs) i = go_at gs i"
      using IH one(1) [of i] by simp
  next
    fix i g assume i: "i \<in> set (answered (e # es))" "go_at gs i = Some g"
    show "answers_to h i g (go_at (fold (deliver h) (e # es) gs) i)"
    proof (cases "i \<in> set (answer_ids e)")
      case True
      then have "i \<notin> set (answered es)" using disj by blast
      then have "go_at (fold (deliver h) es ?g) i = go_at ?g i" using IH by blast
      then show ?thesis using one(2) [OF True i(2)] by simp
    next
      case False
      then show ?thesis using IH one(1) [OF False] i by auto
    qed
  qed (use IH one(3,4) g in auto)
qed

section \<open>Agreement\<close>

definition matches :: "goroutine list \<Rightarrow> req \<Rightarrow> bool" where
  "matches gs q =
     (\<exists>g. go_at gs (req_id q) = Some g \<and> g_model g = req_model q \<and> g_admit g = Some None
        \<and> (waits g \<or> g_caller g = Preload \<and> g_stage g = GoEnded Left))"

definition refused_admission :: "goroutine \<Rightarrow> bool" where
  "refused_admission g = (case g_admit g of Some (Some _) \<Rightarrow> True | _ \<Rightarrow> False)"

definition all_wait :: "nat set \<Rightarrow> goroutine list \<Rightarrow> bool" where
  "all_wait N gs =
     (\<forall>i g. go_at gs i = Some g \<longrightarrow> waits g \<longrightarrow> \<not> g_ctx g \<longrightarrow> i \<in> N \<or> refused_admission g)"

definition counted :: "(model_id \<Rightarrow> int) \<Rightarrow> (model_id \<Rightarrow> int) \<Rightarrow> goroutine list \<Rightarrow> bool" where
  "counted P H gs = (\<forall>m. in_stage GoGranted m gs = P m \<and> in_stage GoServing m gs = H m)"

definition agree :: "fifo \<Rightarrow> goroutine list \<Rightarrow> bool" where
  "agree s gs =
     (distinct (waiting_ids s) \<and> (\<forall>q \<in> set (queued s). matches gs q) \<and> all_wait (set (waiting_ids s)) gs
      \<and> counted (cnt (pending s)) (cnt (httpIn s)) gs)"

lemma go_at_deliver: "(go_at (fold (deliver h) es gs) i = None) = (go_at gs i = None)"
proof -
  have "length (deliver h e gs) = length gs" for e gs
    by (simp add: deliver_def split: eff.split bool.split)
  then have "length (fold (deliver h) es gs) = length gs" by (induction es arbitrary: gs) simp_all
  then show ?thesis by (simp add: go_at_def)
qed

lemma matches_known: "matches gs q \<Longrightarrow> known gs q"
  by (auto simp: matches_def known_def)

lemma settle:
  assumes l: "ledger (host_of h gs) Q N P H log s'"
    and q: "\<forall>q \<in> Q. matches gs q" and n: "N = mset ns" "distinct ns" and w: "all_wait (set ns) gs"
    and c: "counted P H gs"
  shows "agree s' (fold (deliver h) (drop (length log) (out s')) gs)"
proof -
  obtain es where es: "out s' = log @ es" "list_all (fair_grant (host_of h gs) Q) es"
    and N: "N = mset (answered es) + image_mset req_id (mset (queued s'))"
    and cs: "\<And>m. cnt (pending s') m = P m + grants m es" "\<And>m. cnt (httpIn s') m = H m"
    and sub: "set (queued s') \<subseteq> Q"
    using l by (auto simp: ledger_def)
  have "mset (answered es @ waiting_ids s') = mset ns" using N n by simp
  then have d: "distinct (answered es @ waiting_ids s')" and ns: "set ns = set (answered es @ waiting_ids s')"
    using n(2) by (metis mset_eq_imp_distinct_iff, metis mset_eq_setD)
  let ?g = "fold (deliver h) es gs"
  have f: "\<forall>q \<in> Q. known gs q" using q matches_known by blast
  have "distinct (answered es)" using d by simp
  from deliver_all [OF es(2) this f]
  have all: "i \<notin> set (answered es) \<Longrightarrow> go_at ?g i = go_at gs i"
    "i \<in> set (answered es) \<Longrightarrow> go_at gs i = Some x \<Longrightarrow> answers_to h i x (go_at ?g i)"
    "in_stage GoGranted m ?g = in_stage GoGranted m gs + grants m es"
    "in_stage GoServing m ?g = in_stage GoServing m gs" for i x m
    by blast+
  have "matches ?g r" if "r \<in> set (queued s')" for r
  proof -
    have "req_id r \<notin> set (answered es)" using d that by auto
    then show ?thesis using q sub that all(1) by (auto simp: matches_def)
  qed
  moreover have "all_wait (set (waiting_ids s')) ?g"
    unfolding all_wait_def
  proof (intro allI impI)
    fix i g assume g: "go_at ?g i = Some g" "waits g" "\<not> g_ctx g"
    show "i \<in> set (waiting_ids s') \<or> refused_admission g"
    proof (cases "i \<in> set (answered es)")
      case False
      then have "i \<in> set ns \<or> refused_admission g" using w all(1) g by (auto simp: all_wait_def)
      then show ?thesis using False ns by auto
    next
      case True
      have "go_at gs i \<noteq> None" using g(1) go_at_deliver [of h es gs i] by auto
      then obtain x where x: "go_at gs i = Some x" by blast
      have "answers_to h i x (Some g)" using all(2) [OF True x] g(1) by simp
      then show ?thesis using g(2,3) by (auto simp: answers_to_def receives_def waits_def split: if_splits)
    qed
  qed
  moreover have "counted (cnt (pending s')) (cnt (httpIn s')) ?g"
    using c all(3,4) cs by (simp add: counted_def)
  ultimately show ?thesis using d es(1) by (simp add: agree_def)
qed

section \<open>One step\<close>

lemma enter_simps [simp]:
  "sv_sched (enter i st sv) = sv_sched sv" "sv_returned (enter i st sv) = sv_returned sv"
  "sv_shutting (enter i st sv) = sv_shutting sv"
  by (simp_all add: enter_def)

lemma loop_simps [simp]:
  "sv_returned (loop_step h ev sv) = sv_returned sv" "sv_shutting (loop_step h ev sv) = sv_shutting sv"
  "sv_sched (loop_step h ev sv) = fifo_step (sv_sched sv) (host_of h (sv_go sv), ev)"
  by (simp_all add: loop_step_def Let_def)

definition in_step :: "system \<Rightarrow> bool" where
  "in_step sv = agree (sv_sched sv) (sv_go sv)"

lemma in_step_loop:
  assumes "ledger (host_of h (sv_go sv)) Q N P H (out (sv_sched sv)) (fifo_step (sv_sched sv) (host_of h (sv_go sv), ev))"
    and "\<forall>q \<in> Q. matches (sv_go sv) q" "N = mset ns" "distinct ns" "all_wait (set ns) (sv_go sv)"
    and "counted P H (sv_go sv)"
  shows "in_step (loop_step h ev sv)"
  using settle [OF assms] by (simp add: in_step_def loop_step_def Let_def)

lemma in_step_event: "in_step sv \<Longrightarrow> \<not> from_caller ev \<Longrightarrow> in_step (loop_step h ev sv)"
  by (rule in_step_loop [OF ledger_event, where ns = "waiting_ids (sv_sched sv)"])
    (simp_all add: in_step_def agree_def)

text \<open>A goroutine that moves to a stage that neither waits nor counts, and is not in the queue.\<close>

lemma not_queued: "in_step sv \<Longrightarrow> go_at (sv_go sv) i = Some g \<Longrightarrow> \<not> waits g \<Longrightarrow>
    g_stage g \<noteq> GoEnded Left \<Longrightarrow> q \<in> set (queued (sv_sched sv)) \<Longrightarrow> req_id q \<noteq> i"
  by (auto simp: in_step_def agree_def matches_def)

lemma matches_enter:
  "matches gs q \<Longrightarrow> req_id q \<noteq> i \<Longrightarrow> matches (on_go i f gs) q"
  by (auto simp: matches_def go_at_on_go)

lemma all_wait_enter:
  "all_wait N gs \<Longrightarrow> \<not> waits (g\<lparr>g_stage := st\<rparr>) \<Longrightarrow> go_at gs i = Some g \<Longrightarrow>
     all_wait (N - {i}) (on_go i (\<lambda>g. g\<lparr>g_stage := st\<rparr>) gs)"
  by (auto simp: all_wait_def go_at_on_go waits_def split: if_splits)

definition outside :: "stage \<Rightarrow> bool" where
  "outside st = (st \<noteq> GoGranted \<and> st \<noteq> GoServing \<and> st \<noteq> GoSent \<and> st \<noteq> GoWait)"

lemma outside_ended [simp]: "outside (GoEnded e)" and outside_not_waits: "outside st \<Longrightarrow> \<not> waits (g\<lparr>g_stage := st\<rparr>)"
  by (simp_all add: outside_def waits_def)

lemma counted_leave:
  assumes "counted P H gs" "go_at gs i = Some g" "outside st"
  shows "counted (\<lambda>j. P j - of_bool (g_stage g = GoGranted \<and> g_model g = j))
           (\<lambda>j. H j - of_bool (g_stage g = GoServing \<and> g_model g = j)) (on_go i (\<lambda>g. g\<lparr>g_stage := st\<rparr>) gs)"
  using assms by (auto simp: counted_def in_stage_on_go outside_def)

lemma remove_req_distinct:
  assumes "distinct (map req_id qs)"
  shows "distinct (map req_id (remove_req i qs)) \<and> set (map req_id (remove_req i qs)) = set (map req_id qs) - {i}"
proof -
  have "map req_id (remove_req i qs) = remove1 i (map req_id qs)" by (induction qs) auto
  then show ?thesis using assms by (simp del: set_map add: set_remove1_eq)
qed

lemma in_step_leave:
  assumes I: "in_step sv" and g: "go_at (sv_go sv) i = Some g" "waits g"
  shows "in_step (loop_step h (OnCancel i) (enter i (GoEnded Left) sv))"
proof -
  let ?s = "sv_sched sv" and ?gs = "on_go i (\<lambda>g. g\<lparr>g_stage := GoEnded Left\<rparr>) (sv_go sv)"
  let ?qs = "remove_req i (queued ?s)"
  have a: "distinct (waiting_ids ?s)" "\<forall>q \<in> set (queued ?s). matches (sv_go sv) q"
    "all_wait (set (waiting_ids ?s)) (sv_go sv)" "counted (cnt (pending ?s)) (cnt (httpIn ?s)) (sv_go sv)"
    using I by (simp_all add: in_step_def agree_def)
  have "distinct (map req_id ?qs) \<and> set (map req_id ?qs) = set (waiting_ids ?s) - {i}"
    using a(1) by (rule remove_req_distinct)
  then have d: "distinct (map req_id ?qs)" "set (map req_id ?qs) = set (waiting_ids ?s) - {i}" by auto
  have "req_id q \<noteq> i" if "q \<in> set ?qs" for q
    using d(2) that by (metis Diff_iff image_eqI insertI1 list.set_map)
  then have m: "\<forall>q \<in> set ?qs. matches ?gs q"
    using a(2) set_remove_req [of i "queued ?s"] by (auto intro: matches_enter)
  have "counted (cnt (pending ?s)) (cnt (httpIn ?s)) ?gs"
    using counted_leave [OF a(4) g(1), of "GoEnded Left"] g(2) by (simp add: waits_def) (auto simp: counted_def)
  then show ?thesis
    using m d all_wait_enter [OF a(3) _ g(1), of "GoEnded Left"]
    by (intro in_step_loop [where ns = "map req_id ?qs" and ev = "OnCancel i"])
      (simp_all add: ledger_cancel enter_def waits_def)
qed

lemma agree_parts:
  assumes "in_step sv"
  shows "distinct (waiting_ids (sv_sched sv))" "\<forall>q \<in> set (queued (sv_sched sv)). matches (sv_go sv) q"
    "all_wait (set (waiting_ids (sv_sched sv))) (sv_go sv)"
    "counted (cnt (pending (sv_sched sv))) (cnt (httpIn (sv_sched sv))) (sv_go sv)"
  using assms by (simp_all add: in_step_def agree_def)

text \<open>A goroutine that holds a grant or serves gives it back.\<close>

lemma in_step_back:
  assumes I: "in_step sv" and g: "go_at (sv_go sv) i = Some g" and st: "outside st"
  shows "g_stage g = GoGranted \<Longrightarrow> in_step (loop_step h (OnCancelGranted (g_model g)) (enter i st sv))"
    and "g_stage g = GoServing \<Longrightarrow> in_step (loop_step h (OnServeDone (g_model g)) (enter i st sv))"
proof -
  let ?s = "sv_sched sv" and ?gs = "on_go i (\<lambda>g. g\<lparr>g_stage := st\<rparr>) (sv_go sv)"
  note a = agree_parts [OF I]
  have m: "\<forall>q \<in> set (queued ?s). matches ?gs q" if "\<not> waits g" "g_stage g \<noteq> GoEnded Left"
    using a(2) not_queued [OF I g that] matches_enter by blast
  have w: "all_wait (set (waiting_ids ?s)) ?gs"
    using all_wait_enter [OF a(3) outside_not_waits [OF st] g] by (auto simp: all_wait_def)
  have p: "0 < cnt (pending ?s) (g_model g)" if "g_stage g = GoGranted"
    using in_stage_some [OF g that] a(4) by (simp add: counted_def)
  have h: "0 < cnt (httpIn ?s) (g_model g)" if "g_stage g = GoServing"
    using in_stage_some [OF g that] a(4) by (simp add: counted_def)
  note c = counted_leave [OF a(4) g st]
  show "in_step (loop_step h (OnCancelGranted (g_model g)) (enter i st sv))" if gr: "g_stage g = GoGranted"
  proof (rule in_step_loop [where ns = "waiting_ids ?s"])
    show "ledger (host_of h (sv_go (enter i st sv))) (set (queued ?s)) (image_mset req_id (mset (queued ?s)))
       (\<lambda>j. cnt (pending ?s) j - (if j = g_model g \<and> 0 < cnt (pending ?s) (g_model g) then 1 else 0))
       (cnt (httpIn ?s)) (out (sv_sched (enter i st sv)))
       (fifo_step (sv_sched (enter i st sv)) (host_of h (sv_go (enter i st sv)), OnCancelGranted (g_model g)))"
      by (simp add: ledger_cancel_granted)
    show "counted (\<lambda>j. cnt (pending ?s) j - (if j = g_model g \<and> 0 < cnt (pending ?s) (g_model g) then 1 else 0))
       (cnt (httpIn ?s)) (sv_go (enter i st sv))"
      using c p gr by (auto simp: counted_def enter_def)
  qed (use m w a(1) gr in \<open>simp_all add: enter_def waits_def\<close>)
  show "in_step (loop_step h (OnServeDone (g_model g)) (enter i st sv))" if gr: "g_stage g = GoServing"
  proof (rule in_step_loop [where ns = "waiting_ids ?s"])
    show "ledger (host_of h (sv_go (enter i st sv))) (set (queued ?s)) (image_mset req_id (mset (queued ?s)))
       (cnt (pending ?s))
       (\<lambda>j. cnt (httpIn ?s) j - (if j = g_model g \<and> 0 < cnt (httpIn ?s) (g_model g) then 1 else 0))
       (out (sv_sched (enter i st sv)))
       (fifo_step (sv_sched (enter i st sv)) (host_of h (sv_go (enter i st sv)), OnServeDone (g_model g)))"
      by (simp add: ledger_serve_done)
    show "counted (cnt (pending ?s))
       (\<lambda>j. cnt (httpIn ?s) j - (if j = g_model g \<and> 0 < cnt (httpIn ?s) (g_model g) then 1 else 0))
       (sv_go (enter i st sv))"
      using c h gr by (auto simp: counted_def enter_def)
  qed (use m w a(1) gr in \<open>simp_all add: enter_def waits_def\<close>)
qed

text \<open>The start of a granted request finds its grant counted, so it is never refused.\<close>

lemma start_granted:
  assumes I: "in_step sv" and g: "go_at (sv_go sv) i = Some g" "g_stage g = GoGranted" "g_caller g = Inference"
    and r: "\<not> sv_returned sv"
  shows "\<exists>sv'. start_serving h i g sv = enter i GoServing sv' \<and> sv_go sv' = sv_go sv
    \<and> sv_sched sv' = on_proxy_start (g_model g) True (sv_sched sv)"
proof -
  let ?sv = "loop_step h (OnProxyStart (g_model g) True) sv"
  have p: "0 < cnt (pending (sv_sched sv)) (g_model g)"
    using in_stage_some [OF g(1,2)] agree_parts(4) [OF I] by (simp add: counted_def)
  have "sv_go ?sv = sv_go sv"
    by (simp add: loop_step_def Let_def proxy_start_counts deliver_def)
  moreover have "last (out (sv_sched ?sv)) = EStartReply (g_model g) True"
    using p by (simp add: proxy_start_counts)
  ultimately show ?thesis using g r by (intro exI [of _ ?sv]) (simp add: start_serving_def Let_def)
qed

lemma in_step_start:
  assumes I: "in_step sv" and g: "go_at (sv_go sv) i = Some g"
  shows "in_step (start_serving h i g sv)"
proof (cases "g_caller g = Inference \<and> g_stage g = GoGranted \<and> \<not> sv_returned sv")
  case True
  then obtain sv' where sv: "start_serving h i g sv = enter i GoServing sv'" "sv_go sv' = sv_go sv"
    "sv_sched sv' = on_proxy_start (g_model g) True (sv_sched sv)"
    using start_granted [OF I g] by blast
  note a = agree_parts [OF I]
  have p: "0 < cnt (pending (sv_sched sv)) (g_model g)"
    using in_stage_some [OF g] True a(4) by (simp add: counted_def)
  have w: "\<not> waits (g\<lparr>g_stage := GoServing\<rparr>)" by (simp add: waits_def)
  have "req_id q \<noteq> i" if "q \<in> set (queued (sv_sched sv))" for q
    using not_queued [OF I g _ _ that] True by (auto simp: waits_def)
  then have "\<forall>q \<in> set (queued (sv_sched sv)). matches (on_go i (\<lambda>g. g\<lparr>g_stage := GoServing\<rparr>) (sv_go sv)) q"
    using a(2) matches_enter by blast
  then show ?thesis
    using a p True g all_wait_enter [OF a(3) w g]
    unfolding in_step_def agree_def sv
    by (auto simp: enter_def sv proxy_start_counts counted_def in_stage_on_go all_wait_def)
qed (use I in \<open>auto simp: start_serving_def\<close>)

section \<open>Sending a request\<close>

lemma host_of_admit:
  "host_of h (on_go i (\<lambda>g. g\<lparr>g_admit := r\<rparr>) gs) = host_of h gs"
proof -
  have "(case go_at (on_go i (\<lambda>g. g\<lparr>g_admit := r\<rparr>) gs) j of None \<Rightarrow> False | Some g \<Rightarrow> receives h j g)
      = (case go_at gs j of None \<Rightarrow> False | Some g \<Rightarrow> receives h j g)"
    "(case go_at (on_go i (\<lambda>g. g\<lparr>g_admit := r\<rparr>) gs) j of None \<Rightarrow> True | Some g \<Rightarrow> g_ctx g)
      = (case go_at gs j of None \<Rightarrow> True | Some g \<Rightarrow> g_ctx g)" for j
    by (auto simp: go_at_on_go receives_def waits_def split: option.split)
  then show ?thesis by (simp add: host_of_def)
qed

lemma counted_frame:
  assumes "counted P H gs" "go_at gs i = Some g" "g_model (f g) = g_model g"
    and "g_stage g \<noteq> GoGranted" "g_stage g \<noteq> GoServing" "g_stage (f g) \<noteq> GoGranted" "g_stage (f g) \<noteq> GoServing"
  shows "counted P H (on_go i f gs)"
  using assms by (simp add: counted_def in_stage_on_go)

lemma in_step_frame:
  assumes I: "in_step sv" and g: "go_at (sv_go sv) i = Some g" and m: "g_model (f g) = g_model g"
    and st: "g_stage g \<noteq> GoGranted" "g_stage g \<noteq> GoServing" "g_stage (f g) \<noteq> GoGranted" "g_stage (f g) \<noteq> GoServing"
    and q: "g_admit g = Some None \<Longrightarrow> waits g \<or> g_caller g = Preload \<and> g_stage g = GoEnded Left \<Longrightarrow>
      g_admit (f g) = Some None \<and> (waits (f g) \<or> g_caller (f g) = Preload \<and> g_stage (f g) = GoEnded Left)"
    and w: "waits (f g) \<Longrightarrow> \<not> g_ctx (f g) \<Longrightarrow> (waits g \<and> \<not> g_ctx g \<and> (refused_admission g \<longrightarrow> refused_admission (f g))) \<or> refused_admission (f g)"
  shows "in_step (sv\<lparr>sv_go := on_go i f (sv_go sv)\<rparr>)"
proof -
  note a = agree_parts [OF I]
  have "matches (on_go i f (sv_go sv)) r" if "r \<in> set (queued (sv_sched sv))" for r
  proof (cases "req_id r = i")
    case True
    then show ?thesis using a(2) that g m q by (auto simp: matches_def go_at_on_go)
  qed (use a(2) matches_enter that in blast)
  moreover have "all_wait (set (waiting_ids (sv_sched sv))) (on_go i f (sv_go sv))"
    using a(3) w g by (auto simp: all_wait_def go_at_on_go split: if_splits)
  ultimately show ?thesis
    using a(1) counted_frame [where f = f, OF a(4) g m st] by (simp add: in_step_def agree_def)
qed

lemma in_step_submit:
  assumes I: "in_step sv" and g: "go_at (sv_go sv) i = Some g"
  shows "in_step (submit h i g sv)"
proof (cases "g_stage g = GoNew \<and> \<not> sv_returned sv")
  case True
  let ?r = "\<lparr>req_id = i, req_model = g_model g, req_admit = True\<rparr>"
  let ?sv = "enter i GoSent sv" and ?s = "sv_sched sv"
  let ?g = "g\<lparr>g_stage := GoSent\<rparr>"
  let ?h = "host_of h (sv_go ?sv)"
  note a = agree_parts [OF I]
  have new: "req_id q \<noteq> i" if "q \<in> set (queued ?s)" for q
    using not_queued [OF I g _ _ that] True by (simp add: waits_def)
  have g1: "go_at (sv_go ?sv) i = Some ?g" using g by (simp add: enter_def go_at_on_go)
  have m1: "\<forall>q \<in> set (queued ?s). matches (sv_go ?sv) q"
    using a(2) new matches_enter by (fastforce simp: enter_def)
  have c1: "counted (cnt (pending ?s)) (cnt (httpIn ?s)) (sv_go ?sv)"
    using counted_frame [OF a(4) g] True by (simp add: enter_def)
  have w1: "all_wait (insert i (set (waiting_ids ?s))) (sv_go ?sv)"
    using a(3) by (auto simp: enter_def all_wait_def go_at_on_go split: if_splits)
  have admit: "agree t (on_go i (\<lambda>g. g\<lparr>g_admit := x\<rparr>) (sv_go ?sv))"
    if "queued t = queued ?s" "pending t = pending ?s" "httpIn t = httpIn ?s" "x = Some (Some e)" for t x e
  proof -
    have "\<forall>q \<in> set (queued ?s). matches (on_go i (\<lambda>g. g\<lparr>g_admit := x\<rparr>) (sv_go ?sv)) q"
      using m1 new matches_enter by blast
    moreover have "all_wait (set (waiting_ids ?s)) (on_go i (\<lambda>g. g\<lparr>g_admit := x\<rparr>) (sv_go ?sv))"
      using w1 g1 that by (auto simp: all_wait_def go_at_on_go refused_admission_def split: if_splits)
    ultimately show ?thesis
      using a(1) counted_frame [OF c1 g1, of "\<lambda>g. g\<lparr>g_admit := x\<rparr>"] that by (simp add: agree_def)
  qed
  have sub: "submit h i g sv = loop_step h (OnRequest ?r) ?sv" using True by (simp add: submit_def)
  have i: "0 < i" using g by (auto simp: go_at_def split: if_splits)
  consider (refused) e where "on_request ?h ?r ?s = emit (EAdmit i (Some e)) ?s"
    | (gone) "ctx_done ?h i" "on_request ?h ?r ?s = ?s"
    | (queued) "ledger ?h (insert ?r (set (queued ?s))) (add_mset i (image_mset req_id (mset (queued ?s))))
        (cnt (pending ?s)) (cnt (httpIn ?s)) (out ?s @ [EAdmit i None]) (on_request ?h ?r ?s)"
    by (rule ledger_request [of ?r ?h ?s]) (use i in \<open>simp_all add: host_of_def\<close>)
  then show ?thesis
  proof cases
    case (refused e)
    then show ?thesis
      unfolding sub in_step_def
      by (simp add: loop_step_def Let_def emit_def deliver_def) (rule admit, simp_all)
  next
    case gone
    then have "g_ctx g" using g1 by (simp add: host_of_def)
    then have "all_wait (set (waiting_ids ?s)) (sv_go ?sv)"
      unfolding all_wait_def
    proof (intro allI impI)
      fix j x assume x: "go_at (sv_go ?sv) j = Some x" "waits x" "\<not> g_ctx x"
      then have "j \<noteq> i" using g1 \<open>g_ctx g\<close> by auto
      then show "j \<in> set (waiting_ids ?s) \<or> refused_admission x" using w1 x by (auto simp: all_wait_def)
    qed
    then have "agree ?s (sv_go ?sv)" using a(1) m1 c1 by (simp add: agree_def)
    then show ?thesis unfolding sub in_step_def using gone by (simp add: loop_step_def Let_def)
  next
    case queued
    let ?t = "on_request ?h ?r ?s" and ?gs = "on_go i (\<lambda>g. g\<lparr>g_admit := Some None\<rparr>) (sv_go ?sv)"
    obtain es where es: "out ?t = out ?s @ [EAdmit i None] @ es" using queued by (auto simp: ledger_def)
    have g2: "go_at ?gs i = Some (?g\<lparr>g_admit := Some None\<rparr>)" using g1 by (simp add: go_at_on_go)
    have "agree ?t (fold (deliver h) (drop (length (out ?s @ [EAdmit i None])) (out ?t)) ?gs)"
    proof (rule settle [where ns = "i # waiting_ids ?s"])
      show "ledger (host_of h ?gs) (insert ?r (set (queued ?s))) (add_mset i (image_mset req_id (mset (queued ?s))))
        (cnt (pending ?s)) (cnt (httpIn ?s)) (out ?s @ [EAdmit i None]) ?t"
        using queued by (simp only: host_of_admit)
      show "\<forall>q \<in> insert ?r (set (queued ?s)). matches ?gs q"
        using m1 new matches_enter g2 by (fastforce simp: matches_def waits_def)
      show "distinct (i # waiting_ids ?s)" using a(1) new by auto
      show "all_wait (set (i # waiting_ids ?s)) ?gs"
        using w1 by (auto simp: all_wait_def go_at_on_go split: if_splits)
      show "counted (cnt (pending ?s)) (cnt (httpIn ?s)) ?gs"
        using counted_frame [OF c1 g1, of "\<lambda>g. g\<lparr>g_admit := Some None\<rparr>"] by simp
    qed simp
    then show ?thesis
      unfolding sub in_step_def
      by (simp add: loop_step_def Let_def es deliver_def)
  qed
qed (use I in \<open>auto simp: submit_def\<close>)

section \<open>The other steps\<close>

lemma go_at_append: "go_at (gs @ [g]) j = (if j = length gs + 1 then Some g else go_at gs j)"
  by (auto simp: go_at_def nth_append)

lemma in_step_arrive: "in_step sv \<Longrightarrow> in_step (arrive c m sv)"
proof -
  assume I: "in_step sv"
  note a = agree_parts [OF I]
  let ?g = "\<lparr>g_caller = c, g_model = m, g_ctx = False, g_admit = None, g_stage = GoNew\<rparr>"
  have "matches (sv_go sv @ [?g]) q" if "matches (sv_go sv) q" for q
    using that by (auto simp: matches_def go_at_append) (auto simp: go_at_def)
  then show ?thesis
    using a I by (auto simp: in_step_def agree_def arrive_def all_wait_def go_at_append counted_def waits_def)
qed

lemma in_step_context: "in_step sv \<Longrightarrow> in_step (sv\<lparr>sv_go := on_go i (\<lambda>g. g\<lparr>g_ctx := True\<rparr>) (sv_go sv)\<rparr>)"
proof -
  assume I: "in_step sv"
  note a = agree_parts [OF I]
  let ?gs = "on_go i (\<lambda>g. g\<lparr>g_ctx := True\<rparr>) (sv_go sv)"
  have "matches ?gs q" if "matches (sv_go sv) q" for q
    using that by (auto simp: matches_def go_at_on_go waits_def)
  moreover have "in_stage st m ?gs = in_stage st m (sv_go sv)" for st m
    by (cases "go_at (sv_go sv) i") (simp_all add: on_go_none in_stage_on_go)
  ultimately show ?thesis
    using a by (auto simp: in_step_def agree_def all_wait_def go_at_on_go counted_def waits_def split: if_splits)
qed

lemma in_step_step:
  assumes I: "in_step sv" and r: "\<not> sv_returned (serve_step sv e)"
  shows "in_step (serve_step sv e)"
proof -
  have up: "in_step (sv\<lparr>sv_refused := n\<rparr>)" "in_step (sv\<lparr>sv_shutting := b\<rparr>)" for n b
    using I by (simp_all add: in_step_def)
  have go: "in_step (with_go i f sv)"
    if "\<And>g. go_at (sv_go sv) i = Some g \<Longrightarrow> in_step (f g sv)" for i f
    using that I by (simp add: with_go_def split: option.split)
  show ?thesis
  proof (cases e)
    case (SvAdmit i)
    show ?thesis unfolding SvAdmit serve_step.simps
    proof (rule go)
      fix g assume g: "go_at (sv_go sv) i = Some g"
      show "in_step (read_admit i g sv)"
        unfolding read_admit_def enter_def
        using I by (auto split: option.split intro!: in_step_frame [OF I g]
          simp: waits_def refused_admission_def)
    qed
  next
    case (SvLeave h i)
    have nr: "\<not> sv_returned sv" if "go_at (sv_go sv) i = Some g" "g_ctx g" "waits g" for g
      using r that by (auto simp: SvLeave with_go_def leave_def waits_def split: if_splits)
    show ?thesis unfolding SvLeave serve_step.simps
    proof (rule go)
      fix g assume g: "go_at (sv_go sv) i = Some g"
      have "in_step (enter i (GoEnded Left) sv)" if "g_stage g = GoNew"
        unfolding enter_def using that
        by (intro in_step_frame [OF I g]) (auto simp: waits_def)
      then show "in_step (leave h i g sv)"
        using I in_step_leave [OF I g] nr [OF g] by (auto simp: leave_def)
    qed
  next
    case (SvAbandon i)
    show ?thesis unfolding SvAbandon serve_step.simps
    proof (rule go)
      fix g assume g: "go_at (sv_go sv) i = Some g"
      have "in_step (enter i (GoEnded Left) sv)" if "g_caller g = Preload" "waits g"
        unfolding enter_def using that
        by (intro in_step_frame [OF I g]) (auto simp: waits_def)
      then show "in_step (abandon i g sv)" using I by (simp add: abandon_def)
    qed
  next
    case (SvGiveBack h i)
    show ?thesis unfolding SvGiveBack serve_step.simps
      by (rule go) (use I in_step_back(1) [OF I] in \<open>auto simp: give_back_def\<close>)
  next
    case (SvFinish h i)
    have nr: "\<not> sv_returned sv" if "go_at (sv_go sv) i = Some g" "g_stage g = GoServing" for g
      using r that by (auto simp: SvFinish with_go_def finish_serving_def split: if_splits)
    show ?thesis unfolding SvFinish serve_step.simps
      by (rule go) (use I in_step_back(2) [OF I] nr in \<open>auto simp: finish_serving_def\<close>)
  next
    case (SvClosed i)
    have "\<not> sv_returned sv"
      using r by (auto simp: SvClosed with_go_def see_shutdown_def split: if_splits option.splits)
    then show ?thesis unfolding SvClosed serve_step.simps
      by (intro go) (use I in \<open>simp add: see_shutdown_def\<close>)
  next
    case (SvTimeout h i)
    show ?thesis unfolding SvTimeout serve_step.simps
      by (rule go) (use I in_step_event [OF I] in \<open>simp add: watch_fires_def\<close>)
  next
    case (SvLoop h ev)
    then show ?thesis using I in_step_event [OF I] by (simp add: loop_event_def)
  qed (use I r in \<open>auto simp: up go in_step_arrive in_step_context in_step_submit in_step_start\<close>)
qed

section \<open>The invariant\<close>

definition covered :: "system \<Rightarrow> bool" where
  "covered sv =
     (\<forall>m. in_stage GoGranted m (sv_go sv) \<le> cnt (pending (sv_sched sv)) m
        \<and> in_stage GoServing m (sv_go sv) \<le> cnt (httpIn (sv_sched sv)) m)"

definition serve_inv :: "system \<Rightarrow> bool" where
  "serve_inv sv =
     (counters_ok (sv_sched sv) \<and> victims_idle (sv_sched sv) \<and> covered sv
      \<and> (\<not> sv_returned sv \<longrightarrow> in_step sv))"

lemma sched_step:
  "sv_sched (serve_step sv e) = sv_sched sv \<or> (\<exists>x. sv_sched (serve_step sv e) = fifo_step (sv_sched sv) x)"
proof -
  have l: "\<exists>x. fifo_step s y = fifo_step s x" for s y by blast
  show ?thesis
    by (cases e)
      (auto simp: with_go_def arrive_def submit_def read_admit_def leave_def abandon_def watch_fires_def
        start_serving_def give_back_def finish_serving_def see_shutdown_def Let_def l
        split: option.split eff.split bool.split simp del: fifo_step.simps)
qed

text \<open>After the return of the loop the goroutines only end.\<close>

lemma in_stage_enter:
  "go_at (sv_go sv) i = Some g \<Longrightarrow> outside st \<or> st = GoWait \<Longrightarrow> st' \<in> {GoGranted, GoServing} \<Longrightarrow>
     in_stage st' m (sv_go (enter i st sv)) \<le> in_stage st' m (sv_go sv)"
  by (auto simp: enter_def in_stage_on_go outside_def)

lemma returned_step:
  assumes "sv_returned (serve_step sv e)"
  shows "sv_sched (serve_step sv e) = sv_sched sv \<and> (\<forall>m. \<forall>st \<in> {GoGranted, GoServing}.
    in_stage st m (sv_go (serve_step sv e)) \<le> in_stage st m (sv_go sv))"
proof (cases "sv_returned sv")
  case False
  have "with_go i f sv = sv" if "\<not> sv_returned (with_go i f sv) \<Longrightarrow> False" "\<And>g. \<not> sv_returned (f g sv)" for i f
    using that by (auto simp: with_go_def split: option.splits)
  then show ?thesis
    using assms False
    by (cases e)
      (auto simp: with_go_def arrive_def submit_def read_admit_def leave_def abandon_def watch_fires_def
        start_serving_def give_back_def finish_serving_def see_shutdown_def Let_def loop_event_def
        split: option.splits if_splits eff.splits bool.splits)
next
  case True
  have go: "sv_sched (with_go i f sv) = sv_sched sv \<and> (\<forall>m. \<forall>st \<in> {GoGranted, GoServing}.
    in_stage st m (sv_go (with_go i f sv)) \<le> in_stage st m (sv_go sv))"
    if "\<And>g. go_at (sv_go sv) i = Some g \<Longrightarrow> f g sv = sv \<or> (\<exists>st. f g sv = enter i st sv \<and> (outside st \<or> st = GoWait))" for i f
    using that in_stage_enter
    by (simp add: with_go_def split: option.split) (metis (no_types, lifting) enter_simps(1) insertI1 insertI2 order_refl)
  have ctx: "in_stage st m (on_go i (\<lambda>g. g\<lparr>g_ctx := True\<rparr>) gs) = in_stage st m gs" for st m i gs
    by (cases "go_at gs i") (simp_all add: on_go_none in_stage_on_go)
  show ?thesis
  proof (cases e)
    case (SvSubmit h i)
    then show ?thesis by (simp only: serve_step.simps) (rule go, use True in \<open>auto simp: submit_def\<close>)
  next
    case (SvAdmit i)
    then show ?thesis by (simp only: serve_step.simps) (rule go, auto simp: read_admit_def split: option.split)
  next
    case (SvLeave h i)
    then show ?thesis by (simp only: serve_step.simps) (rule go, use True in \<open>auto simp: leave_def\<close>)
  next
    case (SvAbandon i)
    then show ?thesis by (simp only: serve_step.simps) (rule go, auto simp: abandon_def)
  next
    case (SvTimeout h i)
    then show ?thesis by (simp only: serve_step.simps) (rule go, use True in \<open>auto simp: watch_fires_def\<close>)
  next
    case (SvStart h i)
    then show ?thesis by (simp only: serve_step.simps) (rule go, use True in \<open>auto simp: start_serving_def\<close>)
  next
    case (SvGiveBack h i)
    then show ?thesis by (simp only: serve_step.simps) (rule go, use True in \<open>auto simp: give_back_def\<close>)
  next
    case (SvFinish h i)
    then show ?thesis by (simp only: serve_step.simps) (rule go, use True in \<open>auto simp: finish_serving_def\<close>)
  next
    case (SvClosed i)
    then show ?thesis by (simp only: serve_step.simps) (rule go, use True in \<open>auto simp: see_shutdown_def\<close>)
  qed (use True ctx in \<open>auto simp: arrive_def loop_event_def\<close>)
qed

lemma returned_stays: "sv_returned sv \<Longrightarrow> sv_returned (serve_step sv e)"
  by (cases e)
    (auto simp: with_go_def arrive_def submit_def read_admit_def leave_def abandon_def watch_fires_def
      start_serving_def give_back_def finish_serving_def see_shutdown_def Let_def loop_event_def
      split: option.splits if_splits eff.splits bool.splits)

lemma covered_in_step: "in_step sv \<Longrightarrow> covered sv"
  by (simp add: in_step_def agree_def counted_def covered_def)

lemma serve_inv_step: "serve_inv sv \<Longrightarrow> serve_inv (serve_step sv e)"
proof -
  assume I: "serve_inv sv"
  let ?t = "serve_step sv e"
  have "counters_ok (sv_sched ?t) \<and> victims_idle (sv_sched ?t)"
    using sched_step [of sv e] I counters_ok_step victims_idle_step by (auto simp: serve_inv_def)
  moreover have "covered ?t \<and> (\<not> sv_returned ?t \<longrightarrow> in_step ?t)"
  proof (cases "sv_returned ?t")
    case True
    have "covered sv" using I by (simp add: serve_inv_def)
    then show ?thesis
      using returned_step [OF True] True unfolding covered_def
      by (metis insertI1 insertI2 order_trans)
  next
    case False
    then have "\<not> sv_returned sv" using returned_stays by blast
    then have "in_step ?t" using I in_step_step [OF _ False] by (simp add: serve_inv_def)
    then show ?thesis by (simp add: covered_in_step)
  qed
  ultimately show ?thesis by (simp add: serve_inv_def)
qed

lemma serve_inv_new: "serve_inv (new_system cfg)"
  using counters_ok_new [of cfg]
  by (simp add: serve_inv_def new_system_def victims_idle_def covered_def in_step_def agree_def all_wait_def
      counted_def go_at_def) (simp add: new_fifo_def)

interpretation serve_machine: machine serve_step "\<lambda>_ _. True" serve_inv
  by unfold_locales (rule serve_inv_step)

end
