(* ===== verification/Serve_Props.thy ===== *)
theory Serve_Props
  imports Serve_Inv Fifo_Props
begin

text \<open>
  The properties of the requests: the scheduler together with the goroutines that wait for it, for
  any interleaving of their steps and any answers of the host.
\<close>

section \<open>Runs\<close>

lemma serve_inv_run: "serve_inv (run serve_step (new_system cfg) es)"
  using serve_machine.inv_run [OF serve_inv_new] by simp

lemma limits_run: "limits (sv_sched (run serve_step sv es)) = limits (sv_sched sv)"
proof (induction es arbitrary: sv)
  case (Cons e es)
  have "limits (sv_sched (serve_step sv e)) = limits (sv_sched sv)"
    using sched_step [of sv e] limits_step by auto
  then show ?case using Cons by simp
qed simp

text \<open>A request for \<open>a\<close> has not been sent yet, one for \<open>b\<close> has: \<open>a\<close> is being unloaded.\<close>

definition evicting_events :: "serve_event list" where
  "evicting_events = [SvArrive Inference ''a'', SvArrive Inference ''b'', SvSubmit a_ready 2]"

text \<open>A request for \<open>a\<close> is granted, a second one waits for the one slot of the model.\<close>

definition granting_events :: "serve_event list" where
  "granting_events =
     [SvArrive Inference ''a'', SvArrive Inference ''a'', SvSubmit a_ready 1, SvSubmit a_ready 2, SvAdmit 2]"

lemma evicting_run:
  "phase (sv_sched (run serve_step (new_system None) evicting_events)) = PhaseUnloading"
  "swapEvict (sv_sched (run serve_step (new_system None) evicting_events)) = [''a'']"
  by code_simp+

lemma granting_run:
  "map g_stage (sv_go (run serve_step (new_system None) granting_events)) = [GoGranted, GoWait]"
  by code_simp

section \<open>Properties\<close>

text \<open>C5: The requests of a model that hold a grant or are being served by its runtime are never more
  than its configured limit, whatever the goroutines do and in whatever order.\<close>

theorem live_requests_within_limit:
  "in_stage GoGranted m (sv_go (run serve_step (new_system cfg) es))
     + in_stage GoServing m (sv_go (run serve_step (new_system cfg) es)) \<le> limit (new_fifo cfg) m"
proof -
  let ?sv = "run serve_step (new_system cfg) es"
  have I: "serve_inv ?sv" by (rule serve_inv_run)
  have "limit (sv_sched ?sv) m = limit (new_fifo cfg) m"
    by (simp add: limit_def limits_run) (simp add: new_system_def)
  moreover have "slots (sv_sched ?sv) m \<le> limit (sv_sched ?sv) m" "0 \<le> cnt (unresolved (sv_sched ?sv)) m"
    using I pos_counts_nonneg [of "unresolved (sv_sched ?sv)" m] by (simp_all add: serve_inv_def counters_ok_def)
  moreover have "in_stage GoGranted m (sv_go ?sv) \<le> cnt (pending (sv_sched ?sv)) m"
    "in_stage GoServing m (sv_go ?sv) \<le> cnt (httpIn (sv_sched ?sv)) m"
    using I by (simp_all add: serve_inv_def covered_def)
  ultimately show ?thesis by (simp add: slots_def)
qed

text \<open>C9: While an unload is in flight, no request for one of the models it unloads holds a grant or is
  being served: nothing is taken away from a client that was let through.\<close>

theorem unloads_spare_requests:
  assumes "sv = run serve_step (new_system cfg) es" "phase (sv_sched sv) = PhaseUnloading"
    and "v \<in> set (swapEvict (sv_sched sv))"
  shows "in_stage GoGranted v (sv_go sv) = 0 \<and> in_stage GoServing v (sv_go sv) = 0"
proof -
  have I: "serve_inv sv" unfolding assms(1) by (rule serve_inv_run)
  then have "cnt (pending (sv_sched sv)) v = 0 \<and> cnt (httpIn (sv_sched sv)) v = 0"
    using assms(2,3) by (simp add: serve_inv_def victims_idle_def)
  moreover have "in_stage GoGranted v (sv_go sv) \<le> cnt (pending (sv_sched sv)) v"
    "in_stage GoServing v (sv_go sv) \<le> cnt (httpIn (sv_sched sv)) v"
    using I by (simp_all add: serve_inv_def covered_def)
  ultimately show ?thesis
    using in_stage_nonneg [of GoGranted v "sv_go sv"] in_stage_nonneg [of GoServing v "sv_go sv"] by simp
qed

theorem unloads_spare_requests_witness:
  "swapEvict (sv_sched (run serve_step (new_system None) evicting_events)) = [''a'']
   \<and> in_stage GoServing ''a'' (sv_go (run serve_step (new_system None) evicting_events)) = 0"
  using unloads_spare_requests [OF refl evicting_run(1), of "''a''"] evicting_run(2) by simp

text \<open>C4: Until the loop returns, a request that waits and whose client is still there is in the queue,
  once, unless its admission was refused and the refusal is on its way; and every request in the
  queue belongs to a goroutine that waits, or to a preload that gave up.\<close>

theorem no_live_request_is_lost:
  assumes "sv = run serve_step (new_system cfg) es" "\<not> sv_returned sv" "go_at (sv_go sv) i = Some g"
  shows "distinct (waiting_ids (sv_sched sv))
    \<and> (waits g \<longrightarrow> \<not> g_ctx g \<longrightarrow> i \<in> set (waiting_ids (sv_sched sv)) \<or> refused_admission g)
    \<and> (i \<in> set (waiting_ids (sv_sched sv)) \<longrightarrow> waits g \<or> g_caller g = Preload \<and> g_stage g = GoEnded Left)"
proof -
  have "in_step sv" using serve_inv_run [of cfg es] assms(1,2) by (simp add: serve_inv_def)
  note a = agree_parts [OF this]
  have "waits g \<or> g_caller g = Preload \<and> g_stage g = GoEnded Left" if "q \<in> set (queued (sv_sched sv))" "req_id q = i" for q
    using a(2) that assms(3) by (auto simp: matches_def)
  then show ?thesis using a(1,3) assms(3) by (auto simp: all_wait_def)
qed

theorem no_live_request_is_lost_witness:
  "waiting_ids (sv_sched (run serve_step (new_system None) granting_events)) = [2]
   \<and> (\<exists>g. go_at (sv_go (run serve_step (new_system None) granting_events)) 2 = Some g \<and> waits g
        \<and> 2 \<in> set (waiting_ids (sv_sched (run serve_step (new_system None) granting_events))))"
proof -
  let ?sv = "run serve_step (new_system None) granting_events"
  have "\<not> sv_returned ?sv" "waiting_ids (sv_sched ?sv) = [2]" by code_simp+
  moreover obtain g where g: "go_at (sv_go ?sv) 2 = Some g" "waits g" "\<not> g_ctx g" "\<not> refused_admission g"
  proof -
    have "map_option (\<lambda>g. (waits g, g_ctx g, refused_admission g)) (go_at (sv_go ?sv) 2) = Some (True, False, False)"
      by code_simp
    then show ?thesis using that by auto
  qed
  ultimately show ?thesis using no_live_request_is_lost [OF refl, of None granting_events 2 g] by blast
qed

text \<open>C20: A request that holds a grant is always let through to its runtime when it asks to start: the
  scheduler has counted the grant, so the answer is never no and the client is never left without a
  response.\<close>

theorem granted_requests_start:
  assumes "sv = run serve_step (new_system cfg) es" "\<not> sv_returned sv"
    and "go_at (sv_go sv) i = Some g" "g_stage g = GoGranted" "g_caller g = Inference"
  shows "go_at (sv_go (serve_step sv (SvStart h i))) i = Some (g\<lparr>g_stage := GoServing\<rparr>)"
proof -
  have I: "in_step sv" using serve_inv_run [of cfg es] assms(1,2) by (simp add: serve_inv_def)
  obtain sv' where "start_serving h i g sv = enter i GoServing sv'" "sv_go sv' = sv_go sv"
    using start_granted [OF I assms(3,4,5,2)] by blast
  then show ?thesis using assms(3) by (simp add: with_go_def enter_def go_at_on_go)
qed

theorem granted_requests_start_witness:
  "map_option g_stage (go_at (sv_go (serve_step (run serve_step (new_system None) granting_events) (SvStart a_ready 1))) 1)
     = Some GoServing"
proof -
  let ?sv = "run serve_step (new_system None) granting_events"
  have "\<not> sv_returned ?sv" by code_simp
  moreover obtain g where "go_at (sv_go ?sv) 1 = Some g" "g_stage g = GoGranted" "g_caller g = Inference"
  proof -
    have "map_option (\<lambda>g. (g_stage g, g_caller g)) (go_at (sv_go ?sv) 1) = Some (GoGranted, Inference)"
      by code_simp
    then show ?thesis using that by auto
  qed
  ultimately show ?thesis using granted_requests_start [OF refl, of None granting_events 1 g a_ready] by simp
qed

end
