(* ===== verification/Url.thy ===== *)
theory Url
  imports Json
begin

text \<open>
  Query strings as \<^verbatim>\<open>net/url\<close> reads and writes them: percent-encoding (\<^verbatim>\<open>QueryUnescape\<close>,
  \<^verbatim>\<open>QueryEscape\<close>), \<^verbatim>\<open>ParseQuery\<close> and \<^verbatim>\<open>Values.Encode\<close>, which the HTTP server uses to take the model
  out of a request and forward the rest. \<open>Values\<close> maps a key to the list of its values; it is kept
  as the list of pairs in the order read, from which the map reads as \<open>values_of\<close>.
\<close>

section \<open>Percent-encoding\<close>

fun query_unescape :: "string \<Rightarrow> string option" where
  "query_unescape [] = Some []"
| "query_unescape (c # cs) =
     (if c = CHR ''%'' then
        (case cs of
           a # b # ds \<Rightarrow>
             (case (hex_digit a, hex_digit b) of
                (Some x, Some y) \<Rightarrow> map_option ((#) (char_of (16 * x + y))) (query_unescape ds)
              | _ \<Rightarrow> None)
         | _ \<Rightarrow> None)
      else map_option ((#) (if c = CHR ''+'' then CHR '' '' else c)) (query_unescape cs))"

definition within :: "char \<Rightarrow> char \<Rightarrow> char \<Rightarrow> bool" where
  "within lo hi c = (lo \<le> c \<and> c \<le> hi)"

definition unreserved :: "char \<Rightarrow> bool" where
  "unreserved c =
     (within (CHR ''a'') (CHR ''z'') c \<or> within (CHR ''A'') (CHR ''Z'') c \<or> is_digit c
      \<or> c \<in> {CHR ''-'', CHR ''_'', CHR ''.'', CHR ''~''})"

definition upper_hex :: "nat \<Rightarrow> char" where
  "upper_hex n = (if n < 10 then char_of (48 + n) else char_of (55 + n))"

definition escape_char :: "char \<Rightarrow> string" where
  "escape_char c =
     (if unreserved c then [c]
      else if c = CHR '' '' then [CHR ''+'']
      else [CHR ''%'', upper_hex (of_char c div 16), upper_hex (of_char c mod 16)])"

definition query_escape :: "string \<Rightarrow> string" where
  "query_escape s = concat (map escape_char s)"

section \<open>Query strings\<close>

fun split_char :: "char \<Rightarrow> string \<Rightarrow> string list" where
  "split_char d [] = [[]]"
| "split_char d (c # cs) =
     (if c = d then [] # split_char d cs
      else (case split_char d cs of [] \<Rightarrow> [[c]] | p # ps \<Rightarrow> (c # p) # ps))"

fun join_char :: "char \<Rightarrow> string list \<Rightarrow> string" where
  "join_char d [] = []"
| "join_char d [p] = p"
| "join_char d (p # q # ps) = p @ d # join_char d (q # ps)"

type_synonym query_values = "(string \<times> string) list"

text \<open>One piece between two ampersands; pieces with a semicolon and with a bad escape are dropped.\<close>

definition parse_pair :: "string \<Rightarrow> (string \<times> string) option" where
  "parse_pair p =
     (if CHR '';'' \<in> set p \<or> p = [] then None
      else case (query_unescape (takeWhile (\<lambda>c. c \<noteq> CHR ''='') p),
                 query_unescape (drop 1 (dropWhile (\<lambda>c. c \<noteq> CHR ''='') p))) of
             (Some k, Some v) \<Rightarrow> Some (k, v)
           | _ \<Rightarrow> None)"

definition parse_query :: "string \<Rightarrow> query_values" where
  "parse_query q = List.map_filter parse_pair (split_char CHR ''&'' q)"

definition values_of :: "query_values \<Rightarrow> string \<Rightarrow> string list" where
  "values_of kvs k = map snd (filter (\<lambda>kv. fst kv = k) kvs)"

definition get_value :: "query_values \<Rightarrow> string \<Rightarrow> string" where
  "get_value kvs k = (case values_of kvs k of [] \<Rightarrow> '''' | v # _ \<Rightarrow> v)"

definition del_key :: "string \<Rightarrow> query_values \<Rightarrow> query_values" where
  "del_key k kvs = filter (\<lambda>kv. fst kv \<noteq> k) kvs"

text \<open>\<open>Encode\<close> goes through the keys in order, and through the values of a key as they were read.\<close>

definition sorted_values :: "query_values \<Rightarrow> query_values" where
  "sorted_values kvs =
     concat (map (\<lambda>k. map (Pair k) (values_of kvs k)) (remdups (sort (map fst kvs))))"

definition encode_values :: "query_values \<Rightarrow> string" where
  "encode_values kvs =
     join_char CHR ''&'' (map (\<lambda>(k, v). query_escape k @ CHR ''='' # query_escape v) (sorted_values kvs))"

section \<open>Reading back what was written\<close>

lemma hex_upper: "n < 16 \<Longrightarrow> hex_digit (upper_hex n) = Some n"
proof -
  have "list_all (\<lambda>n. hex_digit (upper_hex n) = Some n) [0 ..< 16]" by code_simp
  then show "n < 16 \<Longrightarrow> hex_digit (upper_hex n) = Some n" by (simp add: list_all_iff)
qed

lemma upper_hex_plain: "n < 16 \<Longrightarrow> upper_hex n \<notin> {CHR ''&'', CHR ''='', CHR '';''}"
proof -
  have "list_all (\<lambda>n. upper_hex n \<notin> {CHR ''&'', CHR ''='', CHR '';''}) [0 ..< 16]" by code_simp
  then show "n < 16 \<Longrightarrow> upper_hex n \<notin> {CHR ''&'', CHR ''='', CHR '';''}" by (simp add: list_all_iff)
qed

lemma char_nibbles: "of_char c div 16 < (16 :: nat)" "of_char c mod 16 < (16 :: nat)"
    "16 * (of_char c div 16) + of_char c mod 16 = (of_char c :: nat)"
proof -
  show "of_char c div 16 < (16 :: nat)" by (rule less_mult_imp_div_less) simp
qed simp_all

lemma unescape_escape_char: "query_unescape (escape_char c @ cs) = map_option ((#) c) (query_unescape cs)"
proof -
  have "char_of (16 * (of_char c div 16) + of_char c mod 16 :: nat) = c"
    by (simp only: char_nibbles(3)) simp
  moreover have "unreserved c \<Longrightarrow> c \<noteq> CHR ''%'' \<and> c \<noteq> CHR ''+''" by (auto simp: unreserved_def within_def is_digit_def)
  ultimately show ?thesis by (simp add: escape_char_def hex_upper char_nibbles(1,2))
qed

lemma unescape_escape [simp]: "query_unescape (query_escape s) = Some s"
  by (induction s) (simp_all add: query_escape_def unescape_escape_char)

lemma escape_plain: "c \<in> set (query_escape s) \<Longrightarrow> c \<notin> {CHR ''&'', CHR ''='', CHR '';''}"
proof -
  have "unreserved c \<Longrightarrow> c \<notin> {CHR ''&'', CHR ''='', CHR '';''}" for c
    by (auto simp: unreserved_def within_def is_digit_def)
  then show "c \<in> set (query_escape s) \<Longrightarrow> ?thesis"
    using upper_hex_plain [OF char_nibbles(1)] upper_hex_plain [OF char_nibbles(2)]
    by (fastforce simp: query_escape_def escape_char_def split: if_splits)
qed

lemma parse_pair_escaped:
  "parse_pair (query_escape k @ CHR ''='' # query_escape v) = Some (k, v)"
proof -
  have n: "CHR ''='' \<notin> set (query_escape k)" "CHR '';'' \<notin> set (query_escape k @ CHR ''='' # query_escape v)"
    using escape_plain by auto
  then have "takeWhile (\<lambda>c. c \<noteq> CHR ''='') (query_escape k @ CHR ''='' # query_escape v) = query_escape k"
    "dropWhile (\<lambda>c. c \<noteq> CHR ''='') (query_escape k @ CHR ''='' # query_escape v) = CHR ''='' # query_escape v"
    by (auto simp: takeWhile_append dropWhile_append)
  then show ?thesis using n(2) by (simp add: parse_pair_def)
qed

lemma split_char_none: "d \<notin> set p \<Longrightarrow> split_char d p = [p]"
  by (induction p) auto

lemma split_char_append: "d \<notin> set p \<Longrightarrow> split_char d (p @ d # cs) = p # split_char d cs"
  by (induction p) auto

lemma split_join: "\<forall>p \<in> set ps. d \<notin> set p \<Longrightarrow> ps \<noteq> [] \<Longrightarrow> split_char d (join_char d ps) = ps"
  by (induction ps rule: join_char.induct [of _ d]) (auto simp: split_char_none split_char_append)

lemma parse_encoded: "parse_query (encode_values kvs) = sorted_values kvs"
proof (cases "sorted_values kvs = []")
  case True
  then show ?thesis by (simp add: encode_values_def parse_query_def parse_pair_def List.map_filter_def)
next
  case False
  let ?enc = "\<lambda>(k, v). query_escape k @ CHR ''='' # query_escape v"
  have "\<forall>p \<in> set (map ?enc (sorted_values kvs)). CHR ''&'' \<notin> set p"
    using escape_plain by fastforce
  then have "split_char CHR ''&'' (encode_values kvs) = map ?enc (sorted_values kvs)"
    unfolding encode_values_def using False by (intro split_join) auto
  moreover have "List.map_filter parse_pair (map ?enc xs) = xs" for xs
    by (induction xs) (auto simp: List.map_filter_simps parse_pair_escaped)
  ultimately show ?thesis by (simp add: parse_query_def)
qed

lemma values_of_sorted: "values_of (sorted_values kvs) k = values_of kvs k"
proof -
  have one: "values_of (concat (map (\<lambda>k. map (Pair k) (values_of kvs k)) ks)) k
      = (if k \<in> set ks then values_of kvs k else [])" if "distinct ks" for ks
    using that
    by (induction ks) (auto simp: values_of_def filter_map comp_def filter_empty_conv)
  show ?thesis
    unfolding sorted_values_def by (subst one) (auto simp: values_of_def filter_empty_conv)
qed

lemma values_of_del: "values_of (del_key k kvs) j = (if j = k then [] else values_of kvs j)"
  by (auto simp: values_of_def del_key_def filter_empty_conv intro: arg_cong [where f = "map snd"] filter_cong)

end
