(* ===== verification/Proxy.thy ===== *)
theory Proxy
  imports Url Client_Ops Router_Jobs
begin

text \<open>
  The requests and errors of \<^verbatim>\<open>internal/proxy\<close>: \<open>WriteError\<close> (\<^verbatim>\<open>error.go\<close>), and the extraction of the
  model from a request body that is kept for forwarding, \<open>ExtractModelLimited\<close> and \<open>spoolBody\<close>
  (\<^verbatim>\<open>request.go\<close>).
\<close>

section \<open>Requests and replies\<close>

text \<open>A body is the bytes it delivers and the error its last read ends with, if it is not the end.\<close>

type_synonym body = "string \<times> goerr option"

record http_request =
  rq_method :: string
  rq_path :: string
  rq_query :: string
  rq_length :: int
  rq_type :: string
  rq_body :: "body option"

record http_reply =
  rp_status :: int
  rp_headers :: "(string \<times> string) list"
  rp_body :: string

section \<open>Errors\<close>

datatype http_fault =
    ExtractError int string string
  | OtherError goerr

definition ErrNoModel :: http_fault where
  "ErrNoModel = ExtractError 400 ''BAD_REQUEST'' ''model is required''"

definition ErrBodyTooLarge :: http_fault where
  "ErrBodyTooLarge = ExtractError 413 ''BODY_TOO_LARGE'' ''request body too large''"

definition bad_request :: "string \<Rightarrow> http_fault" where
  "bad_request msg = ExtractError 400 ''BAD_REQUEST'' msg"

definition write_error :: "http_fault \<Rightarrow> http_error" where
  "write_error e =
     (let (status, code, msg) =
            (case e of
               ExtractError s c m \<Rightarrow> (s, c, m)
             | OtherError g \<Rightarrow>
                 (case as_sched g of
                    Some se \<Rightarrow> (err_status se, err_code se, err_msg se)
                  | None \<Rightarrow> (502, ''BACKEND'', err_text g)))
      in \<lparr>he_status = status, he_code = code, he_msg = msg, he_retry = (status = 429)\<rparr>)"

text \<open>What is put on the wire; the encoder writes the keys of a map in order and ends with a newline.\<close>

definition json_body :: "json \<Rightarrow> string" where
  "json_body v = json_text v @ [CHR 0x0A]"

definition error_reply :: "http_error \<Rightarrow> http_reply" where
  "error_reply e =
     \<lparr>rp_status = he_status e,
      rp_headers = (if he_retry e then [(''Retry-After'', ''1'')] else [])
                     @ [(''Content-Type'', ''application/json'')],
      rp_body = json_body (JObj [(''code'', JStr (he_code e)), (''error'', JStr (he_msg e)),
                                 (''src'', JStr ''inferswap'')])\<rparr>"

section \<open>Spooling a body\<close>

text \<open>The file operations of the spool: creating the file and the two seeks to its start.\<close>

record spool_io =
  io_create :: "goerr option"
  io_rewind :: "goerr option"
  io_again :: "goerr option"

text \<open>\<^verbatim>\<open>io.LimitReader\<close> ends after \<open>limit + 1\<close> bytes, computed in 64 bits.\<close>

definition spool_body :: "spool_io \<Rightarrow> body \<Rightarrow> int \<Rightarrow> http_fault + string" where
  "spool_body io src maxN =
     (case io_create io of
        Some e \<Rightarrow> Inl (OtherError e)
      | None \<Rightarrow>
          let (bs, err) = src;
              n = signed_take_bit 63 (maxN + 1);
              copied = take (nat n) bs
          in if int (length bs) < n \<and> err \<noteq> None then Inl (OtherError (Wrapped ''read body: '' (the err)))
             else if int (length copied) > maxN then Inl ErrBodyTooLarge
             else Inr copied)"

section \<open>The model of a body\<close>

text \<open>
  \<^verbatim>\<open>json.Decoder\<close> reads the first value of the body into a struct with the one field \<open>model\<close>: members
  are matched without case, the last one wins, \<open>null\<close> leaves the field as it is, and a value of
  another type is an error after the rest was read.
\<close>

definition model_key :: "string \<Rightarrow> bool" where
  "model_key k = (map lower_char k = ''model'')"

fun model_member :: "(string \<times> json) list \<Rightarrow> string \<Rightarrow> string option" where
  "model_member [] v = Some v"
| "model_member ((k, j) # ms) v =
     (if \<not> model_key k then model_member ms v
      else case j of
        JStr s \<Rightarrow> model_member ms s
      | JNull \<Rightarrow> model_member ms v
      | _ \<Rightarrow> None)"

definition json_model :: "string \<Rightarrow> string option" where
  "json_model cs =
     (case parse_value (2 * length cs + 2) cs of
        Some (JObj ms, _) \<Rightarrow> model_member ms ''''
      | Some (JNull, _) \<Rightarrow> Some ''''
      | _ \<Rightarrow> None)"

text \<open>
  \<open>media\<close> is the media type \<^verbatim>\<open>mime.ParseMediaType\<close> finds in a content type; \<open>form\<close> is the value of
  the field \<open>model\<close> that \<^verbatim>\<open>ParseMultipartForm\<close> and \<open>FormValue\<close> find with a limit in a body.
\<close>

definition body_model ::
  "(string \<Rightarrow> string) \<Rightarrow> (string \<Rightarrow> int \<Rightarrow> string \<Rightarrow> goerr + string) \<Rightarrow> int \<Rightarrow> string \<Rightarrow> string \<Rightarrow> http_fault + string" where
  "body_model media form maxN ct bs =
     (if media ct = ''application/json'' \<or> contains ct ''application/json'' then
        (case json_model bs of
           None \<Rightarrow> Inl (bad_request ''invalid JSON'')
         | Some m \<Rightarrow> if m = '''' then Inl ErrNoModel else Inr m)
      else if contains ct ''multipart/form-data'' then
        (case form ct maxN bs of
           Inl _ \<Rightarrow> Inl (bad_request ''invalid multipart body'')
         | Inr m \<Rightarrow> if m = '''' then Inl ErrNoModel else Inr m)
      else Inl ErrNoModel)"

text \<open>The model with the request as it is left; after an error the request is not forwarded.\<close>

definition extract_model_limited ::
  "(string \<Rightarrow> string) \<Rightarrow> (string \<Rightarrow> int \<Rightarrow> string \<Rightarrow> goerr + string) \<Rightarrow> spool_io \<Rightarrow> int \<Rightarrow> http_request
     \<Rightarrow> http_fault + string \<times> http_request" where
  "extract_model_limited media form io maxIn rq =
     (let maxN = max 0 maxIn; q = get_value (parse_query (rq_query rq)) ''model''
      in if q \<noteq> '''' then (if rq_length rq > maxN then Inl ErrBodyTooLarge else Inr (q, rq))
         else case rq_body rq of
           None \<Rightarrow> Inl ErrNoModel
         | Some src \<Rightarrow>
             if rq_length rq > maxN then Inl ErrBodyTooLarge
             else case spool_body io src maxN of
               Inl e \<Rightarrow> Inl e
             | Inr bs \<Rightarrow>
                 (case io_rewind io of
                    Some e \<Rightarrow> Inl (OtherError e)
                  | None \<Rightarrow>
                      (case body_model media form maxN (rq_type rq) bs of
                         Inl e \<Rightarrow> Inl e
                       | Inr m \<Rightarrow>
                           (case io_again io of
                              Some e \<Rightarrow> Inl (OtherError e)
                            | None \<Rightarrow> Inr (m, rq\<lparr>rq_body := Some (bs, None)\<rparr>)))))"

definition max_body_bytes :: int where
  "max_body_bytes = push_bit 20 32"

definition extract_model ::
  "(string \<Rightarrow> string) \<Rightarrow> (string \<Rightarrow> int \<Rightarrow> string \<Rightarrow> goerr + string) \<Rightarrow> spool_io \<Rightarrow> http_request
     \<Rightarrow> http_fault + string \<times> http_request" where
  "extract_model media form io rq = extract_model_limited media form io max_body_bytes rq"

section \<open>What is extracted\<close>

lemma spool_body_ok:
  assumes "spool_body io (bs, err) maxN = Inr cs" "0 \<le> maxN" "maxN < 2 ^ 63 - 1"
  shows "cs = bs \<and> err = None \<and> int (length bs) \<le> maxN"
proof -
  have n: "signed_take_bit 63 (maxN + 1) = maxN + 1"
    using assms(2,3) by (intro signed_take_bit_int_eq_self) simp_all
  then show ?thesis
    using assms by (auto simp: spool_body_def Let_def min_def split: option.splits if_splits)
qed

lemma body_model_ok: "body_model media form maxN ct bs = Inr m \<Longrightarrow> m \<noteq> ''''"
  by (auto simp: body_model_def split: if_splits option.splits sum.splits)

lemma extract_model_ok:
  assumes "extract_model_limited media form io maxN rq = Inr (m, rq')" "maxN < 2 ^ 63 - 1"
  shows "m \<noteq> '''' \<and> rq' = rq \<and> rq_length rq \<le> max 0 maxN
    \<and> (m \<noteq> get_value (parse_query (rq_query rq)) ''model''
        \<longrightarrow> (\<exists>bs. rq_body rq = Some (bs, None) \<and> int (length bs) \<le> max 0 maxN))"
proof (cases "get_value (parse_query (rq_query rq)) ''model'' = ''''")
  case False
  then show ?thesis using assms by (auto simp: extract_model_limited_def Let_def split: if_splits)
next
  case True
  then obtain bs err where b: "rq_body rq = Some (bs, err)" and l: "rq_length rq \<le> max 0 maxN"
    using assms by (cases "rq_body rq") (auto simp: extract_model_limited_def Let_def split: if_splits)
  then obtain cs where s: "spool_body io (bs, err) (max 0 maxN) = Inr cs"
    using assms True by (cases "spool_body io (bs, err) (max 0 maxN)") (auto simp: extract_model_limited_def Let_def split: if_splits)
  have c: "cs = bs" "err = None" "int (length bs) \<le> max 0 maxN"
    using spool_body_ok [OF s] assms(2) by simp_all
  then have "body_model media form (max 0 maxN) (rq_type rq) bs = Inr m" "rq' = rq\<lparr>rq_body := Some (bs, None)\<rparr>"
    using assms(1) True b s l
    by (auto simp: extract_model_limited_def Let_def split: if_splits option.splits sum.splits)
  then show ?thesis using body_model_ok b c l by (auto)
qed

end
