(* ===== verification/Server.thy ===== *)
theory Server
  imports Proxy Serve
begin

text \<open>
  The public HTTP interface, \<^verbatim>\<open>internal/server/server.go\<close>: which handler a request reaches, the
  inference handler, which names the model, limits the body and rewrites the request for the
  runtime, and the list of models. A handler either writes a reply or hands a request to
  \<open>ServeModel\<close>.
\<close>

section \<open>Routes\<close>

datatype route = RouteHealth | RouteModels | RouteInfer | RouteUnsupported

text \<open>
  \<^verbatim>\<open>http.ServeMux\<close> on a clean path (it redirects others): a pattern with the method GET also matches
  HEAD, and what no more specific pattern matches reaches the pattern for all paths.
\<close>

definition route_of :: "string \<Rightarrow> string \<Rightarrow> route" where
  "route_of meth path =
     (if path = ''/health'' \<and> meth \<in> {''GET'', ''HEAD''} then RouteHealth
      else if path = ''/v1/models'' \<and> meth \<in> {''GET'', ''HEAD''} then RouteModels
      else if path = ''/infer'' \<and> meth = ''POST'' then RouteInfer
      else RouteUnsupported)"

definition empty_ok :: http_reply where
  "empty_ok = \<lparr>rp_status = 200, rp_headers = [], rp_body = ''''\<rparr>"

definition handle_health :: http_reply where
  "handle_health = empty_ok"

definition not_found :: "string \<Rightarrow> http_fault" where
  "not_found msg = ExtractError 404 ''NOT_FOUND'' msg"

definition handle_unsupported :: "string \<Rightarrow> http_reply" where
  "handle_unsupported path =
     (if path = ''/health'' \<or> path = ''/v1/models'' then empty_ok
      else error_reply (write_error (not_found ''unsupported path'')))"

section \<open>Inference\<close>

text \<open>\<^verbatim>\<open>http.MaxBytesReader\<close> fails a read that goes beyond the limit.\<close>

definition limit_body :: "http_request \<Rightarrow> int \<Rightarrow> http_fault + http_request" where
  "limit_body rq n =
     (if rq_length rq > n then Inl ErrBodyTooLarge
      else case rq_body rq of
        None \<Rightarrow> Inr rq
      | Some (bs, err) \<Rightarrow>
          if n < 0 then Inr rq
          else if int (length bs) > n then Inl ErrBodyTooLarge
          else (case err of
                  Some e \<Rightarrow> Inl (OtherError e)
                | None \<Rightarrow> Inr (rq\<lparr>rq_body := Some (bs, None), rq_length := int (length bs)\<rparr>)))"

datatype infer_result =
    InferReply http_reply
  | InferServe model_id http_request

definition infer_error :: "http_fault \<Rightarrow> infer_result" where
  "infer_error e = InferReply (error_reply (write_error e))"

text \<open>The model of an id that is missing from the map is the zero value.\<close>

definition infer_limits :: "config \<Rightarrow> model_id \<Rightarrow> int \<times> string" where
  "infer_limits c i =
     (case map_of (c_models c) i of
        None \<Rightarrow> (0, '''')
      | Some m \<Rightarrow> (sint (m_maxBody m), m_inferencePath m))"

definition handle_infer :: "config \<Rightarrow> http_request \<Rightarrow> infer_result" where
  "handle_infer c rq =
     (let q = parse_query (rq_query rq); model = get_value q ''model''
      in if trim_space model = '''' then infer_error ErrNoModel
         else case resolve c model of
           None \<Rightarrow> infer_error (not_found ''model not found'')
         | Some canonical \<Rightarrow>
             let (maxBody, path) = infer_limits c canonical
             in if maxBody > 0 \<and> rq_length rq > maxBody then infer_error ErrBodyTooLarge
                else
                  let rq1 = rq\<lparr>rq_query := encode_values (del_key ''model'' q), rq_path := path\<rparr>
                  in if maxBody > 0
                     then (case limit_body rq1 maxBody of
                             Inl e \<Rightarrow> infer_error e
                           | Inr rq2 \<Rightarrow> InferServe canonical rq2)
                     else InferServe canonical rq1)"

section \<open>The list of models\<close>

text \<open>\<open>None\<close> is a nil error.\<close>

definition error_record :: "last_error option \<Rightarrow> json" where
  "error_record e =
     (case e of
        None \<Rightarrow> JNull
      | Some l \<Rightarrow> JObj [(''code'', JStr (le_code l)), (''message'', JStr (le_message l))])"

text \<open>
  What the handler reads: the local state of a model (\<open>None\<close> without a runtime), its answer to a
  status request, and the text of a time.
\<close>

record models_view =
  mv_state :: "model_id \<Rightarrow> rstate option"
  mv_status :: "model_id \<Rightarrow> goerr + status"
  mv_format :: "gtime \<Rightarrow> string"

definition zero_diag :: model_diag where
  "zero_diag =
     \<lparr>md_reserved = 0, md_state = StateUnknown, md_reason = '''', md_lastError = None, md_known = False,
      md_remoteState = WireOther '''', md_residency = ResidencyOther ''''\<rparr>"

definition diag_of :: "diagnostics \<Rightarrow> model_id \<Rightarrow> model_diag" where
  "diag_of d i = (case map_of (dg_models d) i of None \<Rightarrow> zero_diag | Some md \<Rightarrow> md)"

text \<open>The map of a model's status, as the handler fills it.\<close>

definition status_fields :: "models_view \<Rightarrow> model_diag \<Rightarrow> model_id \<Rightarrow> string \<rightharpoonup> json" where
  "status_fields v md i =
     (let st = [''state'' \<mapsto> JStr ''unknown'', ''ready'' \<mapsto> JNull, ''residency'' \<mapsto> JNull,
                ''reason'' \<mapsto> JStr (md_reason md), ''reserved_bytes'' \<mapsto> JNum (int_text (sint (md_reserved md))),
                ''last_error'' \<mapsto> error_record (md_lastError md)]
      in case mv_state v i of
           None \<Rightarrow> st
         | Some state \<Rightarrow>
             let st1 = st(''state'' \<mapsto> JStr (rstate_text state))
             in if state = StateUnknown then st1(''ready'' \<mapsto> JNull, ''residency'' \<mapsto> JNull)
                else
                  let st2 = st1(''ready'' \<mapsto> JBool (state = StateReady))
                  in case mv_status v i of
                       Inr remote \<Rightarrow>
                         st2(''remote_state'' \<mapsto> JStr (wire_text (wire remote)),
                             ''residency'' \<mapsto> JStr (residency_text (resid remote)),
                             ''last_error'' \<mapsto> error_record (lastError remote))
                     | Inl _ \<Rightarrow>
                         if md_known md then
                           (let st3 = st2(''remote_state'' \<mapsto> JStr (wire_text (md_remoteState md)));
                                st4 = (if residency_text (md_residency md) \<noteq> ''''
                                       then st3(''residency'' \<mapsto> JStr (residency_text (md_residency md))) else st3)
                            in st4(''last_error'' \<mapsto> error_record (md_lastError md)))
                         else st2)"

text \<open>The encoder writes the keys of a map in order.\<close>

definition status_keys_sorted :: "string list" where
  "status_keys_sorted =
     [''last_error'', ''ready'', ''reason'', ''remote_state'', ''reserved_bytes'', ''residency'', ''state'']"

definition status_json :: "(string \<rightharpoonup> json) \<Rightarrow> json" where
  "status_json st = JObj (List.map_filter (\<lambda>k. map_option (Pair k) (st k)) status_keys_sorted)"

definition model_json :: "models_view \<Rightarrow> diagnostics \<Rightarrow> model_id \<times> model \<Rightarrow> json" where
  "model_json v d im =
     JObj ([(''id'', JStr (fst im)), (''object'', JStr ''model''), (''owned_by'', JStr ''inferswap'')]
           @ (if m_name (snd im) = '''' then [] else [(''name'', JStr (m_name (snd im)))])
           @ [(''status'', status_json (status_fields v (diag_of d (fst im)) (fst im)))])"

text \<open>The ids are sorted, and the models of the configuration have different ids.\<close>

definition listed :: "config \<Rightarrow> (model_id \<times> model) list" where
  "listed c = filter (\<lambda>im. \<not> m_unlisted (snd im)) (sort_key fst (c_models c))"

definition models_json :: "models_view \<Rightarrow> diagnostics \<Rightarrow> config \<Rightarrow> json" where
  "models_json v d c =
     JObj [(''data'', JArr (map (model_json v d) (listed c))),
           (''gpu'', JObj [(''free'', JNum (int_text (uint (dg_free d)))), (''fresh'', JBool (dg_fresh d)),
                           (''observed_at'', if is_zero_time (dg_observedAt d) then JNull
                                             else JStr (mv_format v (dg_observedAt d))),
                           (''total'', JNum (int_text (uint (dg_total d))))]),
           (''object'', JStr ''list''), (''queue_depth'', JNum (int_text (int (dg_queue d))))]"

definition handle_models :: "models_view \<Rightarrow> diagnostics \<Rightarrow> config \<Rightarrow> http_reply" where
  "handle_models v d c =
     \<lparr>rp_status = 200, rp_headers = [(''Content-Type'', ''application/json'')], rp_body = json_body (models_json v d c)\<rparr>"

section \<open>A request\<close>

definition handle :: "models_view \<Rightarrow> diagnostics \<Rightarrow> config \<Rightarrow> http_request \<Rightarrow> infer_result" where
  "handle v d c rq =
     (case route_of (rq_method rq) (rq_path rq) of
        RouteHealth \<Rightarrow> InferReply handle_health
      | RouteModels \<Rightarrow> InferReply (handle_models v d c)
      | RouteInfer \<Rightarrow> handle_infer c rq
      | RouteUnsupported \<Rightarrow> InferReply (handle_unsupported (rq_path rq)))"

end
