(* ===== verification/Server_Props.thy ===== *)
theory Server_Props
  imports Server Router_Props
begin

text \<open>
  The properties of the public interface: what an inference request looks like when it is handed to
  the router, the limit on its body, the list of models, and the extraction of a model from a body.
\<close>

section \<open>Requests\<close>

lemma limit_body_ok:
  assumes "limit_body rq n = Inr rq'" "0 \<le> n"
  shows "rq_body rq' = rq_body rq \<and> rq_path rq' = rq_path rq \<and> rq_query rq' = rq_query rq
    \<and> rq_method rq' = rq_method rq \<and> rq_type rq' = rq_type rq \<and> rq_length rq \<le> n
    \<and> (\<forall>bs err. rq_body rq = Some (bs, err) \<longrightarrow> err = None \<and> int (length bs) \<le> n \<and> rq_length rq' = int (length bs))"
  using assms by (auto simp: limit_body_def split: if_splits option.splits)

definition post :: "string \<Rightarrow> string \<Rightarrow> http_request" where
  "post query bs =
     \<lparr>rq_method = ''POST'', rq_path = ''/infer'', rq_query = query, rq_length = int (length bs),
      rq_type = ''application/json'', rq_body = Some (bs, None)\<rparr>"

text \<open>A configuration of two models, one of which takes at most five bytes.\<close>

definition small_config :: config where
  "small_config =
     demo_config\<lparr>c_models := [(''a'', (demo_model ''a'' 60 40)\<lparr>m_maxBody := 5, m_inferencePath := ''/v1/align''\<rparr>),
                              (''b'', demo_model ''b'' 50 70)]\<rparr>"

lemma trim_letter: "trim_space ''a'' = ''a''" "trim_space ''b'' = ''b''"
  by (simp_all add: trim_space_id)

lemma handle_infer_named:
  assumes "get_value (parse_query (rq_query rq)) ''model'' = x" "trim_space x \<noteq> ''''" "resolve c x = Some i"
    and "infer_limits c i = (n, p)" "rq_body rq = Some (bs, None)" "rq_length rq \<le> n" "int (length bs) \<le> n" "0 < n"
  shows "handle_infer c rq = InferServe i
    (rq\<lparr>rq_query := encode_values (del_key ''model'' (parse_query (rq_query rq))), rq_path := p, rq_length := int (length bs)\<rparr>)"
  using assms by (simp add: handle_infer_def limit_body_def Let_def)

text \<open>C22: The request handed to the router for a model is the client's: the method, the content type and
  the body are the same, the path is the one the model is configured with, and every query parameter
  keeps its values in their order, but for the one that named the model, which is gone.\<close>

theorem forwarded_request_is_the_clients:
  assumes "handle_infer c rq = InferServe i rq'"
  shows "resolve c (get_value (parse_query (rq_query rq)) ''model'') = Some i
    \<and> rq_path rq' = snd (infer_limits c i) \<and> rq_method rq' = rq_method rq \<and> rq_type rq' = rq_type rq
    \<and> rq_body rq' = rq_body rq
    \<and> (\<forall>k. values_of (parse_query (rq_query rq')) k
           = (if k = ''model'' then [] else values_of (parse_query (rq_query rq)) k))"
proof -
  let ?q = "parse_query (rq_query rq)"
  have r: "resolve c (get_value ?q ''model'') = Some i"
    using assms by (auto simp: handle_infer_def infer_error_def Let_def split: if_splits option.splits prod.splits sum.splits)
  let ?rq = "rq\<lparr>rq_query := encode_values (del_key ''model'' ?q), rq_path := snd (infer_limits c i)\<rparr>"
  have "rq' = ?rq \<or> (\<exists>n > 0. limit_body ?rq n = Inr rq')"
    using assms r
    by (auto simp: handle_infer_def infer_error_def Let_def split: if_splits option.splits prod.splits sum.splits)
  then have "rq_path rq' = rq_path ?rq \<and> rq_query rq' = rq_query ?rq \<and> rq_method rq' = rq_method ?rq
      \<and> rq_type rq' = rq_type ?rq \<and> rq_body rq' = rq_body ?rq"
    using limit_body_ok by force
  then show ?thesis using r by (simp add: parse_encoded values_of_sorted values_of_del)
qed

theorem forwarded_request_is_the_clients_witness:
  "(\<exists>rq'. handle_infer small_config (post ''lang=ko&model=a&n=1&n=a%26b'' ''[1]'') = InferServe ''a'' rq'
      \<and> rq_path rq' = ''/v1/align'' \<and> values_of (parse_query (rq_query rq')) ''n'' = [''1'', ''a&b''])"
proof -
  let ?rq = "post ''lang=ko&model=a&n=1&n=a%26b'' ''[1]''"
  have "get_value (parse_query (rq_query ?rq)) ''model'' = ''a''" "resolve small_config ''a'' = Some ''a''"
    "infer_limits small_config ''a'' = (5, ''/v1/align'')" by code_simp+
  then obtain rq' where h: "handle_infer small_config ?rq = InferServe ''a'' rq'"
    using handle_infer_named [of ?rq "''a''" small_config "''a''" 5 "''/v1/align''" "''[1]''"] by (simp add: trim_letter post_def)
  have "snd (infer_limits small_config ''a'') = ''/v1/align''"
    "values_of (parse_query (rq_query ?rq)) ''n'' = [''1'', ''a&b'']" by code_simp+
  then show ?thesis using forwarded_request_is_the_clients [OF h] h by auto
qed

text \<open>C27: For a model with a limit on the body, a request whose body can be read is handed to the router
  exactly when its announced length and its real length are within the limit, and is answered 413
  otherwise; the router gets the real length.\<close>

theorem body_limit_is_exact:
  assumes "trim_space (get_value (parse_query (rq_query rq)) ''model'') \<noteq> ''''"
    and "resolve c (get_value (parse_query (rq_query rq)) ''model'') = Some i"
    and "fst (infer_limits c i) = n" "0 < n" "rq_body rq = Some (bs, None)"
  shows "(if rq_length rq \<le> n \<and> int (length bs) \<le> n
          then \<exists>rq'. handle_infer c rq = InferServe i rq' \<and> rq_length rq' = int (length bs)
          else handle_infer c rq = infer_error ErrBodyTooLarge)"
  using assms by (cases "infer_limits c i") (auto simp: handle_infer_def Let_def limit_body_def)

theorem body_limit_is_exact_witness:
  "handle_infer small_config (post ''model=a'' ''[1, 2]'') = infer_error ErrBodyTooLarge"
proof -
  let ?rq = "post ''model=a'' ''[1, 2]''"
  have "get_value (parse_query (rq_query ?rq)) ''model'' = ''a''" by code_simp
  then have t: "trim_space (get_value (parse_query (rq_query ?rq)) ''model'') \<noteq> ''''" by (simp add: trim_letter)
  have h: "resolve small_config (get_value (parse_query (rq_query ?rq)) ''model'') = Some ''a''"
    "fst (infer_limits small_config ''a'') = 5" "rq_body ?rq = Some (''[1, 2]'', None)"
    by code_simp+
  show ?thesis using body_limit_is_exact [OF t h(1,2) _ h(3)] by (simp add: post_def)
qed

section \<open>The list of models\<close>

lemma int_text_valid: "valid_number (int_text i)"
proof (cases "i < 0")
  case True
  obtain c cs where c: "nat_text (nat (- i)) = c # cs"
    using nat_text_digits(1) by (cases "nat_text (nat (- i))") auto
  then have "c \<noteq> CHR ''-''" using nat_text_digits(2) [of "nat (- i)"] by (auto simp: is_digit_def)
  then show ?thesis
    using parse_nat_text [of "nat (- i)"] True c
    by (auto simp: valid_number int_text_def parse_number_def split: option.splits prod.splits)
next
  case False
  then show ?thesis by (simp add: valid_number int_text_def parse_nat_text)
qed

lemma status_values:
  "status_fields v md i k = Some j \<Longrightarrow> numbers_ok j"
  by (auto simp: status_fields_def error_record_def Let_def int_text_valid
      split: option.splits if_splits sum.splits)

lemma models_numbers: "numbers_ok (models_json v d c)"
proof -
  have "numbers_ok (status_json (status_fields v md i))" for md i
    by (auto simp: status_json_def List.map_filter_def dest: status_values)
  then show ?thesis by (auto simp: models_json_def model_json_def int_text_valid)
qed

text \<open>C31: The reply of the list of models is a JSON document that reads back as the list: one entry for each
  model that is not unlisted, in the order of the ids. An entry says ready exactly when the local
  state of its runtime is ready, and names a residency only if the runtime reported it, now or in
  the last status the router knows, and the local state is known.\<close>

theorem models_list_is_true:
  assumes "distinct (map fst (c_models c))"
  shows "json_parse (rp_body (handle_models v d c)) = Some (models_json v d c)
    \<and> sorted (map fst (listed c)) \<and> distinct (map fst (listed c))
    \<and> set (listed c) = {im \<in> set (c_models c). \<not> m_unlisted (snd im)}
    \<and> (\<forall>i md. (status_fields v md i ''ready'' = Some (JBool True)) = (mv_state v i = Some StateReady))
    \<and> (\<forall>i md s. status_fields v md i ''residency'' = Some (JStr s) \<longrightarrow>
         mv_state v i \<noteq> None \<and> mv_state v i \<noteq> Some StateUnknown
         \<and> ((\<exists>st. mv_status v i = Inr st \<and> s = residency_text (resid st))
            \<or> md_known md \<and> s = residency_text (md_residency md)))"
proof (intro conjI allI impI)
  show "json_parse (rp_body (handle_models v d c)) = Some (models_json v d c)"
    unfolding handle_models_def http_reply.simps json_body_def
    by (rule parse_text [OF models_numbers]) (simp add: json_space_def)
  have d: "distinct (map fst (sort_key fst (c_models c)))" using assms by (simp add: distinct_map)
  show "sorted (map fst (listed c))" by (simp add: listed_def sorted_filter)
  show "distinct (map fst (listed c))" using d by (simp add: listed_def distinct_map_filter)
  show "set (listed c) = {im \<in> set (c_models c). \<not> m_unlisted (snd im)}" by (auto simp: listed_def)
next
  fix i md show "(status_fields v md i ''ready'' = Some (JBool True)) = (mv_state v i = Some StateReady)"
    by (cases "mv_state v i"; cases "mv_status v i") (simp_all add: status_fields_def Let_def)
next
  fix i md s assume r: "status_fields v md i ''residency'' = Some (JStr s)"
  then show "mv_state v i \<noteq> None" "mv_state v i \<noteq> Some StateUnknown"
    "(\<exists>st. mv_status v i = Inr st \<and> s = residency_text (resid st)) \<or> md_known md \<and> s = residency_text (md_residency md)"
    by (cases "mv_state v i"; cases "mv_status v i"; simp add: status_fields_def Let_def split: if_splits)+
qed

definition demo_models_view :: models_view where
  "demo_models_view =
     \<lparr>mv_state = [''a'' \<mapsto> StateReady, ''b'' \<mapsto> StateStopped],
      mv_status = (\<lambda>i. if i = ''a'' then Inr \<lparr>wire = WireReady, resid = ResidencyResident, activeRequests = 0, lastError = None\<rparr>
                       else Inl (Plain ''connection refused'')),
      mv_format = (\<lambda>_. ''2026-10-01T00:00:00Z'')\<rparr>"

definition demo_diagnostics :: diagnostics where
  "demo_diagnostics =
     \<lparr>dg_queue = 0, dg_observedAt = 0, dg_fresh = False, dg_total = 100, dg_free = 40, dg_models = []\<rparr>"

theorem models_list_is_true_witness:
  "json_parse (rp_body (handle_models demo_models_view demo_diagnostics small_config))
     = Some (models_json demo_models_view demo_diagnostics small_config)
   \<and> map fst (listed small_config) = [''a'', ''b'']"
proof
  have "distinct (map fst (c_models small_config))" by code_simp
  then show "json_parse (rp_body (handle_models demo_models_view demo_diagnostics small_config))
     = Some (models_json demo_models_view demo_diagnostics small_config)"
    using models_list_is_true by blast
  show "map fst (listed small_config) = [''a'', ''b'']" by code_simp
qed

section \<open>Bodies that name the model\<close>

text \<open>A request whose model was extracted can be forwarded as it came: its body is the same, it was read
  to its end without an error and is within the limit when it named the model, and so is the
  announced length; the model is not empty.\<close>

theorem extracted_request_is_intact:
  assumes "extract_model_limited media form io maxN rq = Inr (m, rq')" "maxN < 2 ^ 63 - 1"
  shows "m \<noteq> '''' \<and> rq' = rq \<and> rq_length rq \<le> max 0 maxN
    \<and> (m \<noteq> get_value (parse_query (rq_query rq)) ''model''
        \<longrightarrow> (\<exists>bs. rq_body rq = Some (bs, None) \<and> int (length bs) \<le> max 0 maxN))"
  by (rule extract_model_ok [OF assms])

definition json_post :: http_request where
  "json_post = post ''n=1'' (json_text (JObj [(''Model'', JStr ''b''), (''stream'', JBool True)]))"

definition no_io :: spool_io where
  "no_io = \<lparr>io_create = None, io_rewind = None, io_again = None\<rparr>"

definition plain_media :: "string \<Rightarrow> string" where
  "plain_media ct = takeWhile (\<lambda>c. c \<noteq> CHR '';'') ct"

definition no_form :: "string \<Rightarrow> int \<Rightarrow> string \<Rightarrow> goerr + string" where
  "no_form ct maxN bs = Inl (Plain ''no multipart boundary param in Content-Type'')"

theorem extracted_request_is_intact_witness:
  "extract_model_limited plain_media no_form no_io 1000 json_post = Inr (''b'', json_post)
   \<and> (\<exists>bs. rq_body json_post = Some (bs, None) \<and> int (length bs) \<le> 1000)"
proof -
  have e: "case extract_model_limited plain_media no_form no_io 1000 json_post of Inr (m, _) \<Rightarrow> m = ''b'' | _ \<Rightarrow> False"
    by code_simp
  then obtain rq' where h: "extract_model_limited plain_media no_form no_io 1000 json_post = Inr (''b'', rq')"
    by (cases "extract_model_limited plain_media no_form no_io 1000 json_post") auto
  have "get_value (parse_query (rq_query json_post)) ''model'' = ''''" by code_simp
  then show ?thesis using extracted_request_is_intact [OF h] h by auto
qed

section \<open>Where the documentation says otherwise\<close>

text \<open>A path of a public route with another method is answered 200 with an empty body.\<close>

theorem other_methods_are_answered:
  "handle v d c \<lparr>rq_method = ''POST'', rq_path = ''/health'', rq_query = '''', rq_length = 0, rq_type = '''', rq_body = None\<rparr>
     = InferReply empty_ok"
  by (simp add: handle_def route_of_def handle_unsupported_def)

text \<open>The query string is written anew: the keys are sorted, and a pair with a semicolon is gone.\<close>

theorem query_is_rewritten:
  "\<exists>rq. handle_infer small_config (post ''model=b&z=1&a=2&x=3;y=4'' ''[1]'') = InferServe ''b'' rq \<and> rq_query rq = ''a=2&z=1''"
proof -
  let ?rq = "post ''model=b&z=1&a=2&x=3;y=4'' ''[1]''"
  have "get_value (parse_query (rq_query ?rq)) ''model'' = ''b''" "resolve small_config ''b'' = Some ''b''"
    "infer_limits small_config ''b'' = (1000, ''/v1/chat/completions'')"
    "encode_values (del_key ''model'' (parse_query (rq_query ?rq))) = ''a=2&z=1''" by code_simp+
  then show ?thesis
    using handle_infer_named [of ?rq "''b''" small_config "''b''" 1000 "''/v1/chat/completions''" "''[1]''"] by (simp add: trim_letter post_def)
qed

end
