(* ===== verification/Testkit.thy ===== *)
theory Testkit
  imports Prelude
begin

text \<open>
  \<^verbatim>\<open>internal/testkit\<close>: the barrier and the clock that the tests of the program and the mock runtime
  control. A blocking operation is a function from the state it finds to the results it can return
  with; the empty set says that it goes on waiting.
\<close>

section \<open>Barrier\<close>

record barrier =
  bar_started :: bool
  bar_release :: bool

definition new_barrier :: barrier where
  "new_barrier = \<lparr>bar_started = False, bar_release = False\<rparr>"

text \<open>\<open>None\<close> is the nil barrier, at which nothing waits. A select with two ready branches takes either.\<close>

datatype wait_result = WaitNil | WaitContext

definition select_done :: "bool \<Rightarrow> bool \<Rightarrow> wait_result set" where
  "select_done closed ctx = (if closed then {WaitNil} else {}) \<union> (if ctx then {WaitContext} else {})"

text \<open>\<open>Hit\<close> first records its arrival, then waits for the release.\<close>

definition hit_barrier :: "barrier option \<Rightarrow> barrier option" where
  "hit_barrier b = map_option (bar_started_update (\<lambda>_. True)) b"

definition hit_returns :: "barrier option \<Rightarrow> bool \<Rightarrow> wait_result set" where
  "hit_returns b ctx = (case b of None \<Rightarrow> {WaitNil} | Some x \<Rightarrow> select_done (bar_release x) ctx)"

definition wait_started :: "barrier option \<Rightarrow> bool \<Rightarrow> wait_result set" where
  "wait_started b ctx = (case b of None \<Rightarrow> {WaitNil} | Some x \<Rightarrow> select_done (bar_started x) ctx)"

definition release_barrier :: "barrier option \<Rightarrow> barrier option" where
  "release_barrier b = map_option (bar_release_update (\<lambda>_. True)) b"

definition barrier_started :: "barrier option \<Rightarrow> bool" where
  "barrier_started b = (case b of None \<Rightarrow> False | Some x \<Rightarrow> bar_started x)"

datatype barrier_event = BarHit | BarRelease

fun barrier_step :: "barrier option \<Rightarrow> barrier_event \<Rightarrow> barrier option" where
  "barrier_step b BarHit = hit_barrier b"
| "barrier_step b BarRelease = release_barrier b"

text \<open>What was closed stays closed: the order of the hits and releases does not matter.\<close>

lemma barrier_run:
  "run barrier_step (Some b) es =
     Some \<lparr>bar_started = (bar_started b \<or> BarHit \<in> set es), bar_release = (bar_release b \<or> BarRelease \<in> set es)\<rparr>"
proof (induction es arbitrary: b)
  case (Cons e es)
  then show ?case by (cases e) (auto simp: hit_barrier_def release_barrier_def)
qed simp

text \<open>\<open>Hit\<close> returns without an error exactly when a release was made, before or after it.\<close>

lemma hit_waits_for_release:
  "hit_returns (run barrier_step (Some new_barrier) es) ctx
     = (if BarRelease \<in> set es then {WaitNil} else {}) \<union> (if ctx then {WaitContext} else {})"
  "wait_started (run barrier_step (Some new_barrier) es) ctx
     = (if BarHit \<in> set es then {WaitNil} else {}) \<union> (if ctx then {WaitContext} else {})"
  by (simp_all add: barrier_run hit_returns_def wait_started_def select_done_def new_barrier_def)

section \<open>Clock\<close>

text \<open>
  A channel of \<open>After\<close> is named by the number of its call. \<open>fc_sent\<close> is what was sent, in order: each
  channel has a buffer of one, so a first send never blocks. A timer is kept until it fires.
\<close>

record fake_clock =
  fc_now :: gtime
  fc_timers :: "(gtime \<times> nat) list"
  fc_next :: nat
  fc_sent :: "(nat \<times> gtime) list"

text \<open>2026-01-01 00:00 UTC is 739616 days after the zero time.\<close>

definition new_fake_clock :: "gtime \<Rightarrow> fake_clock" where
  "new_fake_clock t =
     \<lparr>fc_now = (if is_zero_time t then 739616 * 86400 * second else t), fc_timers = [], fc_next = 0, fc_sent = []\<rparr>"

datatype clock_event = ClkAfter gdur | ClkAdvance gdur

definition clock_after :: "gdur \<Rightarrow> fake_clock \<Rightarrow> fake_clock" where
  "clock_after d c =
     (let c1 = c\<lparr>fc_next := fc_next c + 1\<rparr>
      in if d \<le> 0 then c1\<lparr>fc_sent := fc_sent c @ [(fc_next c, fc_now c)]\<rparr>
         else c1\<lparr>fc_timers := fc_timers c @ [(fc_now c + d, fc_next c)]\<rparr>)"

definition clock_advance :: "gdur \<Rightarrow> fake_clock \<Rightarrow> fake_clock" where
  "clock_advance d c =
     (let now = fc_now c + d;
          due = filter (\<lambda>t. \<not> fst t > now) (fc_timers c)
      in c\<lparr>fc_now := now, fc_timers := filter (\<lambda>t. fst t > now) (fc_timers c),
           fc_sent := fc_sent c @ map (\<lambda>t. (snd t, now)) due\<rparr>)"

fun clock_step :: "fake_clock \<Rightarrow> clock_event \<Rightarrow> fake_clock" where
  "clock_step c (ClkAfter d) = clock_after d c"
| "clock_step c (ClkAdvance d) = clock_advance d c"

definition received :: "nat \<Rightarrow> fake_clock \<Rightarrow> gtime list" where
  "received i c = map snd (filter (\<lambda>p. fst p = i) (fc_sent c))"

text \<open>The times the clock shows after each event.\<close>

fun readings :: "fake_clock \<Rightarrow> clock_event list \<Rightarrow> gtime list" where
  "readings c [] = []"
| "readings c (e # es) = fc_now (clock_step c e) # readings (clock_step c e) es"

definition clock_ok :: "fake_clock \<Rightarrow> bool" where
  "clock_ok c =
     (distinct (map snd (fc_timers c)) \<and> (\<forall>t \<in> set (fc_timers c). snd t < fc_next c \<and> fc_now c < fst t)
      \<and> (\<forall>p \<in> set (fc_sent c). fst p < fc_next c))"

lemma clock_ok_start: "clock_ok (new_fake_clock t)"
  by (simp add: clock_ok_def new_fake_clock_def)

lemma clock_ok_step: "clock_ok c \<Longrightarrow> clock_ok (clock_step c e)"
  by (cases e) (auto simp: clock_ok_def clock_after_def clock_advance_def Let_def distinct_map inj_on_def)

interpretation clock_machine: machine clock_step "\<lambda>_ _. True" clock_ok
  by unfold_locales (rule clock_ok_step)

text \<open>A timer that waits with deadline \<open>t\<close> gets the first reading that reaches it, and nothing more.\<close>

definition first_reaching :: "gtime \<Rightarrow> gtime list \<Rightarrow> gtime list" where
  "first_reaching t rs = take 1 (filter (\<lambda>r. t \<le> r) rs)"

lemma first_reaching_simps [simp]:
  "first_reaching t [] = []"
  "first_reaching t (r # rs) = (if t \<le> r then [r] else first_reaching t rs)"
  by (simp_all add: first_reaching_def)

lemma received_none: "\<forall>p \<in> set xs. fst p \<noteq> i \<Longrightarrow> filter (\<lambda>p. fst p = i) xs = []"
  by (induction xs) auto

text \<open>A channel that was sent to, or that has no timer, gets nothing more.\<close>

lemma spent_step:
  assumes "clock_ok c" "i < fc_next c" "i \<notin> snd ` set (fc_timers c)"
  shows "i < fc_next (clock_step c e) \<and> i \<notin> snd ` set (fc_timers (clock_step c e))
    \<and> received i (clock_step c e) = received i c"
  using assms
  by (cases e) (auto simp: clock_after_def clock_advance_def received_def Let_def image_iff intro!: received_none)

lemma spent_run:
  "clock_ok c \<Longrightarrow> i < fc_next c \<Longrightarrow> i \<notin> snd ` set (fc_timers c) \<Longrightarrow> received i (run clock_step c es) = received i c"
proof (induction es arbitrary: c)
  case (Cons e es)
  then show ?case using spent_step [of c i e] clock_ok_step [of c e] by simp
qed simp

lemma only_one:
  assumes "distinct (map snd ts)" "(t, i) \<in> set ts" "P (t, i)"
  shows "filter (\<lambda>p. fst p = i) (map (\<lambda>t. (snd t, n)) (filter P ts)) = [(i, n)]"
  using assms
proof (induction ts)
  case (Cons x ts)
  show ?case
  proof (cases "x = (t, i)")
    case True
    then have "\<forall>p \<in> set (map (\<lambda>t. (snd t, n)) (filter P ts)). fst p \<noteq> i" using Cons.prems by force
    then show ?thesis using True Cons.prems by (simp add: received_none)
  next
    case False
    then have "i \<in> snd ` set ts" using Cons.prems(2) by (force simp: image_iff)
    then have "snd x \<noteq> i" using Cons.prems(1) by auto
    then show ?thesis using False Cons by (auto simp: o_def)
  qed
qed simp

lemma waiting_step:
  assumes "clock_ok c" "(t, i) \<in> set (fc_timers c)"
  shows "i < fc_next (clock_step c e)
    \<and> (if t \<le> fc_now (clock_step c e)
       then i \<notin> snd ` set (fc_timers (clock_step c e))
         \<and> received i (clock_step c e) = received i c @ [fc_now (clock_step c e)]
       else (t, i) \<in> set (fc_timers (clock_step c e)) \<and> received i (clock_step c e) = received i c)"
proof (cases e)
  case (ClkAfter d)
  have "i < fc_next c" "fc_now c < t" using assms by (auto simp: clock_ok_def)
  then show ?thesis using assms ClkAfter by (auto simp: clock_after_def received_def Let_def)
next
  case (ClkAdvance d)
  let ?n = "fc_now c + d"
  have i: "i < fc_next c" and dist: "distinct (map snd (fc_timers c))" using assms by (auto simp: clock_ok_def)
  then have u: "\<forall>x \<in> set (fc_timers c). snd x = i \<longrightarrow> x = (t, i)"
    using assms(2) by (auto simp: distinct_map inj_on_def)
  show ?thesis
  proof (cases "t \<le> ?n")
    case True
    then show ?thesis
      using i u only_one [OF dist assms(2), of "\<lambda>t. \<not> fst t > ?n" ?n] ClkAdvance
      by (force simp: clock_advance_def received_def Let_def)
  next
    case False
    have "\<forall>p \<in> set (map (\<lambda>t. (snd t, ?n)) (filter (\<lambda>t. \<not> fst t > ?n) (fc_timers c))). fst p \<noteq> i"
      using u False by auto
    then show ?thesis
      using i False assms(2) ClkAdvance by (simp add: clock_advance_def received_def Let_def received_none)
  qed
qed

lemma waiting_run:
  "clock_ok c \<Longrightarrow> (t, i) \<in> set (fc_timers c) \<Longrightarrow>
     received i (run clock_step c es) = received i c @ first_reaching t (readings c es)"
proof (induction es arbitrary: c)
  case (Cons e es)
  note w = waiting_step [OF Cons.prems, of e]
  have ok: "clock_ok (clock_step c e)" using Cons.prems(1) by (rule clock_ok_step)
  show ?case
  proof (cases "t \<le> fc_now (clock_step c e)")
    case True
    then show ?thesis using w spent_run [OF ok] by simp
  next
    case False
    then show ?thesis using w Cons.IH [OF ok] by simp
  qed
qed simp

text \<open>The channel a call of After returns gets exactly one time: the present one when the
  duration d is not positive, else the first reading of the clock, after some later step, that is d or more beyond
  the present one; until then it gets nothing.\<close>

theorem timers_fire_once:
  "(let c = run clock_step (new_fake_clock t) ds
    in received (fc_next c) (run clock_step c (ClkAfter d # es))
       = (if d \<le> 0 then [fc_now c] else first_reaching (fc_now c + d) (readings (clock_step c (ClkAfter d)) es)))"
proof -
  define c where "c = run clock_step (new_fake_clock t) ds"
  have ok: "clock_ok c" unfolding c_def
    by (rule clock_machine.inv_run [OF clock_ok_start]) simp
  have ok': "clock_ok (clock_step c (ClkAfter d))" using ok by (rule clock_ok_step)
  have none: "received (fc_next c) c = []"
    using ok by (auto simp: received_def clock_ok_def intro!: received_none)
  have "received (fc_next c) (run clock_step c (ClkAfter d # es))
    = (if d \<le> 0 then [fc_now c] else first_reaching (fc_now c + d) (readings (clock_step c (ClkAfter d)) es))"
  proof (cases "d \<le> 0")
    case True
    have "fc_next c \<notin> snd ` set (fc_timers c)" using ok by (auto simp: clock_ok_def)
    then show ?thesis
      using True none spent_run [OF ok', of "fc_next c" es]
      by (simp add: clock_after_def received_def Let_def)
  next
    case False
    then show ?thesis
      using none waiting_run [OF ok', of "fc_now c + d" "fc_next c" es]
      by (simp add: clock_after_def received_def Let_def)
  qed
  then show ?thesis by (simp add: c_def Let_def)
qed

end
