(* ===== verification/Mock.thy ===== *)
theory Mock
  imports Testkit Client_Ops
begin

text \<open>
  The mock runtime, \<^verbatim>\<open>internal/runtime/mock\<close>: a process that holds one model, with the control
  endpoints for load, unload and status, the inference endpoints, and an endpoint for the prepare
  command. Its handlers block on loads, unloads and gates, so each request is a goroutine with a
  stage; a load or an unload runs as a job of its own. A step is what one goroutine does while it
  holds the lock, or the end of one of its waits.
\<close>

section \<open>Settings and state\<close>

datatype status_mode =
    StatusNormal | StatusMalformed | StatusTransportError | StatusUnreliable | StatusNullActive
  | StatusNegativeActive | StatusReadyNotResident | StatusMissingActive

datatype load_fail = LoadOK | LoadFailNotResident | LoadFailUnknown

datatype gate = PrepareGate | LoadGate | UnloadGate | InferGate | BackendGate

record counts =
  PrepareStarts :: nat
  PrepareEnds :: nat
  LoadStarts :: nat
  LoadEnds :: nat
  UnloadStarts :: nat
  UnloadEnds :: nat
  InferStarts :: nat
  InferEnds :: nat
  StatusGets :: nat

text \<open>The goroutines \<open>runLoad\<close> and \<open>runUnload\<close>, with the failure they were started with.\<close>

datatype job = LoadJob load_fail | UnloadJob bool

type_synonym mock_reply = "int \<times> string"

text \<open>
  Where the handler of a request is blocked: in the select on the held status, on the channel of a
  load or an unload, at the gate of a prepare (which found the endpoint up or not, and is to fail or
  not), at the gate of the inferences, at the backend. A stray inference is the goroutine
  \<open>finishInference\<close> that outlives its handler. A request that ended was answered, or its connection
  was closed.
\<close>

datatype mock_stage =
    CallStatus status_mode status nat
  | CallLoad nat
  | CallUnload nat
  | CallPrepare bool bool
  | CallInfer bool
  | CallBackend
  | CallStray
  | CallEnded "mock_reply option"

record mock_call =
  mc_stage :: mock_stage
  mc_gone :: bool

text \<open>
  A channel of a load or an unload is the number of its job, closed when the job has ended. A channel
  of a held status is a number too, closed when it is no longer the current one.
\<close>

record mock =
  mk_name :: string
  mk_alive :: bool
  mk_prepareFail :: bool
  mk_loadFail :: load_fail
  mk_unloadFail :: bool
  mk_persist :: bool
  mk_mode :: status_mode
  mk_gates :: "gate \<Rightarrow> barrier option"
  mk_state :: wire_state
  mk_residency :: residency
  mk_active :: int
  mk_error :: "last_error option"
  mk_counts :: counts
  mk_load :: "nat option"
  mk_unload :: "nat option"
  mk_hold :: "nat option"
  mk_holds :: nat
  mk_lastPath :: string
  mk_lastBody :: string
  mk_lastType :: string
  mk_jobs :: "(job \<times> bool) list"
  mk_calls :: "mock_call list"

definition no_counts :: counts where
  "no_counts =
     \<lparr>PrepareStarts = 0, PrepareEnds = 0, LoadStarts = 0, LoadEnds = 0, UnloadStarts = 0,
      UnloadEnds = 0, InferStarts = 0, InferEnds = 0, StatusGets = 0\<rparr>"

section \<open>Creation\<close>

datatype mock_option =
    WithEndpointDown | WithGate gate | WithPrepareFailure | WithLoadFailure | WithLoadFailureUnknown
  | WithUnloadFailure | WithPersistInference | WithInitialLoading

fun set_option :: "mock_option \<Rightarrow> mock \<Rightarrow> mock" where
  "set_option WithEndpointDown m = m\<lparr>mk_alive := False\<rparr>"
| "set_option (WithGate g) m = m\<lparr>mk_gates := (mk_gates m)(g := Some new_barrier)\<rparr>"
| "set_option WithPrepareFailure m = m\<lparr>mk_prepareFail := True\<rparr>"
| "set_option WithLoadFailure m = m\<lparr>mk_loadFail := LoadFailNotResident\<rparr>"
| "set_option WithLoadFailureUnknown m = m\<lparr>mk_loadFail := LoadFailUnknown\<rparr>"
| "set_option WithUnloadFailure m = m\<lparr>mk_unloadFail := True\<rparr>"
| "set_option WithPersistInference m = m\<lparr>mk_persist := True\<rparr>"
| "set_option WithInitialLoading m = m\<lparr>mk_state := WireLoading, mk_residency := ResidencyUnknown\<rparr>"

definition new_mock :: "string \<Rightarrow> mock_option list \<Rightarrow> mock" where
  "new_mock name opts = fold set_option opts
     \<lparr>mk_name = name, mk_alive = True, mk_prepareFail = False, mk_loadFail = LoadOK,
      mk_unloadFail = False, mk_persist = False, mk_mode = StatusNormal, mk_gates = (\<lambda>_. None),
      mk_state = WireUnloaded, mk_residency = ResidencyNotResident, mk_active = 0, mk_error = None,
      mk_counts = no_counts, mk_load = None, mk_unload = None, mk_hold = None, mk_holds = 0,
      mk_lastPath = '''', mk_lastBody = '''', mk_lastType = '''', mk_jobs = [], mk_calls = []\<rparr>"

section \<open>Helpers\<close>

definition status_locked :: "mock \<Rightarrow> status" where
  "status_locked m =
     \<lparr>wire = mk_state m, resid = mk_residency m, activeRequests = mk_active m, lastError = mk_error m\<rparr>"

definition busy_locked :: "mock \<Rightarrow> bool" where
  "busy_locked m = (mk_active m > 0)"

definition add_active :: "int \<Rightarrow> mock \<Rightarrow> mock" where
  "add_active d m = m\<lparr>mk_active := max 0 (mk_active m + d)\<rparr>"

definition become :: "wire_state \<Rightarrow> residency \<Rightarrow> last_error option \<Rightarrow> mock \<Rightarrow> mock" where
  "become st r e m = m\<lparr>mk_state := st, mk_residency := r, mk_error := e\<rparr>"

definition cleared :: "mock \<Rightarrow> mock" where
  "cleared m = m\<lparr>mk_active := 0\<rparr>"

definition tick :: "(counts \<Rightarrow> counts) \<Rightarrow> mock \<Rightarrow> mock" where
  "tick f m = m\<lparr>mk_counts := f (mk_counts m)\<rparr>"

definition lasterr :: "string \<Rightarrow> string \<Rightarrow> last_error option" where
  "lasterr code msg = Some \<lparr>le_code = code, le_message = msg\<rparr>"

definition json_reply :: "int \<Rightarrow> json \<Rightarrow> mock_reply" where
  "json_reply code v = (code, json_text v @ [CHR 0x0A])"

definition status_reply :: "status \<Rightarrow> mock_reply" where
  "status_reply st = (200, encode_status st)"

definition control_reply :: "int \<Rightarrow> string \<Rightarrow> string \<Rightarrow> mock_reply" where
  "control_reply code msg c = (code, encode_control_error msg c)"

text \<open>A new request that waits in a stage, or is answered at once.\<close>

definition add_call :: "mock_stage \<Rightarrow> mock \<Rightarrow> mock" where
  "add_call st m = m\<lparr>mk_calls := mk_calls m @ [\<lparr>mc_stage = st, mc_gone = False\<rparr>]\<rparr>"

definition answer :: "mock_reply \<Rightarrow> mock \<Rightarrow> mock" where
  "answer r m = add_call (CallEnded (Some r)) m"

definition set_stage :: "nat \<Rightarrow> mock_stage \<Rightarrow> mock \<Rightarrow> mock" where
  "set_stage i st m = m\<lparr>mk_calls := (mk_calls m)[i := (mk_calls m ! i)\<lparr>mc_stage := st\<rparr>]\<rparr>"

definition reach :: "gate \<Rightarrow> mock \<Rightarrow> mock" where
  "reach g m = m\<lparr>mk_gates := (mk_gates m)(g := hit_barrier (mk_gates m g))\<rparr>"

definition passes :: "gate \<Rightarrow> mock \<Rightarrow> bool" where
  "passes g m = (WaitNil \<in> hit_returns (mk_gates m g) False)"

section \<open>Requests\<close>

text \<open>\<open>mq_fault\<close> is the text with which the JSON decoder would reject the body.\<close>

record mock_request =
  mq_method :: string
  mq_path :: string
  mq_uri :: string
  mq_type :: string
  mq_body :: string
  mq_readErr :: "goerr option"
  mq_fault :: string

definition decode_empty_object :: "mock_request \<Rightarrow> string option" where
  "decode_empty_object rq =
     (case mq_readErr rq of
        Some e \<Rightarrow> Some (err_text e)
      | None \<Rightarrow>
          let body = trim_space (mq_body rq)
          in if body = '''' then None
             else case json_parse body of
               Some JNull \<Rightarrow> None
             | Some (JObj ms) \<Rightarrow> if ms = [] then None else Some ''request body must be {}''
             | _ \<Rightarrow> Some (mq_fault rq))"

text \<open>The encoder writes the keys of a map in order.\<close>

definition status_doc :: "json option \<Rightarrow> string \<Rightarrow> string \<Rightarrow> json" where
  "status_doc active residency state =
     JObj ((case active of None \<Rightarrow> [] | Some a \<Rightarrow> [(''active_requests'', a)])
           @ [(''last_error'', JNull), (''residency'', JStr residency), (''state'', JStr state)])"

definition mode_reply :: "status_mode \<Rightarrow> status \<Rightarrow> mock_reply" where
  "mode_reply mode st =
     (case mode of
        StatusMalformed \<Rightarrow> (200, ''{'' @ json_string ''state'' @ '':'')
      | StatusUnreliable \<Rightarrow> control_reply 500 ''status unavailable'' ''STATUS_FAILED''
      | StatusNullActive \<Rightarrow> json_reply 200 (status_doc (Some JNull) ''not_resident'' ''unloaded'')
      | StatusNegativeActive \<Rightarrow> json_reply 200 (status_doc (Some (JNum ''-1'')) ''resident'' ''ready'')
      | StatusMissingActive \<Rightarrow> json_reply 200 (status_doc None ''not_resident'' ''unloaded'')
      | StatusReadyNotResident \<Rightarrow> json_reply 200 (status_doc (Some (JNum ''0'')) ''not_resident'' ''ready'')
      | _ \<Rightarrow> status_reply st)"

definition handle_status :: "mock_request \<Rightarrow> mock \<Rightarrow> mock" where
  "handle_status rq m =
     (if mq_method rq \<noteq> ''GET'' then answer (control_reply 405 ''GET required'' ''BAD_REQUEST'') m
      else
        let m1 = tick (StatusGets_update Suc) m
        in case mk_hold m1 of
             Some h \<Rightarrow> add_call (CallStatus (mk_mode m1) (status_locked m1) h) m1
           | None \<Rightarrow> answer (mode_reply (mk_mode m1) (status_locked m1)) m1)"

definition begin_load :: "mock \<Rightarrow> mock" where
  "begin_load m =
     (let n = length (mk_jobs m);
          m1 = tick (LoadStarts_update Suc) m
      in add_call (CallLoad n)
           (m1\<lparr>mk_state := WireLoading, mk_residency := ResidencyUnknown, mk_load := Some n,
              mk_jobs := mk_jobs m1 @ [(LoadJob (mk_loadFail m1), False)]\<rparr>))"

definition handle_load :: "mock_request \<Rightarrow> mock \<Rightarrow> mock" where
  "handle_load rq m =
     (if mq_method rq \<noteq> ''POST'' then answer (control_reply 405 ''POST required'' ''BAD_REQUEST'') m
      else case decode_empty_object rq of
        Some e \<Rightarrow> answer (control_reply 400 e ''BAD_REQUEST'') m
      | None \<Rightarrow>
          if mk_state m = WireReady then answer (status_reply (status_locked m)) m
          else if mk_state m = WireUnloading
            then answer (control_reply 409 ''unload in progress'' ''LIFECYCLE_CONFLICT'') m
          else if mk_state m = WireFailed \<and> mk_residency m \<noteq> ResidencyNotResident
            then answer (control_reply 409 ''residency not clear'' ''LIFECYCLE_CONFLICT'') m
          else case mk_load m of
            Some n \<Rightarrow> add_call (CallLoad n) m
          | None \<Rightarrow> begin_load m)"

definition begin_unload :: "mock \<Rightarrow> mock" where
  "begin_unload m =
     (let n = length (mk_jobs m);
          m1 = tick (UnloadStarts_update Suc) m
      in add_call (CallUnload n)
           (m1\<lparr>mk_state := WireUnloading, mk_unload := Some n,
              mk_jobs := mk_jobs m1 @ [(UnloadJob (mk_unloadFail m1), False)]\<rparr>))"

definition handle_unload :: "mock_request \<Rightarrow> mock \<Rightarrow> mock" where
  "handle_unload rq m =
     (if mq_method rq \<noteq> ''POST'' then answer (control_reply 405 ''POST required'' ''BAD_REQUEST'') m
      else case decode_empty_object rq of
        Some e \<Rightarrow> answer (control_reply 400 e ''BAD_REQUEST'') m
      | None \<Rightarrow>
          if mk_state m = WireLoading
            then answer (control_reply 409 ''load in progress'' ''LIFECYCLE_CONFLICT'') m
          else if busy_locked m
            then answer (control_reply 409 ''runtime has active inference requests'' ''BUSY'') m
          else if mk_state m = WireUnloaded \<and> mk_residency m = ResidencyNotResident
            then answer (status_reply (status_locked m)) m
          else if mk_state m = WireFailed \<and> mk_residency m = ResidencyNotResident then
            (let m1 = cleared (become WireUnloaded ResidencyNotResident None m)
             in answer (status_reply (status_locked m1)) m1)
          else case mk_unload m of
            Some n \<Rightarrow> add_call (CallUnload n) m
          | None \<Rightarrow> begin_unload m)"

definition handle_inference :: "mock_request \<Rightarrow> mock \<Rightarrow> mock" where
  "handle_inference rq m =
     (if \<not> prefix ''/v1/'' (mq_path rq) \<and> mq_path rq \<noteq> ''/align''
        then answer (404, ''404 page not found'' @ [CHR 0x0A]) m
      else
        let m1 = m\<lparr>mk_lastPath := mq_uri rq, mk_lastBody := mq_body rq, mk_lastType := mq_type rq\<rparr>
        in if mk_state m1 \<noteq> WireReady \<or> mk_residency m1 \<noteq> ResidencyResident
           then answer (control_reply 503 ''not ready'' ''NOT_READY'') m1
           else add_call (CallInfer (mk_persist m1)) (add_active 1 (tick (InferStarts_update Suc) m1)))"

text \<open>\<open>handlePrepare\<close> and the first part of \<open>Prepare\<close>.\<close>

definition handle_prepare :: "mock_request \<Rightarrow> mock \<Rightarrow> mock" where
  "handle_prepare rq m =
     (if mq_method rq \<noteq> ''POST'' then answer (control_reply 405 ''POST required'' ''BAD_REQUEST'') m
      else add_call (CallPrepare (mk_alive m) (mk_prepareFail m)) (tick (PrepareStarts_update Suc) m))"

text \<open>
  The public mux, on a path it does not redirect (\<^verbatim>\<open>/v1\<close> is, to \<^verbatim>\<open>/v1/\<close>), behind \<open>wrapPublic\<close>,
  which closes the connection while the endpoint is down.
\<close>

definition public :: "mock_request \<Rightarrow> mock \<Rightarrow> mock" where
  "public rq m =
     (if \<not> mk_alive m \<or> mk_mode m = StatusTransportError then add_call (CallEnded None) m
      else if mq_path rq = ''/control/load'' then handle_load rq m
      else if mq_path rq = ''/control/unload'' then handle_unload rq m
      else if mq_path rq = ''/control/status'' then handle_status rq m
      else handle_inference rq m)"

section \<open>Jobs\<close>

definition end_load :: "load_fail \<Rightarrow> mock \<Rightarrow> mock" where
  "end_load fail m =
     (let m1 = (tick (LoadEnds_update Suc) m)\<lparr>mk_load := None\<rparr>
      in case fail of
           LoadFailNotResident \<Rightarrow>
             cleared (become WireFailed ResidencyNotResident (lasterr ''LOAD_FAILED'' ''load failed'') m1)
         | LoadFailUnknown \<Rightarrow>
             cleared (become WireFailed ResidencyUnknown
               (lasterr ''LOAD_FAILED'' ''load failed after partial GPU allocation'') m1)
         | LoadOK \<Rightarrow> become WireReady ResidencyResident None m1)"

definition end_unload :: "bool \<Rightarrow> mock \<Rightarrow> mock" where
  "end_unload fail m =
     (let m1 = (tick (UnloadEnds_update Suc) m)\<lparr>mk_unload := None\<rparr>
      in if busy_locked m1
         then become WireReady ResidencyResident (lasterr ''BUSY'' ''runtime has active inference requests'') m1
         else if fail
         then become WireFailed ResidencyResident (lasterr ''UNLOAD_FAILED'' ''failed to release model'') m1
         else cleared (become WireUnloaded ResidencyNotResident None m1))"

text \<open>A job goes to its gate and, when it may pass, does its work and closes its channel.\<close>

definition job_gate :: "job \<Rightarrow> gate" where
  "job_gate j = (case j of LoadJob _ \<Rightarrow> LoadGate | UnloadJob _ \<Rightarrow> UnloadGate)"

definition end_job :: "job \<Rightarrow> mock \<Rightarrow> mock" where
  "end_job j m = (case j of LoadJob fail \<Rightarrow> end_load fail m | UnloadJob fail \<Rightarrow> end_unload fail m)"

definition running :: "nat \<Rightarrow> mock \<Rightarrow> bool" where
  "running n m = (n < length (mk_jobs m) \<and> \<not> snd (mk_jobs m ! n))"

definition run_job :: "nat \<Rightarrow> mock \<Rightarrow> mock" where
  "run_job n m =
     (if \<not> running n m then m
      else
        let j = fst (mk_jobs m ! n); m1 = reach (job_gate j) m
        in if passes (job_gate j) m1 then (end_job j m1)\<lparr>mk_jobs := (mk_jobs m1)[n := (j, True)]\<rparr> else m1)"

section \<open>The waits of the handlers\<close>

definition finish_inference :: "mock \<Rightarrow> mock" where
  "finish_inference m = tick (InferEnds_update Suc) (add_active (- 1) m)"

definition finish_prepare :: "bool \<Rightarrow> bool \<Rightarrow> mock \<Rightarrow> mock_reply \<times> mock" where
  "finish_prepare already fail m =
     (let m1 = tick (PrepareEnds_update Suc) m
      in if fail then (control_reply 500 ''prepare failed'' ''PREPARE_FAILED'', m1)
         else (json_reply 200 (JObj [(''ok'', JBool True)]),
               if already then m1
               else cleared (become WireUnloaded ResidencyNotResident None (m1\<lparr>mk_alive := True\<rparr>))))"

definition load_reply :: "mock \<Rightarrow> mock_reply" where
  "load_reply m =
     (if mk_state m = WireFailed then control_reply 500 ''load failed'' ''LOAD_FAILED''
      else status_reply (status_locked m))"

definition unload_reply :: "mock \<Rightarrow> mock_reply" where
  "unload_reply m =
     (if (case mk_error m of Some e \<Rightarrow> le_code e = ''BUSY'' | None \<Rightarrow> False)
        then control_reply 409 ''runtime has active inference requests'' ''BUSY''
      else if mk_state m = WireFailed then control_reply 500 ''unload failed'' ''UNLOAD_FAILED''
      else status_reply (status_locked m))"

definition infer_reply :: "mock \<Rightarrow> mock_reply" where
  "infer_reply m =
     json_reply 200
       (JObj [(''choices'', JArr [JObj [(''index'', JNum ''0''),
                (''message'', JObj [(''content'', JStr (mk_name m)), (''role'', JStr ''assistant'')])]]),
              (''id'', JStr ''mock''), (''object'', JStr ''chat.completion'')])"

definition reply_to :: "nat \<Rightarrow> mock_reply \<Rightarrow> mock \<Rightarrow> mock" where
  "reply_to i r m = set_stage i (CallEnded (Some r)) m"

definition infer_ends :: "nat \<Rightarrow> mock \<Rightarrow> mock" where
  "infer_ends i m = (let m1 = finish_inference m in reply_to i (infer_reply m1) m1)"

text \<open>The step of request \<open>i\<close> from its stage, when what it waits for has happened.\<close>

definition advance :: "nat \<Rightarrow> bool \<Rightarrow> mock_stage \<Rightarrow> mock \<Rightarrow> mock" where
  "advance i gone st m =
     (case st of
        CallStatus mode captured h \<Rightarrow> if mk_hold m = Some h then m else reply_to i (mode_reply mode captured) m
      | CallLoad n \<Rightarrow> if running n m then m else reply_to i (load_reply m) m
      | CallUnload n \<Rightarrow> if running n m then m else reply_to i (unload_reply m) m
      | CallPrepare already fail \<Rightarrow>
          (let m1 = (if already then m else reach PrepareGate m)
           in if already \<or> passes PrepareGate m1
              then (let (r, m2) = finish_prepare already fail m1 in reply_to i r m2) else m1)
      | CallInfer persist \<Rightarrow>
          (let m1 = reach InferGate m
           in if \<not> passes InferGate m1 then m1
              else if persist \<and> gone then set_stage i CallStray m1
              else if persist \<and> mk_gates m1 BackendGate \<noteq> None then set_stage i CallBackend m1
              else infer_ends i m1)
      | CallBackend \<Rightarrow>
          (let m1 = reach BackendGate m in if passes BackendGate m1 then infer_ends i m1 else m1)
      | CallStray \<Rightarrow>
          (let m1 = reach BackendGate m
           in if passes BackendGate m1 then set_stage i (CallEnded None) (finish_inference m1) else m1)
      | CallEnded _ \<Rightarrow> m)"

text \<open>The branch on the context of the request.\<close>

definition cancel :: "nat \<Rightarrow> mock_stage \<Rightarrow> mock \<Rightarrow> mock" where
  "cancel i st m =
     (case st of
        CallStatus _ _ _ \<Rightarrow> set_stage i (CallEnded None) m
      | CallLoad _ \<Rightarrow> set_stage i (CallEnded None) m
      | CallUnload _ \<Rightarrow> set_stage i (CallEnded None) m
      | CallPrepare already _ \<Rightarrow>
          if already \<or> mk_gates m PrepareGate = None then m
          else reply_to i (control_reply 500 ''context canceled'' ''PREPARE_FAILED'') (reach PrepareGate m)
      | CallBackend \<Rightarrow> set_stage i CallStray (reach BackendGate m)
      | _ \<Rightarrow> m)"

section \<open>The controls of a test\<close>

datatype mock_hook =
    SetStatusMode status_mode | SetLoadFailure bool | SetLoadFailureMode load_fail | SetUnloadFailure bool
  | SetPrepareFailure bool | SetEndpointAlive bool | ForceReady | ForceUnloaded | ForceFailed residency
  | SetWire wire_state residency int | HoldStatus | ReleaseStatus | ReleaseGate gate

definition injected :: "last_error option" where
  "injected = lasterr ''LOAD_FAILED'' ''injected''"

fun apply_hook :: "mock_hook \<Rightarrow> mock \<Rightarrow> mock" where
  "apply_hook (SetStatusMode mode) m = m\<lparr>mk_mode := mode\<rparr>"
| "apply_hook (SetLoadFailure b) m = m\<lparr>mk_loadFail := (if b then LoadFailNotResident else LoadOK)\<rparr>"
| "apply_hook (SetLoadFailureMode f) m = m\<lparr>mk_loadFail := f\<rparr>"
| "apply_hook (SetUnloadFailure b) m = m\<lparr>mk_unloadFail := b\<rparr>"
| "apply_hook (SetPrepareFailure b) m = m\<lparr>mk_prepareFail := b\<rparr>"
| "apply_hook (SetEndpointAlive b) m = m\<lparr>mk_alive := b\<rparr>"
| "apply_hook ForceReady m = cleared (become WireReady ResidencyResident None m)"
| "apply_hook ForceUnloaded m = cleared (become WireUnloaded ResidencyNotResident None m)"
| "apply_hook (ForceFailed r) m = cleared (become WireFailed r injected m)"
| "apply_hook (SetWire st r a) m =
     (become st r (if st \<noteq> WireFailed then None else if mk_error m = None then injected else mk_error m)
       m)\<lparr>mk_active := a\<rparr>"
| "apply_hook HoldStatus m =
     (if mk_hold m = None then m\<lparr>mk_hold := Some (mk_holds m), mk_holds := mk_holds m + 1\<rparr> else m)"
| "apply_hook ReleaseStatus m = m\<lparr>mk_hold := None\<rparr>"
| "apply_hook (ReleaseGate g) m = m\<lparr>mk_gates := (mk_gates m)(g := release_barrier (mk_gates m g))\<rparr>"

section \<open>Steps\<close>

datatype mock_event =
    MkPublic mock_request
  | MkAdmin mock_request
  | MkJob nat
  | MkAdvance nat
  | MkGone nat
  | MkCancel nat
  | MkHook mock_hook

fun mock_step :: "mock \<Rightarrow> mock_event \<Rightarrow> mock" where
  "mock_step m (MkPublic rq) = public rq m"
| "mock_step m (MkAdmin rq) =
     (if mq_path rq = ''/prepare'' then handle_prepare rq m
      else answer (404, ''404 page not found'' @ [CHR 0x0A]) m)"
| "mock_step m (MkJob n) = run_job n m"
| "mock_step m (MkAdvance i) =
     (if i < length (mk_calls m) then advance i (mc_gone (mk_calls m ! i)) (mc_stage (mk_calls m ! i)) m else m)"
| "mock_step m (MkGone i) =
     (if i < length (mk_calls m)
      then m\<lparr>mk_calls := (mk_calls m)[i := (mk_calls m ! i)\<lparr>mc_gone := True\<rparr>]\<rparr> else m)"
| "mock_step m (MkCancel i) =
     (if i < length (mk_calls m) \<and> mc_gone (mk_calls m ! i) then cancel i (mc_stage (mk_calls m ! i)) m else m)"
| "mock_step m (MkHook hk) = apply_hook hk m"

end
