(* ===== verification/Mock_Inv.thy ===== *)
theory Mock_Inv
  imports Mock Client_Inv
begin

text \<open>
  The mock runtime's invariants: the status it holds is one the control contract allows, what it
  replies is the truth of some moment, jobs and counters agree.
\<close>

lemmas mock_parts = add_active_def become_def cleared_def tick_def add_call_def answer_def set_stage_def
  reach_def reply_to_def finish_inference_def

section \<open>The status is valid\<close>

definition status_ok :: "status \<Rightarrow> bool" where
  "status_ok st =
     (validate_status st = None \<and> 0 \<le> activeRequests st \<and> (\<forall>l. lastError st = Some l \<longrightarrow> le_code l \<noteq> ''''))"

lemma status_ok_iff:
  "status_ok st =
     (wire st \<in> {WireUnloaded, WireLoading, WireReady, WireUnloading, WireFailed}
      \<and> resid st \<in> {ResidencyResident, ResidencyNotResident, ResidencyUnknown}
      \<and> (wire st = WireReady \<longrightarrow> resid st = ResidencyResident)
      \<and> (wire st = WireUnloaded \<longrightarrow> resid st = ResidencyNotResident \<and> activeRequests st = 0)
      \<and> 0 \<le> activeRequests st \<and> (\<forall>l. lastError st = Some l \<longrightarrow> le_code l \<noteq> ''''))"
  by (auto simp: status_ok_def validate_status_ok)

text \<open>What a test sets is a status a runtime may have.\<close>

definition hook_ok :: "mock_event \<Rightarrow> bool" where
  "hook_ok e =
     (case e of
        MkHook (SetWire st r a) \<Rightarrow>
          status_ok \<lparr>wire = st, resid = r, activeRequests = a, lastError = None\<rparr>
      | MkHook (ForceFailed r) \<Rightarrow> r \<in> {ResidencyResident, ResidencyNotResident, ResidencyUnknown}
      | _ \<Rightarrow> True)"

lemma snapshot_frame [simp]:
  "status_locked (add_call c m) = status_locked m" "status_locked (answer r m) = status_locked m"
  "status_locked (set_stage i st m) = status_locked m" "status_locked (reply_to i r m) = status_locked m"
  "status_locked (reach g m) = status_locked m" "status_locked (tick f m) = status_locked m"
  "status_locked (m\<lparr>mk_alive := a\<rparr>) = status_locked m" "status_locked (m\<lparr>mk_load := l\<rparr>) = status_locked m"
  "status_locked (m\<lparr>mk_unload := l\<rparr>) = status_locked m" "status_locked (m\<lparr>mk_jobs := js\<rparr>) = status_locked m"
  "status_locked (m\<lparr>mk_calls := cs\<rparr>) = status_locked m" "status_locked (m\<lparr>mk_gates := gs\<rparr>) = status_locked m"
  "status_locked (m\<lparr>mk_mode := md\<rparr>) = status_locked m" "status_locked (m\<lparr>mk_hold := hh\<rparr>) = status_locked m"
  "status_locked (m\<lparr>mk_holds := n\<rparr>) = status_locked m" "status_locked (m\<lparr>mk_loadFail := lf\<rparr>) = status_locked m"
  "status_locked (m\<lparr>mk_unloadFail := b\<rparr>) = status_locked m" "status_locked (m\<lparr>mk_prepareFail := b\<rparr>) = status_locked m"
  "status_locked (m\<lparr>mk_persist := b\<rparr>) = status_locked m" "status_locked (m\<lparr>mk_lastPath := x\<rparr>) = status_locked m"
  "status_locked (m\<lparr>mk_lastBody := x\<rparr>) = status_locked m" "status_locked (m\<lparr>mk_lastType := x\<rparr>) = status_locked m"
  by (simp_all add: status_locked_def mock_parts)

lemma snapshot_change [simp]:
  "status_locked (become st r e m) = (status_locked m)\<lparr>wire := st, resid := r, lastError := e\<rparr>"
  "status_locked (cleared m) = (status_locked m)\<lparr>activeRequests := 0\<rparr>"
  "status_locked (add_active d m) = (status_locked m)\<lparr>activeRequests := max 0 (mk_active m + d)\<rparr>"
  "status_locked (m\<lparr>mk_state := st\<rparr>) = (status_locked m)\<lparr>wire := st\<rparr>"
  "status_locked (m\<lparr>mk_residency := r\<rparr>) = (status_locked m)\<lparr>resid := r\<rparr>"
  "status_locked (m\<lparr>mk_active := a\<rparr>) = (status_locked m)\<lparr>activeRequests := a\<rparr>"
  by (simp_all add: status_locked_def mock_parts)

lemma snapshot_fields [simp]:
  "wire (status_locked m) = mk_state m" "resid (status_locked m) = mk_residency m"
  "activeRequests (status_locked m) = mk_active m" "lastError (status_locked m) = mk_error m"
  by (simp_all add: status_locked_def)

text \<open>What the helpers leave of each field.\<close>

lemma field_frame [simp]:
  "mk_state (tick f m) = mk_state m" "mk_residency (tick f m) = mk_residency m"
  "mk_active (tick f m) = mk_active m" "mk_error (tick f m) = mk_error m"
  "mk_calls (tick f m) = mk_calls m" "mk_jobs (tick f m) = mk_jobs m" "mk_load (tick f m) = mk_load m"
  "mk_unload (tick f m) = mk_unload m" "mk_counts (tick f m) = f (mk_counts m)"
  "mk_alive (tick f m) = mk_alive m" "mk_gates (tick f m) = mk_gates m"
  "mk_state (reach g m) = mk_state m" "mk_residency (reach g m) = mk_residency m"
  "mk_active (reach g m) = mk_active m" "mk_error (reach g m) = mk_error m"
  "mk_calls (reach g m) = mk_calls m" "mk_jobs (reach g m) = mk_jobs m" "mk_load (reach g m) = mk_load m"
  "mk_unload (reach g m) = mk_unload m" "mk_counts (reach g m) = mk_counts m"
  "mk_alive (reach g m) = mk_alive m"
  "mk_gates (reach g m) = (mk_gates m)(g := hit_barrier (mk_gates m g))"
  "mk_state (add_active d m) = mk_state m" "mk_residency (add_active d m) = mk_residency m"
  "mk_active (add_active d m) = max 0 (mk_active m + d)" "mk_error (add_active d m) = mk_error m"
  "mk_calls (add_active d m) = mk_calls m" "mk_jobs (add_active d m) = mk_jobs m"
  "mk_load (add_active d m) = mk_load m" "mk_unload (add_active d m) = mk_unload m"
  "mk_counts (add_active d m) = mk_counts m" "mk_alive (add_active d m) = mk_alive m"
  "mk_gates (add_active d m) = mk_gates m"
  "mk_state (cleared m) = mk_state m" "mk_residency (cleared m) = mk_residency m"
  "mk_active (cleared m) = 0" "mk_error (cleared m) = mk_error m" "mk_calls (cleared m) = mk_calls m"
  "mk_jobs (cleared m) = mk_jobs m" "mk_load (cleared m) = mk_load m"
  "mk_unload (cleared m) = mk_unload m" "mk_counts (cleared m) = mk_counts m"
  "mk_alive (cleared m) = mk_alive m" "mk_gates (cleared m) = mk_gates m"
  "mk_state (become w rs e m) = w" "mk_residency (become w rs e m) = rs"
  "mk_active (become w rs e m) = mk_active m" "mk_error (become w rs e m) = e"
  "mk_calls (become w rs e m) = mk_calls m" "mk_jobs (become w rs e m) = mk_jobs m"
  "mk_load (become w rs e m) = mk_load m" "mk_unload (become w rs e m) = mk_unload m"
  "mk_counts (become w rs e m) = mk_counts m" "mk_alive (become w rs e m) = mk_alive m"
  "mk_gates (become w rs e m) = mk_gates m"
  "mk_state (add_call c m) = mk_state m" "mk_residency (add_call c m) = mk_residency m"
  "mk_active (add_call c m) = mk_active m" "mk_error (add_call c m) = mk_error m"
  "mk_calls (add_call c m) = mk_calls m @ [\<lparr>mc_stage = c, mc_gone = False\<rparr>]"
  "mk_jobs (add_call c m) = mk_jobs m" "mk_load (add_call c m) = mk_load m"
  "mk_unload (add_call c m) = mk_unload m" "mk_counts (add_call c m) = mk_counts m"
  "mk_alive (add_call c m) = mk_alive m" "mk_gates (add_call c m) = mk_gates m"
  "mk_state (answer r m) = mk_state m" "mk_residency (answer r m) = mk_residency m"
  "mk_active (answer r m) = mk_active m" "mk_error (answer r m) = mk_error m"
  "mk_calls (answer r m) = mk_calls m @ [\<lparr>mc_stage = CallEnded (Some r), mc_gone = False\<rparr>]"
  "mk_jobs (answer r m) = mk_jobs m" "mk_load (answer r m) = mk_load m"
  "mk_unload (answer r m) = mk_unload m" "mk_counts (answer r m) = mk_counts m"
  "mk_alive (answer r m) = mk_alive m" "mk_gates (answer r m) = mk_gates m"
  "mk_state (set_stage i st m) = mk_state m" "mk_residency (set_stage i st m) = mk_residency m"
  "mk_active (set_stage i st m) = mk_active m" "mk_error (set_stage i st m) = mk_error m"
  "mk_calls (set_stage i st m) = (mk_calls m)[i := (mk_calls m ! i)\<lparr>mc_stage := st\<rparr>]"
  "mk_jobs (set_stage i st m) = mk_jobs m" "mk_load (set_stage i st m) = mk_load m"
  "mk_unload (set_stage i st m) = mk_unload m" "mk_counts (set_stage i st m) = mk_counts m"
  "mk_alive (set_stage i st m) = mk_alive m" "mk_gates (set_stage i st m) = mk_gates m"
  "mk_state (reply_to i r m) = mk_state m" "mk_residency (reply_to i r m) = mk_residency m"
  "mk_active (reply_to i r m) = mk_active m" "mk_error (reply_to i r m) = mk_error m"
  "mk_calls (reply_to i r m) = (mk_calls m)[i := (mk_calls m ! i)\<lparr>mc_stage := CallEnded (Some r)\<rparr>]"
  "mk_jobs (reply_to i r m) = mk_jobs m" "mk_load (reply_to i r m) = mk_load m"
  "mk_unload (reply_to i r m) = mk_unload m" "mk_counts (reply_to i r m) = mk_counts m"
  "mk_alive (reply_to i r m) = mk_alive m" "mk_gates (reply_to i r m) = mk_gates m"
  by (simp_all add: mock_parts)

lemma ok_option:
  "status_ok (status_locked m) \<Longrightarrow> mk_active m = 0 \<Longrightarrow>
     status_ok (status_locked (set_option x m)) \<and> mk_active (set_option x m) = 0"
  by (cases x) (simp_all add: status_ok_iff)

lemma ok_options:
  "status_ok (status_locked m) \<Longrightarrow> mk_active m = 0 \<Longrightarrow> status_ok (status_locked (fold set_option opts m))"
  by (induction opts arbitrary: m) (simp_all add: ok_option)

lemma ok_new: "status_ok (status_locked (new_mock name opts))"
  unfolding new_mock_def by (rule ok_options) (simp_all add: status_ok_iff)

lemma ok_load: "status_ok (status_locked m) \<Longrightarrow> status_ok (status_locked (handle_load rq m))"
  by (auto simp: handle_load_def begin_load_def Let_def status_ok_iff split: option.split)

lemma ok_unload: "status_ok (status_locked m) \<Longrightarrow> status_ok (status_locked (handle_unload rq m))"
  by (auto simp: handle_unload_def begin_unload_def Let_def status_ok_iff busy_locked_def split: option.split)

lemma ok_status: "status_locked (handle_status rq m) = status_locked m"
  by (simp add: handle_status_def Let_def split: option.split)

lemma ok_inference: "status_ok (status_locked m) \<Longrightarrow> status_ok (status_locked (handle_inference rq m))"
  by (auto simp: handle_inference_def Let_def status_ok_iff)

lemma ok_public: "status_ok (status_locked m) \<Longrightarrow> status_ok (status_locked (public rq m))"
  by (simp add: public_def ok_load ok_unload ok_status ok_inference)

lemma ok_job: "status_ok (status_locked m) \<Longrightarrow> status_ok (status_locked (run_job n m))"
  by (auto simp: run_job_def end_job_def end_load_def end_unload_def Let_def status_ok_iff lasterr_def busy_locked_def
      split: job.split load_fail.split)

lemma ok_finish: "status_ok (status_locked m) \<Longrightarrow> status_ok (status_locked (finish_inference m))"
  by (auto simp: finish_inference_def status_ok_iff)

lemma ok_prepare: "status_ok (status_locked m) \<Longrightarrow> status_ok (status_locked (snd (finish_prepare already fail m)))"
  by (simp add: finish_prepare_def Let_def status_ok_iff)

lemma ok_advance: "status_ok (status_locked m) \<Longrightarrow> status_ok (status_locked (advance i g st m))"
  using ok_prepare [of "reach PrepareGate m"] ok_prepare [of m]
  by (simp add: advance_def infer_ends_def Let_def ok_finish split_beta split: mock_stage.split)

lemma ok_cancel: "status_locked (cancel i st m) = status_locked m"
  by (simp add: cancel_def split: mock_stage.split)

lemma ok_hook: "status_ok (status_locked m) \<Longrightarrow> hook_ok (MkHook hk) \<Longrightarrow> status_ok (status_locked (apply_hook hk m))"
  by (cases hk) (simp_all add: status_ok_iff hook_ok_def injected_def lasterr_def)

lemma ok_step: "status_ok (status_locked m) \<Longrightarrow> hook_ok e \<Longrightarrow> status_ok (status_locked (mock_step m e))"
  by (cases e) (simp_all add: handle_prepare_def ok_public ok_job ok_advance ok_cancel ok_hook)

interpretation mock_status: machine mock_step "\<lambda>_. hook_ok" "\<lambda>m. status_ok (status_locked m)"
  by unfold_locales (rule ok_step)

section \<open>Jobs, inferences and counters\<close>

text \<open>The inferences the runtime works on.\<close>

fun inferring :: "mock_stage \<Rightarrow> bool" where
  "inferring (CallInfer _) = True"
| "inferring CallBackend = True"
| "inferring CallStray = True"
| "inferring _ = False"

definition in_flight :: "mock \<Rightarrow> nat" where
  "in_flight m = length (filter (\<lambda>c. inferring (mc_stage c)) (mk_calls m))"

lemma in_flight_cong: "mk_calls m' = mk_calls m \<Longrightarrow> in_flight m' = in_flight m"
  by (simp add: in_flight_def)

lemma in_flight_add [simp]:
  "in_flight (add_call st m) = in_flight m + (if inferring st then 1 else 0)"
  "in_flight (answer r m) = in_flight m"
  by (simp_all add: in_flight_def)

lemma filter_length_update:
  "i < length xs \<Longrightarrow>
     length (filter P (xs[i := x])) + (if P (xs ! i) then 1 else 0) = length (filter P xs) + (if P x then 1 else 0)"
proof (induction xs arbitrary: i)
  case (Cons y ys)
  then show ?case by (cases i) auto
qed simp

lemma in_flight_stage:
  assumes "i < length (mk_calls m)"
  shows "in_flight (set_stage i st m) + (if inferring (mc_stage (mk_calls m ! i)) then 1 else 0)
    = in_flight m + (if inferring st then 1 else 0)"
  using filter_length_update [OF assms, of "\<lambda>c. inferring (mc_stage c)" "(mk_calls m ! i)\<lparr>mc_stage := st\<rparr>"]
  by (simp add: in_flight_def)

fun loading_job :: "job \<Rightarrow> bool" where
  "loading_job (LoadJob _) = True"
| "loading_job (UnloadJob _) = False"

text \<open>A channel is set exactly while its job runs, so there is one job of a kind at most.\<close>

definition jobs_ok :: "mock \<Rightarrow> bool" where
  "jobs_ok m =
     (\<forall>n. (mk_load m = Some n) = (running n m \<and> loading_job (fst (mk_jobs m ! n)))
        \<and> (mk_unload m = Some n) = (running n m \<and> \<not> loading_job (fst (mk_jobs m ! n))))"

definition of_open :: "nat option \<Rightarrow> nat" where
  "of_open ch = (if ch = None then 0 else 1)"

definition mock_counts :: "mock \<Rightarrow> bool" where
  "mock_counts m =
     (LoadStarts (mk_counts m) = LoadEnds (mk_counts m) + of_open (mk_load m)
      \<and> UnloadStarts (mk_counts m) = UnloadEnds (mk_counts m) + of_open (mk_unload m)
      \<and> InferStarts (mk_counts m) = InferEnds (mk_counts m) + in_flight m)"

definition mock_inv :: "mock \<Rightarrow> bool" where
  "mock_inv m = (status_ok (status_locked m) \<and> jobs_ok m \<and> mock_counts m)"

lemma jobs_cong:
  "mk_jobs m' = mk_jobs m \<Longrightarrow> mk_load m' = mk_load m \<Longrightarrow> mk_unload m' = mk_unload m \<Longrightarrow> jobs_ok m' = jobs_ok m"
  by (simp add: jobs_ok_def running_def)

lemma jobs_start:
  assumes "jobs_ok m" "mk_jobs m' = mk_jobs m @ [(j, False)]"
    and "if loading_job j then mk_load m = None \<and> mk_load m' = Some (length (mk_jobs m)) \<and> mk_unload m' = mk_unload m
      else mk_unload m = None \<and> mk_unload m' = Some (length (mk_jobs m)) \<and> mk_load m' = mk_load m"
  shows "jobs_ok m'"
proof -
  have "running n m' = (running n m \<or> n = length (mk_jobs m))" for n
    using assms(2) by (auto simp: running_def nth_append)
  moreover have "running n m \<Longrightarrow> mk_jobs m' ! n = mk_jobs m ! n" for n
    using assms(2) by (auto simp: running_def nth_append)
  moreover have "mk_jobs m' ! length (mk_jobs m) = (j, False)" "\<not> running (length (mk_jobs m)) m"
    using assms(2) by (simp_all add: running_def)
  ultimately show ?thesis using assms(1,3) unfolding jobs_ok_def by (metis fst_conv option.distinct(1) option.inject)
qed

lemma ended_jobs:
  assumes "jobs_ok m" "running n m" "j = fst (mk_jobs m ! n)" "mk_jobs m' = (mk_jobs m)[n := (j, True)]"
    and "if loading_job j then mk_load m' = None \<and> mk_unload m' = mk_unload m
      else mk_unload m' = None \<and> mk_load m' = mk_load m"
  shows "jobs_ok m'"
proof -
  have "running k m' = (running k m \<and> k \<noteq> n)" for k
    using assms(2,4) by (auto simp: running_def nth_list_update)
  moreover have "k \<noteq> n \<Longrightarrow> mk_jobs m' ! k = mk_jobs m ! k" for k using assms(4) by simp
  ultimately show ?thesis using assms(1,2,3,5) unfolding jobs_ok_def by (metis option.distinct(1) option.inject)
qed

section \<open>The steps of the handlers\<close>

text \<open>
  What a handler does after its wait is made of four pieces; a property that is closed under them is
  kept by every step of a handler.
\<close>

locale stage_closed =
  fixes P :: "mock \<Rightarrow> bool" and ok :: "bool \<Rightarrow> bool"
  assumes closed_reach: "P m \<Longrightarrow> P (reach g m)"
    and closed_stage: "P m \<Longrightarrow> i < length (mk_calls m) \<Longrightarrow>
      inferring (mc_stage (mk_calls m ! i)) = inferring st \<Longrightarrow> P (set_stage i st m)"
    and closed_finish: "P m \<Longrightarrow> i < length (mk_calls m) \<Longrightarrow> inferring (mc_stage (mk_calls m ! i)) \<Longrightarrow>
      P (set_stage i (CallEnded r) (finish_inference m))"
    and closed_prepare: "P m \<Longrightarrow> ok already \<Longrightarrow> P (snd (finish_prepare already fail m))"
begin

lemma closed_here:
  assumes "i < length (mk_calls m)" "st = mc_stage (mk_calls m ! i)" "P m'" "mk_calls m' = mk_calls m"
  shows "inferring st = inferring x \<Longrightarrow> P (set_stage i x m')"
    and "inferring st \<Longrightarrow> P (infer_ends i m')"
    and "inferring st \<Longrightarrow> P (set_stage i (CallEnded r) (finish_inference m'))"
  using assms closed_stage [of m' i x] closed_finish [of m' i]
  by (simp_all add: infer_ends_def Let_def reply_to_def)

lemma closed_advance:
  assumes "P m" "i < length (mk_calls m)" "st = mc_stage (mk_calls m ! i)"
    and "\<forall>already fail. st = CallPrepare already fail \<longrightarrow> ok already"
  shows "P (advance i gone st m)"
proof -
  note here = closed_here [OF assms(2,3)]
  have r: "P (reach g m)" "mk_calls (reach g m) = mk_calls m" for g using assms(1) by (simp_all add: closed_reach)
  show ?thesis
  proof (cases st)
    case (CallPrepare already fail)
    let ?m = "if already then m else reach PrepareGate m"
    have "P (snd (finish_prepare already fail ?m))" "mk_calls (snd (finish_prepare already fail ?m)) = mk_calls m"
      using assms(1,4) CallPrepare r by (auto intro: closed_prepare) (simp_all add: finish_prepare_def Let_def)
    then have "P (reply_to i rp (snd (finish_prepare already fail ?m)))" for rp
      unfolding reply_to_def by (rule here(1)) (simp add: CallPrepare)
    then show ?thesis using CallPrepare r by (auto simp: advance_def Let_def split_beta)
  next
    case (CallInfer persist)
    then show ?thesis using here [OF r(1) [of InferGate] r(2) [of InferGate]] by (simp add: advance_def Let_def r(1))
  next
    case CallBackend
    then show ?thesis using here [OF r(1) [of BackendGate] r(2) [of BackendGate]] by (simp add: advance_def Let_def r(1))
  next
    case CallStray
    then show ?thesis using here [OF r(1) [of BackendGate] r(2) [of BackendGate]] by (simp add: advance_def Let_def r(1))
  qed (use assms(1) here(1) [OF assms(1) refl] in \<open>simp_all add: advance_def reply_to_def\<close>)
qed

lemma closed_cancel:
  assumes "P m" "i < length (mk_calls m)" "st = mc_stage (mk_calls m ! i)"
  shows "P (cancel i st m)"
proof -
  note here = closed_here(1) [OF assms(2,3)]
  have r: "P (reach g m)" "mk_calls (reach g m) = mk_calls m" for g using assms(1) by (simp_all add: closed_reach)
  show ?thesis
    using assms(1) here [OF assms(1) refl] here [OF r(1) [of BackendGate] r(2) [of BackendGate]]
      here [OF r(1) [of PrepareGate] r(2) [of PrepareGate]]
    by (cases st) (simp_all add: cancel_def reply_to_def)
qed

end

section \<open>The counters of every step\<close>

definition tally :: "mock \<Rightarrow> bool" where
  "tally m = (jobs_ok m \<and> mock_counts m)"

lemma tally_cong:
  assumes "mk_jobs m' = mk_jobs m" "mk_load m' = mk_load m" "mk_unload m' = mk_unload m"
    "mk_counts m' = mk_counts m" "in_flight m' = in_flight m"
  shows "tally m' = tally m"
  using assms by (simp add: tally_def mock_counts_def jobs_cong [OF assms(1-3)])

lemma jobs_calls: "jobs_ok (m\<lparr>mk_calls := cs\<rparr>) = jobs_ok m"
  by (rule jobs_cong) simp_all

lemma jobs_frame [simp]:
  "jobs_ok (tick f m) = jobs_ok m" "jobs_ok (reach g m) = jobs_ok m" "jobs_ok (add_active d m) = jobs_ok m"
  "jobs_ok (cleared m) = jobs_ok m" "jobs_ok (become w rs e m) = jobs_ok m" "jobs_ok (add_call c m) = jobs_ok m"
  "jobs_ok (answer r m) = jobs_ok m" "jobs_ok (set_stage i st m) = jobs_ok m" "jobs_ok (reply_to i r m) = jobs_ok m"
  by (rule jobs_cong; simp)+

lemma tally_add: "tally m \<Longrightarrow> \<not> inferring st \<Longrightarrow> tally (add_call st m)"
  by (simp add: tally_def mock_counts_def)

lemma tally_answer: "tally m \<Longrightarrow> tally (answer r m)"
  by (simp add: tally_def mock_counts_def)

lemma start_fields:
  "mk_jobs (begin_load m) = mk_jobs m @ [(LoadJob (mk_loadFail m), False)]" "mk_load (begin_load m) = Some (length (mk_jobs m))"
  "mk_unload (begin_load m) = mk_unload m" "mk_counts (begin_load m) = LoadStarts_update Suc (mk_counts m)"
  "in_flight (begin_load m) = in_flight m"
  "mk_jobs (begin_unload m) = mk_jobs m @ [(UnloadJob (mk_unloadFail m), False)]"
  "mk_unload (begin_unload m) = Some (length (mk_jobs m))"
  "mk_load (begin_unload m) = mk_load m" "mk_counts (begin_unload m) = UnloadStarts_update Suc (mk_counts m)"
  "in_flight (begin_unload m) = in_flight m"
  by (simp_all add: begin_load_def begin_unload_def Let_def in_flight_def) (simp_all add: tick_def)

lemma tally_start_load:
  assumes "tally m" "mk_load m = None"
  shows "tally (begin_load m)"
proof -
  have "jobs_ok (begin_load m)"
    by (rule jobs_start [of m _ "LoadJob (mk_loadFail m)"]) (use assms in \<open>simp_all add: tally_def start_fields\<close>)
  then show ?thesis using assms by (simp add: tally_def mock_counts_def start_fields of_open_def)
qed

lemma tally_start_unload:
  assumes "tally m" "mk_unload m = None"
  shows "tally (begin_unload m)"
proof -
  have "jobs_ok (begin_unload m)"
    by (rule jobs_start [of m _ "UnloadJob (mk_unloadFail m)"]) (use assms in \<open>simp_all add: tally_def start_fields\<close>)
  then show ?thesis using assms by (simp add: tally_def mock_counts_def start_fields of_open_def)
qed

lemma tally_load: "tally m \<Longrightarrow> tally (handle_load rq m)"
  by (auto simp: handle_load_def tally_start_load intro!: tally_answer tally_add split: option.split)

lemma tally_become: "tally (cleared (become w rs e m)) = tally m"
  by (rule tally_cong) (simp_all add: in_flight_def)

lemma tally_unload: "tally m \<Longrightarrow> tally (handle_unload rq m)"
  by (auto simp: handle_unload_def tally_start_unload Let_def tally_become intro!: tally_answer tally_add
      split: option.split)

lemma tally_status: "tally m \<Longrightarrow> tally (handle_status rq m)"
proof -
  assume "tally m"
  then have "tally (tick (StatusGets_update Suc) m)" by (simp add: tally_def mock_counts_def in_flight_def)
  then show ?thesis
    using \<open>tally m\<close> by (auto simp: handle_status_def Let_def intro!: tally_answer tally_add split: option.split)
qed

lemma tally_inference: "tally m \<Longrightarrow> tally (handle_inference rq m)"
proof -
  assume t: "tally m"
  let ?m = "m\<lparr>mk_lastPath := mq_uri rq, mk_lastBody := mq_body rq, mk_lastType := mq_type rq\<rparr>"
  have m: "tally ?m" using t tally_cong [of ?m m] by (simp add: in_flight_def)
  then have "tally (add_call (CallInfer p) (add_active 1 (tick (InferStarts_update Suc) ?m)))" for p
    by (simp add: tally_def mock_counts_def) (simp add: in_flight_def)
  then show ?thesis using t m by (auto simp: handle_inference_def Let_def intro!: tally_answer)
qed

lemma tally_prepare: "tally m \<Longrightarrow> tally (handle_prepare rq m)"
proof -
  assume "tally m"
  then have "tally (tick (PrepareStarts_update Suc) m)" by (simp add: tally_def mock_counts_def in_flight_def)
  then show ?thesis using \<open>tally m\<close> by (auto simp: handle_prepare_def intro!: tally_answer tally_add)
qed

lemma end_job_fields:
  "mk_jobs (end_job j m) = mk_jobs m" "mk_calls (end_job j m) = mk_calls m"
  "mk_load (end_job j m) = (if loading_job j then None else mk_load m)"
  "mk_unload (end_job j m) = (if loading_job j then mk_unload m else None)"
  "mk_counts (end_job j m)
     = (if loading_job j then LoadEnds_update Suc (mk_counts m) else UnloadEnds_update Suc (mk_counts m))"
  by (auto simp: end_job_def end_load_def end_unload_def Let_def split: job.split load_fail.split)

lemma tally_job: "tally m \<Longrightarrow> tally (run_job n m)"
proof -
  assume t: "tally m"
  let ?j = "fst (mk_jobs m ! n)" let ?m = "reach (job_gate (fst (mk_jobs m ! n))) m"
  let ?e = "(end_job ?j ?m)\<lparr>mk_jobs := (mk_jobs ?m)[n := (?j, True)]\<rparr>"
  have r: "tally ?m" using t tally_cong [of ?m m] by (simp add: in_flight_def)
  have "tally ?e" if run: "running n m"
  proof -
    have "jobs_ok ?e"
      by (rule ended_jobs [of m n ?j]) (use t run in \<open>auto simp: tally_def end_job_fields\<close>)
    moreover have "if loading_job ?j then mk_load m = Some n else mk_unload m = Some n"
      using t run by (simp add: tally_def jobs_ok_def)
    moreover have "in_flight ?e = in_flight m" by (simp add: in_flight_def end_job_fields)
    ultimately show ?thesis
      using t by (auto simp: tally_def mock_counts_def end_job_fields of_open_def split: if_splits)
  qed
  then show ?thesis using t r by (simp add: run_job_def Let_def)
qed

lemma tally_stage:
  assumes "tally m" "i < length (mk_calls m)" "inferring (mc_stage (mk_calls m ! i)) = inferring st"
  shows "tally (set_stage i st m)"
  using assms in_flight_stage [OF assms(2), of st] by (auto simp: tally_def mock_counts_def split: if_splits)

lemma tally_finish:
  assumes "tally m" "i < length (mk_calls m)" "inferring (mc_stage (mk_calls m ! i))" "\<not> inferring st"
  shows "tally (set_stage i st (finish_inference m))"
proof -
  have "in_flight (set_stage i st (finish_inference m)) + 1 = in_flight m"
    using in_flight_stage [of i "finish_inference m" st] assms in_flight_cong [of "finish_inference m" m]
    by (simp add: finish_inference_def)
  then show ?thesis using assms(1) by (simp add: tally_def mock_counts_def finish_inference_def)
qed

lemma tally_reach: "tally (reach g m) = tally m"
  by (rule tally_cong) (simp_all add: in_flight_def)

lemma tally_finish_prepare: "tally (snd (finish_prepare already fail m)) = tally m"
  by (auto simp: finish_prepare_def Let_def tally_def mock_counts_def in_flight_def jobs_ok_def running_def)

interpretation mock_tally_stages: stage_closed tally "\<lambda>_. True"
  by unfold_locales (simp_all add: tally_reach tally_stage tally_finish tally_finish_prepare)

lemma hook_frame:
  "mk_jobs (apply_hook hk m) = mk_jobs m" "mk_load (apply_hook hk m) = mk_load m"
  "mk_unload (apply_hook hk m) = mk_unload m" "mk_counts (apply_hook hk m) = mk_counts m"
  "mk_calls (apply_hook hk m) = mk_calls m"
  by (cases hk; simp)+

lemma tally_hook: "tally (apply_hook hk m) = tally m"
  by (rule tally_cong) (simp_all add: hook_frame in_flight_def)

lemma in_flight_gone: "in_flight (m\<lparr>mk_calls := (mk_calls m)[i := (mk_calls m ! i)\<lparr>mc_gone := g\<rparr>]\<rparr>) = in_flight m"
proof (cases "i < length (mk_calls m)")
  case True
  then show ?thesis
    using filter_length_update [OF True, of "\<lambda>c. inferring (mc_stage c)" "(mk_calls m ! i)\<lparr>mc_gone := g\<rparr>"]
    by (simp add: in_flight_def split: if_splits)
qed (simp add: in_flight_def list_update_beyond)

lemma tally_step: "tally m \<Longrightarrow> tally (mock_step m e)"
proof (cases e)
  case (MkPublic rq)
  then show "tally m \<Longrightarrow> tally (mock_step m e)"
    by (auto simp: public_def tally_load tally_unload tally_status tally_inference intro: tally_add)
next
  case (MkGone i)
  then show "tally m \<Longrightarrow> tally (mock_step m e)"
    using tally_cong [of "m\<lparr>mk_calls := (mk_calls m)[i := (mk_calls m ! i)\<lparr>mc_gone := True\<rparr>]\<rparr>" m] in_flight_gone
    by simp
qed (simp_all add: tally_prepare tally_answer tally_job mock_tally_stages.closed_advance mock_tally_stages.closed_cancel tally_hook)

lemma option_fields:
  "mk_load (set_option x m) = mk_load m \<and> mk_unload (set_option x m) = mk_unload m \<and> mk_jobs (set_option x m) = mk_jobs m
   \<and> mk_calls (set_option x m) = mk_calls m \<and> mk_counts (set_option x m) = mk_counts m"
  by (cases x) simp_all

lemma options_fields:
  "mk_load (fold set_option opts m) = mk_load m \<and> mk_unload (fold set_option opts m) = mk_unload m
   \<and> mk_jobs (fold set_option opts m) = mk_jobs m \<and> mk_calls (fold set_option opts m) = mk_calls m
   \<and> mk_counts (fold set_option opts m) = mk_counts m"
  by (induction opts arbitrary: m) (simp_all add: option_fields)

lemma new_fields:
  "mk_load (new_mock name opts) = None" "mk_unload (new_mock name opts) = None" "mk_jobs (new_mock name opts) = []"
  "mk_calls (new_mock name opts) = []" "mk_counts (new_mock name opts) = no_counts"
  by (simp_all add: new_mock_def options_fields)

lemma tally_new: "tally (new_mock name opts)"
  by (simp add: tally_def jobs_ok_def running_def mock_counts_def in_flight_def new_fields no_counts_def of_open_def)

interpretation mock_tally: machine mock_step "\<lambda>_ _. True" tally
  by unfold_locales (rule tally_step)

section \<open>A runtime nobody tampers with\<close>

text \<open>No test sets its state or takes its endpoint down.\<close>

definition calm :: "mock_event \<Rightarrow> bool" where
  "calm e =
     (case e of
        MkHook ForceReady \<Rightarrow> False | MkHook ForceUnloaded \<Rightarrow> False | MkHook (ForceFailed _) \<Rightarrow> False
      | MkHook (SetWire _ _ _) \<Rightarrow> False | MkHook (SetEndpointAlive b) \<Rightarrow> b | _ \<Rightarrow> True)"

definition stays_up :: "mock \<Rightarrow> bool" where
  "stays_up m = (mk_alive m \<and> (\<forall>c \<in> set (mk_calls m). \<forall>f. mc_stage c \<noteq> CallPrepare False f))"

definition at_work :: "mock \<Rightarrow> bool" where
  "at_work m =
     (mk_active m = int (in_flight m)
      \<and> (0 < in_flight m \<longrightarrow> mk_state m = WireReady)
      \<and> (mk_load m \<noteq> None \<longrightarrow> mk_state m = WireLoading)
      \<and> (mk_unload m \<noteq> None) = (mk_state m = WireUnloading)
      \<and> (case mk_error m of Some e \<Rightarrow> le_code e \<noteq> ''BUSY'' | None \<Rightarrow> True))"

lemma in_flight_frame [simp]:
  "in_flight (tick f m) = in_flight m" "in_flight (reach g m) = in_flight m" "in_flight (add_active d m) = in_flight m"
  "in_flight (cleared m) = in_flight m" "in_flight (become w rs e m) = in_flight m"
  by (simp_all add: in_flight_def)

lemma up_cong: "mk_alive m' = mk_alive m \<Longrightarrow> mk_calls m' = mk_calls m \<Longrightarrow> stays_up m' = stays_up m"
  by (simp add: stays_up_def)

lemma up_add: "stays_up m \<Longrightarrow> \<forall>f. st \<noteq> CallPrepare False f \<Longrightarrow> stays_up (add_call st m)"
  by (auto simp: stays_up_def)

lemma up_answer: "stays_up m \<Longrightarrow> stays_up (answer r m)"
  by (auto simp: stays_up_def)

lemma up_stage: "stays_up m \<Longrightarrow> \<forall>f. st \<noteq> CallPrepare False f \<Longrightarrow> stays_up (set_stage i st m)"
  by (auto simp: stays_up_def dest!: set_update_subset_insert [THEN subsetD])

lemma up_reply: "stays_up m \<Longrightarrow> stays_up (reply_to i r m)"
  by (simp add: reply_to_def up_stage)

lemma up_frame [simp]:
  "stays_up (tick f m) = stays_up m" "stays_up (reach g m) = stays_up m" "stays_up (add_active d m) = stays_up m"
  "stays_up (cleared m) = stays_up m" "stays_up (become w rs e m) = stays_up m"
  "stays_up (finish_inference m) = stays_up m"
  by (simp_all add: stays_up_def finish_inference_def)

lemma up_advance:
  assumes "stays_up m" "i < length (mk_calls m)" "st = mc_stage (mk_calls m ! i)"
  shows "stays_up (advance i gone st m)"
proof (cases st)
  case (CallPrepare already fail)
  then have "already" using assms by (cases already) (auto simp: stays_up_def)
  moreover have "stays_up (snd (finish_prepare True fail m))" using assms(1) by (simp add: finish_prepare_def Let_def)
  ultimately show ?thesis using CallPrepare by (simp add: advance_def split_beta up_reply)
qed (use assms in \<open>auto simp: advance_def infer_ends_def Let_def intro!: up_reply up_stage\<close>)

lemma up_cancel: "stays_up m \<Longrightarrow> stays_up (cancel i st m)"
  by (auto simp: cancel_def intro!: up_reply up_stage split: mock_stage.split)

lemma up_hook: "stays_up m \<Longrightarrow> calm (MkHook hk) \<Longrightarrow> stays_up (apply_hook hk m)"
  by (cases hk) (auto simp: stays_up_def calm_def)

lemma up_public: "stays_up m \<Longrightarrow> stays_up (public rq m)"
  by (auto simp: public_def handle_load_def handle_unload_def handle_status_def handle_inference_def
      begin_load_def begin_unload_def Let_def stays_up_def split: option.split)

lemma up_step: "stays_up m \<Longrightarrow> calm e \<Longrightarrow> stays_up (mock_step m e)"
proof (cases e)
  case (MkAdmin rq)
  then show "stays_up m \<Longrightarrow> stays_up (mock_step m e)"
    by (auto simp: handle_prepare_def stays_up_def)
next
  case (MkJob n)
  have "stays_up (end_job j m') = stays_up m'" for j m'
    by (auto simp: end_job_def end_load_def end_unload_def stays_up_def Let_def split: job.split load_fail.split)
  then have "stays_up m \<Longrightarrow> stays_up ((end_job j (reach g m))\<lparr>mk_jobs := js\<rparr>)" for j g js
    using up_cong [of "(end_job j (reach g m))\<lparr>mk_jobs := js\<rparr>" "end_job j (reach g m)"] by simp
  then show "stays_up m \<Longrightarrow> stays_up (mock_step m e)" using MkJob by (simp add: run_job_def Let_def)
next
  case (MkGone i)
  then show "stays_up m \<Longrightarrow> stays_up (mock_step m e)"
    by (auto simp: stays_up_def dest!: set_update_subset_insert [THEN subsetD])
qed (simp_all add: up_public up_advance up_cancel up_hook)

lemma work_cong:
  assumes "status_locked m' = status_locked m" "in_flight m' = in_flight m" "mk_load m' = mk_load m" "mk_unload m' = mk_unload m"
  shows "at_work m' = at_work m"
proof -
  have "mk_active m' = mk_active m" "mk_state m' = mk_state m" "mk_error m' = mk_error m"
    using assms(1) by (simp_all add: status_locked_def)
  then show ?thesis using assms(2-4) by (simp add: at_work_def)
qed

lemma work_frame [simp]:
  "at_work (tick f m) = at_work m" "at_work (reach g m) = at_work m" "at_work (answer r m) = at_work m"
  by (rule work_cong; simp)+

lemma work_add: "at_work m \<Longrightarrow> \<not> inferring st \<Longrightarrow> at_work (add_call st m)"
  using work_cong [of "add_call st m" m] by simp

lemma work_load:
  assumes "at_work m" "status_ok (status_locked m)"
  shows "at_work (handle_load rq m)"
proof -
  have "at_work (begin_load m)" if "mk_state m \<noteq> WireReady" "mk_state m \<noteq> WireUnloading"
    using assms that
    by (simp add: at_work_def start_fields) (simp add: begin_load_def Let_def)
  then show ?thesis using assms(1) by (auto simp: handle_load_def intro!: work_add split: option.split)
qed

lemma work_unload:
  assumes "at_work m" "status_ok (status_locked m)"
  shows "at_work (handle_unload rq m)"
proof -
  have "at_work (begin_unload m)" if "mk_state m \<noteq> WireLoading" "\<not> busy_locked m"
    using assms that
    by (simp add: at_work_def start_fields busy_locked_def) (simp add: begin_unload_def Let_def)
  moreover have "at_work (cleared (become WireUnloaded ResidencyNotResident None m))" if "mk_state m = WireFailed"
    using assms(1) that by (simp add: at_work_def)
  ultimately show ?thesis using assms(1) by (auto simp: handle_unload_def Let_def intro!: work_add split: option.split)
qed

lemma work_inference:
  assumes "at_work m"
  shows "at_work (handle_inference rq m)"
proof -
  let ?m = "m\<lparr>mk_lastPath := mq_uri rq, mk_lastBody := mq_body rq, mk_lastType := mq_type rq\<rparr>"
  have m: "at_work ?m" using assms work_cong [of ?m m] by (simp add: in_flight_def)
  then have "mk_state m = WireReady \<Longrightarrow> at_work (add_call (CallInfer p) (add_active 1 (tick (InferStarts_update Suc) ?m)))" for p
    by (simp add: at_work_def)
  then show ?thesis using assms m by (auto simp: handle_inference_def Let_def)
qed

lemma work_public:
  assumes "at_work m" "status_ok (status_locked m)"
  shows "at_work (public rq m)"
  using assms work_load work_unload work_inference
  by (auto simp: public_def handle_status_def Let_def intro!: work_add split: option.split)

lemma work_end:
  assumes "at_work m" "tally m" "running n m" "j = fst (mk_jobs m ! n)"
  shows "at_work (end_job j m)"
proof (cases "loading_job j")
  case True
  then have "mk_load m = Some n" using assms(2-4) by (simp add: tally_def jobs_ok_def)
  then have "mk_state m = WireLoading" "mk_unload m = None" "in_flight m = 0" using assms(1) by (auto simp: at_work_def)
  then show ?thesis
    using assms(1) True
    by (cases j) (auto simp: at_work_def end_job_def end_load_def Let_def lasterr_def in_flight_def split: load_fail.split)
next
  case False
  then have "mk_unload m = Some n" using assms(2-4) by (simp add: tally_def jobs_ok_def)
  then have "mk_state m = WireUnloading" "mk_load m = None" "in_flight m = 0" "mk_active m = 0"
    using assms(1) by (auto simp: at_work_def)
  then show ?thesis
    using assms(1) False
    by (cases j) (auto simp: at_work_def end_job_def end_unload_def Let_def lasterr_def busy_locked_def in_flight_def)
qed

lemma work_job:
  assumes "at_work m" "tally m"
  shows "at_work (run_job n m)"
proof -
  let ?j = "fst (mk_jobs m ! n)"
  let ?m = "reach (job_gate ?j) m"
  have "at_work ((end_job ?j ?m)\<lparr>mk_jobs := js\<rparr>)" if "running n m" for js
  proof -
    have "tally ?m" "running n ?m" "?j = fst (mk_jobs ?m ! n)"
      using assms(2) that by (simp_all add: tally_reach running_def)
    then have "at_work (end_job ?j ?m)" using assms(1) by (intro work_end) simp_all
    then show ?thesis
      using work_cong [of "(end_job ?j ?m)\<lparr>mk_jobs := js\<rparr>" "end_job ?j ?m"] by (simp add: in_flight_def)
  qed
  then show ?thesis using assms(1) by (simp add: run_job_def Let_def)
qed

lemma work_stage:
  assumes "at_work m" "i < length (mk_calls m)" "inferring (mc_stage (mk_calls m ! i)) = inferring st"
  shows "at_work (set_stage i st m)"
  using assms(1,3) in_flight_stage [OF assms(2), of st] work_cong [of "set_stage i st m" m] by (simp split: if_splits)

lemma work_finish:
  assumes "at_work m" "i < length (mk_calls m)" "inferring (mc_stage (mk_calls m ! i))" "\<not> inferring st"
  shows "at_work (set_stage i st (finish_inference m))"
proof -
  have "in_flight (set_stage i st (finish_inference m)) + 1 = in_flight m"
    using in_flight_stage [of i "finish_inference m" st] assms by (simp add: finish_inference_def)
  then show ?thesis using assms(1) by (auto simp: at_work_def finish_inference_def)
qed

interpretation mock_work_stages: stage_closed at_work "\<lambda>already. already"
  by unfold_locales (simp_all add: work_stage work_finish finish_prepare_def Let_def)

lemma work_hook: "at_work m \<Longrightarrow> calm (MkHook hk) \<Longrightarrow> at_work (apply_hook hk m)"
proof -
  assume w: "at_work m" and c: "calm (MkHook hk)"
  have "status_locked (apply_hook hk m) = status_locked m" using c by (cases hk) (simp_all add: calm_def)
  then show "at_work (apply_hook hk m)"
    using w work_cong [of "apply_hook hk m" m] by (simp add: hook_frame in_flight_def)
qed

definition working :: "mock \<Rightarrow> bool" where
  "working m = (at_work m \<and> tally m \<and> stays_up m \<and> status_ok (status_locked m))"

lemma work_step:
  assumes "working m" "calm e"
  shows "at_work (mock_step m e)"
proof (cases e)
  case (MkPublic rq)
  then show ?thesis using assms work_public by (simp add: working_def)
next
  case (MkAdmin rq)
  then show ?thesis using assms by (auto simp: working_def handle_prepare_def intro!: work_add)
next
  case (MkAdvance i)
  have "\<forall>already fail. mc_stage (mk_calls m ! i) = CallPrepare already fail \<longrightarrow> already" if "i < length (mk_calls m)"
    using assms(1) that by (auto simp: working_def stays_up_def) (metis nth_mem)
  then have "at_work (advance i gone (mc_stage (mk_calls m ! i)) m)" if "i < length (mk_calls m)" for gone
    using assms(1) that by (intro mock_work_stages.closed_advance) (auto simp: working_def)
  then show ?thesis using assms(1) MkAdvance by (simp add: working_def)
next
  case (MkGone i)
  then show ?thesis
    using assms work_cong [of "m\<lparr>mk_calls := (mk_calls m)[i := (mk_calls m ! i)\<lparr>mc_gone := True\<rparr>]\<rparr>" m] in_flight_gone
    by (simp add: working_def)
qed (use assms in \<open>simp_all add: working_def work_job work_hook mock_work_stages.closed_cancel\<close>)

lemma calm_hook_ok: "calm e \<Longrightarrow> hook_ok e"
  by (auto simp: calm_def hook_ok_def split: mock_event.splits mock_hook.splits)

lemma working_step: "working m \<Longrightarrow> calm e \<Longrightarrow> working (mock_step m e)"
  using work_step [of m e] ok_step [of m e] tally_step [of m e] up_step [of m e] calm_hook_ok [of e]
  by (simp add: working_def)

interpretation mock_working: machine mock_step "\<lambda>_. calm" working
  by unfold_locales (rule working_step)

lemma options_work:
  "WithEndpointDown \<notin> set opts \<Longrightarrow> mk_alive m \<Longrightarrow> mk_state m \<in> {WireUnloaded, WireLoading} \<Longrightarrow> mk_active m = 0 \<Longrightarrow> mk_error m = None
   \<Longrightarrow> mk_alive (fold set_option opts m) \<and> mk_state (fold set_option opts m) \<in> {WireUnloaded, WireLoading}
     \<and> mk_active (fold set_option opts m) = 0 \<and> mk_error (fold set_option opts m) = None"
proof (induction opts arbitrary: m)
  case (Cons x opts)
  have "mk_alive (set_option x m) \<and> mk_state (set_option x m) \<in> {WireUnloaded, WireLoading}
     \<and> mk_active (set_option x m) = 0 \<and> mk_error (set_option x m) = None"
    using Cons.prems by (cases x) auto
  then show ?case using Cons.IH [of "set_option x m"] Cons.prems(1) by simp
qed simp

lemma working_new:
  assumes "WithEndpointDown \<notin> set opts"
  shows "working (new_mock name opts)"
proof -
  let ?m = "new_mock name opts"
  have "mk_alive ?m \<and> mk_state ?m \<in> {WireUnloaded, WireLoading} \<and> mk_active ?m = 0 \<and> mk_error ?m = None"
    unfolding new_mock_def by (rule options_work [OF assms]) simp_all
  then show ?thesis
    using ok_new tally_new by (auto simp: working_def at_work_def stays_up_def new_fields in_flight_def)
qed

end
