(* ===== verification/Mock_Rest.thy ===== *)
theory Mock_Rest
  imports Mock_Inv
begin

text \<open>
  A runtime that is without its model stays so until a load is asked of it: no job is left over from
  before that could bring the model back.
\<close>

definition load_request :: "mock_event \<Rightarrow> bool" where
  "load_request e = (case e of MkPublic rq \<Rightarrow> mq_path rq = ''/control/load'' | _ \<Rightarrow> False)"

text \<open>Without its model a runtime neither loads nor unloads.\<close>

definition at_rest :: "mock \<Rightarrow> bool" where
  "at_rest m = (mk_residency m = ResidencyNotResident \<and> mk_load m = None \<and> mk_unload m = None)"

definition quiet :: "mock \<Rightarrow> bool" where
  "quiet m = (mk_residency m = ResidencyNotResident \<longrightarrow> at_rest m)"

text \<open>What a step that is no load, unload or job leaves alone.\<close>

definition same_model :: "mock \<Rightarrow> mock \<Rightarrow> bool" where
  "same_model m m' =
     (mk_residency m' = mk_residency m \<and> mk_load m' = mk_load m \<and> mk_unload m' = mk_unload m)"

lemma same_model_quiet: "same_model m m' \<Longrightarrow> at_rest m' = at_rest m \<and> quiet m' = quiet m"
  by (auto simp: same_model_def at_rest_def quiet_def)

lemma same_model_parts [simp]:
  "same_model m (add_call c m') = same_model m m'" "same_model m (answer r m') = same_model m m'"
  "same_model m (set_stage i st m') = same_model m m'" "same_model m (reply_to i r m') = same_model m m'"
  "same_model m (reach g m') = same_model m m'" "same_model m (tick f m') = same_model m m'"
  "same_model m (add_active d m') = same_model m m'" "same_model m (finish_inference m') = same_model m m'"
  "same_model m (infer_ends i m') = same_model m m'" "same_model m m"
  by (simp_all add: same_model_def mock_parts infer_ends_def finish_inference_def Let_def)

lemma same_model_inference: "same_model m (handle_inference rq m)"
  by (auto simp: handle_inference_def Let_def) (auto simp: same_model_def)

lemma same_model_advance:
  assumes "stays_up m" "i < length (mk_calls m)" "st = mc_stage (mk_calls m ! i)"
  shows "same_model m (advance i g st m)"
proof (cases st)
  case (CallPrepare already fail)
  then have "already" using assms by (cases already) (auto simp: stays_up_def)
  then show ?thesis using CallPrepare by (simp add: advance_def finish_prepare_def Let_def)
qed (simp_all add: advance_def Let_def)

lemma same_model_cancel: "same_model m (cancel i st m)"
  by (simp add: cancel_def split: mock_stage.split)

lemma same_model_hook: "calm (MkHook hk) \<Longrightarrow> same_model m (apply_hook hk m)"
  by (cases hk) (simp_all add: calm_def same_model_def)

lemma same_model_step:
  assumes "working m" "calm e"
    and "case e of MkPublic rq \<Rightarrow> mq_path rq \<notin> {''/control/load'', ''/control/unload''} | MkJob _ \<Rightarrow> False | _ \<Rightarrow> True"
  shows "same_model m (mock_step m e)"
proof (cases e)
  case (MkPublic rq)
  then show ?thesis
    using assms(3) same_model_inference by (simp add: public_def handle_status_def Let_def split: option.split)
next
  case (MkGone i)
  then show ?thesis by (simp add: same_model_def)
qed (use assms in \<open>auto simp: handle_prepare_def same_model_advance same_model_cancel same_model_hook working_def\<close>)

lemma rest_frame [simp]:
  "quiet (add_call c m) = quiet m" "quiet (answer r m) = quiet m" "quiet (reach g m) = quiet m"
  "at_rest (add_call c m) = at_rest m" "at_rest (answer r m) = at_rest m" "at_rest (reach g m) = at_rest m"
  "quiet (m\<lparr>mk_jobs := js\<rparr>) = quiet m" "at_rest (m\<lparr>mk_jobs := js\<rparr>) = at_rest m"
  by (simp_all add: quiet_def at_rest_def)

lemma quiet_load: "quiet m \<Longrightarrow> quiet (handle_load rq m)"
proof -
  have "quiet (begin_load m)" by (simp add: quiet_def begin_load_def Let_def)
  then show "quiet m \<Longrightarrow> quiet (handle_load rq m)" by (simp add: handle_load_def split: option.split)
qed

text \<open>An unload starts only where there is a model.\<close>

lemma begin_unload_rest:
  assumes "working m" "mk_state m \<noteq> WireLoading" "mk_unload m = None"
    "\<not> (mk_state m = WireUnloaded \<and> mk_residency m = ResidencyNotResident)"
    "\<not> (mk_state m = WireFailed \<and> mk_residency m = ResidencyNotResident)"
  shows "quiet (begin_unload m)" "\<not> at_rest m"
proof -
  have "mk_residency m \<noteq> ResidencyNotResident"
    using assms by (auto simp: working_def at_work_def status_ok_iff)
  then show "quiet (begin_unload m)" "\<not> at_rest m" by (simp_all add: quiet_def at_rest_def begin_unload_def Let_def)
qed

lemma unload_rest:
  assumes "working m" "quiet m"
  shows "quiet (handle_unload rq m)" "at_rest m \<Longrightarrow> at_rest (handle_unload rq m)"
proof -
  have failed: "at_rest (cleared (become WireUnloaded ResidencyNotResident None m))"
    if "mk_residency m = ResidencyNotResident"
    using assms(2) that by (simp add: quiet_def at_rest_def)
  then show "quiet (handle_unload rq m)"
    using assms(2) begin_unload_rest(1) [OF assms(1)]
    by (simp add: handle_unload_def Let_def quiet_def [of "cleared _"] split: option.split)
  show "at_rest (handle_unload rq m)" if "at_rest m"
    using that failed begin_unload_rest(2) [OF assms(1)]
    by (simp add: handle_unload_def Let_def split: option.split) (auto simp: at_rest_def)
qed

lemma job_rest:
  assumes "working m" "quiet m"
  shows "quiet (run_job n m)" "at_rest m \<Longrightarrow> at_rest (run_job n m)"
proof -
  let ?j = "fst (mk_jobs m ! n)"
  have r: "quiet (end_job ?j (reach g m)) \<and> \<not> at_rest m" if "running n m" for g
  proof -
    have w: "at_work m" "jobs_ok m" using assms(1) by (simp_all add: working_def tally_def)
    have "if loading_job ?j then mk_load m = Some n else mk_unload m = Some n" using w(2) that by (simp add: jobs_ok_def)
    then show ?thesis
      using w(1)
      by (cases ?j) (auto simp: at_work_def quiet_def at_rest_def end_job_def end_load_def end_unload_def Let_def
          split: load_fail.split)
  qed
  show "quiet (run_job n m)" "at_rest m \<Longrightarrow> at_rest (run_job n m)"
    using assms(2) r by (auto simp: run_job_def Let_def)
qed

lemma rest_step:
  assumes "working m" "quiet m" "calm e"
  shows "quiet (mock_step m e) \<and> (at_rest m \<and> \<not> load_request e \<longrightarrow> at_rest (mock_step m e))"
proof (cases "case e of MkPublic rq \<Rightarrow> mq_path rq \<notin> {''/control/load'', ''/control/unload''} | MkJob _ \<Rightarrow> False | _ \<Rightarrow> True")
  case True
  then show ?thesis using same_model_quiet [OF same_model_step [OF assms(1,3)]] assms(2) by blast
next
  case False
  then consider n where "e = MkJob n" | rq where "e = MkPublic rq" "mq_path rq \<in> {''/control/load'', ''/control/unload''}"
    by (auto split: mock_event.splits)
  then show ?thesis
  proof cases
    case (1 n)
    then show ?thesis using job_rest [OF assms(1,2)] by simp
  next
    case (2 rq)
    then show ?thesis
      using quiet_load [OF assms(2), of rq] unload_rest [OF assms(1,2), of rq] assms(2)
      by (auto simp: public_def load_request_def)
  qed
qed

end
