(* ===== verification/Ledger.thy ===== *)
theory Ledger
  imports Router_Props
begin

text \<open>
  How the router's reservation of a model moves: what can lower it, and that no load or unload is
  started while the ledger waits for a sample of the device.
\<close>

section \<open>Loads wait for samples\<close>

text \<open>The calls a step of the loop made through the scheduler.\<close>

definition new_calls :: "router \<Rightarrow> router \<Rightarrow> eff list" where
  "new_calls r r' = drop (length (out (r_sched r))) (out (r_sched r'))"

definition settled_ledger :: "view \<Rightarrow> router \<Rightarrow> model_id \<Rightarrow> bool" where
  "settled_ledger v r i =
     (router_state v i = Some StateReady \<or> router_state v i = Some StateStarting \<and> i \<in> v_inflight v
      \<or> (\<forall>j \<in> set (map fst (v_states v)). r_residualAfter r j = None))"

lemma settled_host: "settled (host_of v r) i \<Longrightarrow> settled_ledger v r i"
proof -
  have "map_of (v_states v) i \<noteq> None \<longleftrightarrow> i \<in> fst ` set (v_states v)" by (simp add: map_of_eq_None_iff)
  then show "settled (host_of v r) i \<Longrightarrow> settled_ledger v r i"
    by (auto simp: settled_def settled_ledger_def host_of_def recovery_facts_of_def router_state_def)
qed

text \<open>A load is asked for with the ledger as the step leaves it.\<close>

definition clean_loads :: "view \<Rightarrow> router \<Rightarrow> router \<Rightarrow> bool" where
  "clean_loads v r r' =
     (\<exists>es. out (r_sched r') = out (r_sched r) @ es
       \<and> (\<forall>i. EStartLoad i \<in> set es \<longrightarrow> settled_ledger v r' i \<and> router_state v i \<noteq> Some StateReady))"

lemma clean_same: "r_sched r' = r_sched r \<Longrightarrow> clean_loads v r r'"
  unfolding clean_loads_def by (intro exI [of _ "[]"]) simp

lemma clean_tell: "clean_loads v r (tell v e r)"
proof -
  obtain es where es: "out (r_sched (tell v e r)) = out (r_sched r) @ es"
    "\<forall>x \<in> set es. effect_ok (host_of v r) (r_sched (tell v e r)) x"
    using fifo_step_emits [of "host_of v r" "r_sched r" e] by (auto simp: emits_def tell_def)
  have "settled_ledger v (tell v e r) i \<and> router_state v i \<noteq> Some StateReady" if "EStartLoad i \<in> set es" for i
  proof -
    have "settled (host_of v r) i" "model_state (host_of v r) i \<noteq> Some StateReady"
      using es(2) that by (auto simp: load_ok_def)
    then show ?thesis
      using settled_host [of v r i] by (simp add: settled_ledger_def host_of_def)
  qed
  then show ?thesis using es(1) unfolding clean_loads_def by blast
qed

lemma clean_trans:
  assumes "clean_loads v r r'" "clean_loads v r' r''" "r_residualAfter r'' = r_residualAfter r'"
  shows "clean_loads v r r''"
proof -
  have "settled_ledger v r' i \<Longrightarrow> settled_ledger v r'' i" for i using assms(3) by (simp add: settled_ledger_def)
  moreover obtain es where es: "out (r_sched r') = out (r_sched r) @ es"
    "\<forall>i. EStartLoad i \<in> set es \<longrightarrow> settled_ledger v r' i \<and> router_state v i \<noteq> Some StateReady"
    using assms(1) unfolding clean_loads_def by blast
  moreover obtain fs where "out (r_sched r'') = out (r_sched r') @ fs"
    "\<forall>i. EStartLoad i \<in> set fs \<longrightarrow> settled_ledger v r'' i \<and> router_state v i \<noteq> Some StateReady"
    using assms(2) unfolding clean_loads_def by blast
  ultimately show ?thesis unfolding clean_loads_def by (intro exI [of _ "es @ fs"]) auto
qed

lemma clean_tell_after: "clean_loads v r r' \<Longrightarrow> clean_loads v r (tell v e r')"
  by (rule clean_trans [OF _ clean_tell]) simp_all

lemma clean_markers: "clean_loads v r r' \<Longrightarrow> clean_loads v r (fold (\<lambda>i. tell v (f i)) is r')"
  by (induction "is" arbitrary: r') (simp_all add: clean_tell_after)

lemma clean_observation:
  assumes "r_sched r' = r_sched r"
  shows "clean_loads v r (apply_observation v snap r')"
  using assms unfolding apply_observation_def Let_def
  by (auto intro!: clean_tell_after clean_markers intro: clean_same)

lemma clean_recover: "clean_loads v r (on_recover v ev ans r)"
  unfolding on_recover_def Let_def finish_shutdown_def
  by (auto intro!: clean_tell_after intro: clean_same split: apply_answer.split)

lemma clean_step: "clean_loads v r (router_step r (v, e))"
  by (cases e)
    (auto simp: finish_shutdown_def finish_unload_def swap_done_def Let_def grant_load_def
      intro!: clean_tell_after clean_recover clean_observation intro: clean_same)

section \<open>What lowers a reservation\<close>

text \<open>
  The events that can end in a lower reservation of \<open>i\<close>: a confirmed unload, a confirmed release at
  shutdown, a probe that found the model gone.
\<close>

definition releases :: "model_id \<Rightarrow> router_event \<Rightarrow> bool" where
  "releases i e =
     (case e of
        RUnload n \<Rightarrow> un_err n = None \<and> i \<in> set (un_ids n)
      | RReleased j _ _ \<Rightarrow> j = i
      | RRecover ev _ \<Rightarrow>
          e_model ev = i \<and> e_class ev \<in> {RecUnloadedIdle, RecFailedNotResidentIdle}
          \<and> e_kind ev \<noteq> StatusErrEndpointDown
      | _ \<Rightarrow> False)"

text \<open>\<open>i\<close> is held at its peak at least, and no sample would release it.\<close>

definition held_at_peak :: "model_id \<Rightarrow> router \<Rightarrow> bool" where
  "held_at_peak i r =
     (r_residualAfter r i = None
      \<and> (case model_at r i of
           None \<Rightarrow> False
         | Some m \<Rightarrow> (case r_reserved r i of None \<Rightarrow> False | Some b \<Rightarrow> load_bound m <=s b)))"

lemma held_cong:
  "r_cfg r' = r_cfg r \<Longrightarrow> r_reserved r' i = r_reserved r i \<Longrightarrow> r_residualAfter r' i = r_residualAfter r i
     \<Longrightarrow> held_at_peak i r' = held_at_peak i r"
  by (simp add: held_at_peak_def model_at_def models_of_def cong: option.case_cong)

lemma held_tell [simp]: "held_at_peak i (tell v e r) = held_at_peak i r"
  by (rule held_cong) simp_all

lemma held_fold_tell [simp]: "held_at_peak i (fold (\<lambda>j. tell v (f j)) js r) = held_at_peak i r"
  by (induction js arbitrary: r) simp_all

lemma held_clear: "held_at_peak i r \<Longrightarrow> j \<noteq> i \<Longrightarrow> held_at_peak i (clear_marker j r)"
  using held_cong [of "clear_marker j r" r i]
  by (simp add: clear_marker_own) (auto simp: clear_marker_def hold_residual_def split: option.splits)

lemma held_fold_clear: "held_at_peak i r \<Longrightarrow> i \<notin> set js \<Longrightarrow> held_at_peak i (fold clear_marker js r)"
  by (induction js arbitrary: r) (auto simp: held_clear)

lemma held_observation:
  assumes "held_at_peak i r"
  shows "held_at_peak i (apply_observation v snap r)"
proof -
  have "i \<notin> set (cleared_by v snap r)" using assms by (auto simp: cleared_by_def held_at_peak_def)
  moreover have "held_at_peak i (r\<lparr>r_snap := a, r_bootGPU := b\<rparr>)" for a b
    using assms held_cong [of "r\<lparr>r_snap := a, r_bootGPU := b\<rparr>" r i] by simp
  ultimately show ?thesis by (simp add: apply_observation_def Let_def held_fold_clear)
qed

lemma held_mark: "held_at_peak i r \<Longrightarrow> j \<noteq> i \<Longrightarrow> held_at_peak i (mark_residual at j r)"
  using held_cong [of "mark_residual at j r" r i] by (simp add: mark_residual_def)

lemma held_fold_mark: "held_at_peak i r \<Longrightarrow> i \<notin> set js \<Longrightarrow> held_at_peak i (fold (mark_residual at) js r)"
  by (induction js arbitrary: r) (auto simp: held_mark)

lemma held_peak: "held_at_peak i r \<Longrightarrow> held_at_peak i (ensure_peak j r)"
  by (auto simp: held_at_peak_def ensure_peak_def split: option.splits)

lemma held_tentative:
  assumes "held_at_peak i r" "e_model ev = i \<Longrightarrow> e_class ev \<notin> {RecUnloadedIdle, RecFailedNotResidentIdle}"
  shows "held_at_peak i (tentative ev r)"
proof -
  have marker: "held_at_peak i (r'\<lparr>r_residualAfter := f\<rparr>)" if "held_at_peak i r'" "f i = None" for r' f
    using that by (auto simp: held_at_peak_def split: option.splits)
  have "r_residualAfter r i = None" using assms(1) by (simp add: held_at_peak_def)
  then show ?thesis
    using assms by (auto simp: tentative_def Let_def intro!: held_peak marker split: recovery_class.split)
qed

lemma held_confirm: "held_at_peak i (confirm_recover v ev r) = held_at_peak i r"
  by (rule held_cong) (auto simp: confirm_recover_def note_recovered_ready_def Let_def)

lemma held_recover:
  assumes "held_at_peak i r" "\<not> releases i (RRecover ev ans)"
  shows "held_at_peak i (on_recover v ev ans r)"
proof -
  have "held_at_peak i (tentative ev r)" if "e_kind ev \<noteq> StatusErrEndpointDown"
    using assms that by (intro held_tentative) (auto simp: releases_def)
  then show ?thesis
    using assms(1)
    by (auto simp: on_recover_def Let_def finish_shutdown_def held_confirm held_peak restore_tentative
        split: apply_answer.split)
qed

lemma held_loaded: "held_at_peak i r \<Longrightarrow> held_at_peak i (note_loaded v j r)"
  by (auto simp: held_at_peak_def note_loaded_def Let_def model_at_def models_of_def split: option.splits)

lemma held_admit: "held_at_peak i r \<Longrightarrow> held_at_peak i (snd (admit_load v j r))"
  by (auto simp: held_at_peak_def admit_load_def model_at_def models_of_def split: option.splits)

lemma held_step:
  assumes "held_at_peak i r" "\<not> releases i e"
  shows "held_at_peak i (router_step r (v, e))"
proof (cases e)
  case (RUnload n)
  then show ?thesis
    using assms by (auto simp: releases_def finish_unload_def intro!: held_observation held_fold_mark)
next
  case (RSwapDone j err)
  have "held_at_peak i (r'\<lparr>r_loadSerial := x\<rparr>) = held_at_peak i r'" for r' x by (rule held_cong) simp_all
  then show ?thesis using assms(1) RSwapDone by (simp add: swap_done_def Let_def held_loaded)
next
  case (RServeDone j)
  have "held_at_peak i (note_use v j r) = held_at_peak i r" by (rule held_cong) (simp_all add: note_use_def)
  then show ?thesis using assms(1) RServeDone by simp
next
  case (RStatus j st err gen)
  have "held_at_peak i (r\<lparr>r_lastStatus := x\<rparr>) = held_at_peak i r" for x by (rule held_cong) simp_all
  then show ?thesis using assms(1) RStatus by simp
next
  case (RReleased j at snap)
  then show ?thesis using assms by (auto simp: releases_def intro!: held_observation held_mark)
next
  case (RUnconfirmed ids)
  have "held_at_peak i (r\<lparr>r_unconfirmed := ids\<rparr>) = held_at_peak i r" by (rule held_cong) simp_all
  then show ?thesis using assms(1) RUnconfirmed by simp
qed (use assms in \<open>simp_all add: finish_shutdown_def grant_load_def held_admit held_observation held_recover\<close>)

lemma held_run: "held_at_peak i r \<Longrightarrow> \<forall>ve \<in> set ves. \<not> releases i (snd ve) \<Longrightarrow> held_at_peak i (run router_step r ves)"
proof (induction ves arbitrary: r)
  case (Cons ve ves)
  then show ?case using held_step [of i r "snd ve" "fst ve"] by simp
qed simp

lemma admitted_is_held: "admit_load v i r = (None, r') \<Longrightarrow> r_residualAfter r i = None \<Longrightarrow> held_at_peak i r'"
  by (auto simp: admit_load_def held_at_peak_def model_at_def models_of_def split: if_splits option.splits)

section \<open>Properties\<close>

text \<open>C11: When a step of the loop starts the load of a model, the unloads and losses of
  all models the router knows of have been followed by a sample of the device: none is still held at
  its peak only until a sample. The exception is a model whose load is already running.\<close>

theorem loads_wait_for_samples:
  assumes "EStartLoad i \<in> set (new_calls r (router_step r (v, e)))"
  shows "(\<forall>j \<in> set (map fst (v_states v)). r_residualAfter (router_step r (v, e)) j = None)
    \<or> router_state v i = Some StateStarting \<and> i \<in> v_inflight v"
proof -
  obtain es where "out (r_sched (router_step r (v, e))) = out (r_sched r) @ es"
    "\<forall>i. EStartLoad i \<in> set es \<longrightarrow> settled_ledger v (router_step r (v, e)) i \<and> router_state v i \<noteq> Some StateReady"
    using clean_step [of v r e] unfolding clean_loads_def by blast
  moreover from this(1) have "new_calls r (router_step r (v, e)) = es" by (simp add: new_calls_def)
  ultimately have "settled_ledger v (router_step r (v, e)) i" "router_state v i \<noteq> Some StateReady"
    using assms by auto
  then show ?thesis unfolding settled_ledger_def by blast
qed

theorem loads_wait_for_samples_witness:
  "EStartLoad ''b'' \<in> set (new_calls (booted 95) (router_step (booted 95) (both_stopped, first_request)))
   \<and> r_residualAfter (router_step (booted 95) (both_stopped, first_request)) ''a'' = None"
proof -
  have s: "EStartLoad ''b'' \<in> set (new_calls (booted 95) (router_step (booted 95) (both_stopped, first_request)))"
    by code_simp
  have "''a'' \<in> set (map fst (v_states both_stopped))" "\<not> ''b'' \<in> v_inflight both_stopped"
    by (simp_all add: both_stopped_def demo_view_def)
  then show ?thesis using loads_wait_for_samples [OF s] s by blast
qed

end
