(* ===== verification/Mock_Client.thy ===== *)
theory Mock_Client
  imports Mock_Inv Client_Props
begin

text \<open>
  The client against the mock runtime: whatever faults a test injects and however requests, jobs
  and waits interleave, a status the client accepts is one the runtime had, after the request was
  sent. So a client that takes its runtime for ready or stopped is right about what the runtime
  held at some moment of the operation.
\<close>

section \<open>Replies\<close>

text \<open>A reply read as a status, if it is one, reads as one of \<open>H\<close>.\<close>

definition truthful :: "status set \<Rightarrow> mock_reply \<Rightarrow> bool" where
  "truthful H r = (fst r = 200 \<longrightarrow> (\<forall>st. parse_status (snd r) = Inr st \<longrightarrow> st \<in> H))"

lemma truthful_mono: "truthful H r \<Longrightarrow> H \<subseteq> H' \<Longrightarrow> truthful H' r"
  by (auto simp: truthful_def)

lemma parse_object:
  "numbers_ok (JObj ms) \<Longrightarrow> parse_status (json_text (JObj ms) @ [CHR 0x0A]) = parse_status_members ms"
  using parse_text [of "JObj ms" "[CHR 0x0A]"] by (simp add: parse_status_def json_space_def)

lemma parse_int64_large:
  assumes "2 ^ 63 \<le> i"
  shows "parse_int64 (int_text i) = None"
proof -
  obtain c cs where c: "nat_text (nat i) = c # cs"
    using nat_text_digits(1) by (cases "nat_text (nat i)") auto
  have "c \<noteq> CHR ''-''" "c \<noteq> CHR ''+''"
    using nat_text_digits(2) [of "nat i"] c by (auto simp: is_digit_def)
  then show ?thesis
    using nat_text_value [of "nat i"] assms c by (simp add: parse_int64_def int_text_def Let_def)
qed

text \<open>A count beyond the client's integers makes the client reject the document.\<close>

lemma encoded_status_true:
  assumes "status_ok st" "parse_status (encode_status st) = Inr st'"
  shows "st' = st"
proof (cases "activeRequests st < 2 ^ 63")
  case True
  then show ?thesis using assms parse_encoded_status [of st] by (simp add: status_ok_def)
next
  case False
  let ?ms = "[(''state'', JStr (wire_text (wire st))), (''residency'', JStr (residency_text (resid st))),
    (''active_requests'', JNum (int_text (activeRequests st))), (''last_error'', last_error_json (lastError st))]"
  have "numbers_ok (JObj ?ms)"
    using assms(1) parse_nat_text [of "nat (activeRequests st)"]
    by (simp add: last_error_json_def valid_number int_text_def status_ok_def split: option.split)
  then have p: "parse_status_members ?ms = Inr st'"
    using assms(2) parse_object [of ?ms] by (simp add: encode_status_def)
  have "decode_active (JNum (int_text (activeRequests st))) = Inl (status_error ''active_requests must be an integer'')"
    using False parse_int64_large [of "activeRequests st"] by (simp add: decode_active_def)
  moreover have "member_at ?ms ''active_requests'' = Some (JNum (int_text (activeRequests st)))"
    by (simp add: member_at_def)
  ultimately have False
    using p by (auto simp only: parse_status_members_def and_then_Inr option.sel sum.distinct split: list.splits)
  then show ?thesis ..
qed

lemma truthful_status: "status_ok st \<Longrightarrow> st \<in> H \<Longrightarrow> truthful H (status_reply st)"
  using encoded_status_true by (auto simp: truthful_def status_reply_def)

lemma truthful_control: "code \<noteq> 200 \<Longrightarrow> truthful H (control_reply code msg c)"
  by (simp add: truthful_def control_reply_def)

lemma truthful_object:
  assumes "numbers_ok (JObj ms)" "\<not> isl (parse_status_members ms) \<Longrightarrow> False"
  shows "truthful H (json_reply code (JObj ms))"
proof -
  have "snd (json_reply code (JObj ms)) = json_text (JObj ms) @ [CHR 0x0A]" by (simp only: json_reply_def snd_conv)
  then have "parse_status (snd (json_reply code (JObj ms))) = parse_status_members ms"
    using parse_object [OF assms(1)] by metis
  then show ?thesis using assms(2) by (auto simp: truthful_def)
qed

lemma missing_member:
  assumes "k \<in> set status_keys" "member_at ms k = None"
  shows "isl (parse_status_members ms)"
proof -
  have "filter (\<lambda>k. member_at ms k = None) status_keys \<noteq> []" using assms by (auto simp: filter_empty_conv)
  then show ?thesis by (auto simp: parse_status_members_def split: list.split)
qed

lemma truthful_infer: "truthful H (infer_reply m)"
  unfolding infer_reply_def
proof (rule truthful_object)
  show "numbers_ok (JObj [(''choices'', JArr [JObj [(''index'', JNum ''0''),
      (''message'', JObj [(''content'', JStr (mk_name m)), (''role'', JStr ''assistant'')])]]),
      (''id'', JStr ''mock''), (''object'', JStr ''chat.completion'')])"
    by (simp add: valid_number) code_simp
qed (use missing_member [of "''state''"] in \<open>simp add: status_keys_def member_at_def\<close>)

lemma truthful_prepare: "truthful H (json_reply 200 (JObj [(''ok'', JBool True)]))"
  by (rule truthful_object) (simp_all add: missing_member [of "''state''"] status_keys_def member_at_def)

lemma malformed_status: "json_parse (''{'' @ json_string ''state'' @ '':'') = None"
  by code_simp

text \<open>What the fault modes send is rejected by \<open>ParseStatus\<close>.\<close>

lemma mode_docs:
  "numbers_ok (status_doc a r s) = (case a of None \<Rightarrow> True | Some j \<Rightarrow> numbers_ok j)"
  "isl (parse_status_members (case status_doc None ''not_resident'' ''unloaded'' of JObj ms \<Rightarrow> ms))"
  "isl (parse_status_members (case status_doc (Some JNull) ''not_resident'' ''unloaded'' of JObj ms \<Rightarrow> ms))"
  "isl (parse_status_members (case status_doc (Some (JNum ''-1'')) ''resident'' ''ready'' of JObj ms \<Rightarrow> ms))"
  "isl (parse_status_members (case status_doc (Some (JNum ''0'')) ''not_resident'' ''ready'' of JObj ms \<Rightarrow> ms))"
  by ((simp add: status_doc_def split: option.split), code_simp+)

lemma doc_object: "status_doc a r s = JObj (case status_doc a r s of JObj ms \<Rightarrow> ms)"
  by (simp add: status_doc_def)

lemma truthful_doc:
  assumes "numbers_ok (status_doc a r s)" "isl (parse_status_members (case status_doc a r s of JObj ms \<Rightarrow> ms))"
  shows "truthful H (json_reply code (status_doc a r s))"
  using truthful_object [of "case status_doc a r s of JObj ms \<Rightarrow> ms" H code] assms
  unfolding doc_object [symmetric] by blast

lemma valid_small: "valid_number ''-1''" "valid_number ''0''"
  by code_simp+

lemma truthful_mode:
  assumes "status_ok st" "st \<in> H"
  shows "truthful H (mode_reply mode st)"
proof (cases mode)
  case StatusMalformed
  then show ?thesis using malformed_status by (simp add: truthful_def mode_reply_def parse_status_def)
qed (use assms in \<open>simp_all add: mode_reply_def truthful_status truthful_control truthful_doc mode_docs valid_small\<close>)

section \<open>What was said along a run\<close>

text \<open>The statuses the runtime has from \<open>m\<close> on, along the events.\<close>

fun shown :: "mock \<Rightarrow> mock_event list \<Rightarrow> status list" where
  "shown m [] = [status_locked m]"
| "shown m (e # es) = status_locked m # shown (mock_step m e) es"

definition said_truly :: "status set \<Rightarrow> mock_stage \<Rightarrow> bool" where
  "said_truly H st =
     (case st of
        CallEnded (Some r) \<Rightarrow> truthful H r
      | CallStatus _ captured _ \<Rightarrow> captured \<in> H \<and> status_ok captured
      | _ \<Rightarrow> True)"

text \<open>The requests from number \<open>n\<close> on.\<close>

definition honest :: "nat \<Rightarrow> status set \<Rightarrow> mock \<Rightarrow> bool" where
  "honest n H m = (\<forall>i. n \<le> i \<longrightarrow> i < length (mk_calls m) \<longrightarrow> said_truly H (mc_stage (mk_calls m ! i)))"

lemma said_mono: "said_truly H st \<Longrightarrow> H \<subseteq> H' \<Longrightarrow> said_truly H' st"
  by (auto simp: said_truly_def truthful_mono split: mock_stage.splits option.splits)

lemma honest_mono: "honest n H m \<Longrightarrow> H \<subseteq> H' \<Longrightarrow> honest n H' m"
  using said_mono by (auto simp: honest_def)

lemma honest_cong: "mk_calls m' = mk_calls m \<Longrightarrow> honest n H m' = honest n H m"
  by (simp add: honest_def)

lemma honest_add: "honest n H m \<Longrightarrow> said_truly H st \<Longrightarrow> honest n H (add_call st m)"
  by (auto simp: honest_def add_call_def nth_append less_Suc_eq)

lemma honest_answer: "honest n H m \<Longrightarrow> truthful H r \<Longrightarrow> honest n H (answer r m)"
  unfolding answer_def by (rule honest_add) (simp_all add: said_truly_def)

lemma honest_stage: "honest n H m \<Longrightarrow> n \<le> i \<longrightarrow> said_truly H st \<Longrightarrow> honest n H (set_stage i st m)"
  by (cases "i < length (mk_calls m)") (auto simp: honest_def set_stage_def nth_list_update)

lemma honest_reply: "honest n H m \<Longrightarrow> n \<le> i \<longrightarrow> truthful H r \<Longrightarrow> honest n H (reply_to i r m)"
  unfolding reply_to_def by (rule honest_stage) (simp_all add: said_truly_def)

lemma honest_frame [simp]:
  "honest n H (tick f m) = honest n H m" "honest n H (reach g m) = honest n H m"
  "honest n H (become st r e m) = honest n H m" "honest n H (cleared m) = honest n H m"
  "honest n H (add_active d m) = honest n H m" "honest n H (finish_inference m) = honest n H m"
  "honest n H (m\<lparr>mk_state := x1\<rparr>) = honest n H m" "honest n H (m\<lparr>mk_residency := x2\<rparr>) = honest n H m"
  "honest n H (m\<lparr>mk_alive := x3\<rparr>) = honest n H m" "honest n H (m\<lparr>mk_load := l\<rparr>) = honest n H m"
  "honest n H (m\<lparr>mk_unload := l\<rparr>) = honest n H m" "honest n H (m\<lparr>mk_jobs := js\<rparr>) = honest n H m"
  "honest n H (m\<lparr>mk_lastPath := x\<rparr>) = honest n H m" "honest n H (m\<lparr>mk_lastBody := x\<rparr>) = honest n H m"
  "honest n H (m\<lparr>mk_lastType := x\<rparr>) = honest n H m"
  by (simp_all add: honest_def mock_parts)

lemma honest_hook: "honest n H (apply_hook hk m) = honest n H m"
  by (rule honest_cong, cases hk) (simp_all add: mock_parts)

lemma honest_load:
  assumes "honest n H m" "status_ok (status_locked m)" "status_locked m \<in> H"
  shows "honest n H (handle_load rq m)"
  using assms
  by (auto simp: handle_load_def begin_load_def Let_def truthful_control truthful_status said_truly_def
      intro!: honest_answer honest_add split: option.split)

lemma honest_unload:
  assumes "honest n H m" "status_ok (status_locked m)" "status_locked m \<in> H" "status_locked (handle_unload rq m) \<in> H"
    "status_ok (status_locked (handle_unload rq m))"
  shows "honest n H (handle_unload rq m)"
  using assms
  by (auto simp: handle_unload_def begin_unload_def Let_def truthful_control truthful_status said_truly_def
      intro!: honest_answer honest_add split: option.split if_splits)

lemma honest_status:
  assumes "honest n H m" "status_ok (status_locked m)" "status_locked m \<in> H"
  shows "honest n H (handle_status rq m)"
  using assms
  by (auto simp: handle_status_def Let_def truthful_control truthful_mode said_truly_def
      intro!: honest_answer honest_add split: option.split)

lemma truthful_404: "truthful H (404, b)"
  by (simp add: truthful_def)

lemma honest_inference: "honest n H m \<Longrightarrow> honest n H (handle_inference rq m)"
  by (auto simp: handle_inference_def Let_def truthful_control truthful_404 said_truly_def
      intro!: honest_answer honest_add)

lemma honest_prepare: "honest n H m \<Longrightarrow> honest n H (handle_prepare rq m)"
  by (auto simp: handle_prepare_def Let_def truthful_control said_truly_def intro!: honest_answer honest_add)

lemma honest_job: "honest n H m \<Longrightarrow> honest n H (run_job k m)"
  by (auto simp: run_job_def end_job_def end_load_def end_unload_def Let_def split: job.split load_fail.split)

lemma honest_infer_ends: "honest n H m \<Longrightarrow> honest n H (infer_ends i m)"
  by (simp add: infer_ends_def Let_def honest_reply truthful_infer)

lemma finish_prepare_reply:
  "truthful H (fst (finish_prepare already fail m))" "honest n H (snd (finish_prepare already fail m)) = honest n H m"
  by (simp_all add: finish_prepare_def Let_def truthful_control truthful_prepare)

lemma honest_advance:
  assumes "honest n H m" "status_ok (status_locked m)" "status_locked m \<in> H" "n \<le> i \<longrightarrow> said_truly H st"
  shows "honest n H (advance i gone st m)"
proof (cases st)
  case (CallStatus mode captured h)
  then show ?thesis using assms by (auto simp: advance_def said_truly_def truthful_mode intro!: honest_reply)
next
  case (CallPrepare already fail)
  then show ?thesis
    using assms finish_prepare_reply
    by (auto simp: advance_def Let_def split_beta intro!: honest_reply)
qed (use assms in \<open>auto simp: advance_def Let_def load_reply_def unload_reply_def truthful_control truthful_status
       said_truly_def honest_infer_ends intro!: honest_reply honest_stage\<close>)

lemma honest_cancel: "honest n H m \<Longrightarrow> honest n H (cancel i st m)"
  by (auto simp: cancel_def said_truly_def truthful_control intro!: honest_stage honest_reply split: mock_stage.split)

lemma honest_step:
  assumes "honest n H m" "status_ok (status_locked m)" "hook_ok e" "status_locked m \<in> H" "status_locked (mock_step m e) \<in> H"
  shows "honest n H (mock_step m e)"
proof (cases e)
  case (MkPublic rq)
  then show ?thesis
    using assms ok_unload [of m rq] honest_unload [of n H m rq]
    by (auto simp: public_def said_truly_def honest_load honest_status honest_inference intro!: honest_add split: if_splits)
next
  case (MkAdvance i)
  then show ?thesis using assms by (auto simp: honest_def [of n H m] intro!: honest_advance)
next
  case (MkGone i)
  then show ?thesis using assms(1) by (auto simp: honest_def nth_list_update)
qed (use assms in \<open>auto simp: honest_prepare honest_job honest_cancel honest_hook truthful_404 intro!: honest_answer\<close>)

lemma honest_run:
  "honest n H m \<Longrightarrow> status_ok (status_locked m) \<Longrightarrow> run_ok mock_step (\<lambda>_. hook_ok) m es \<Longrightarrow> set (shown m es) \<subseteq> H
   \<Longrightarrow> honest n H (run mock_step m es)"
proof (induction es arbitrary: m)
  case (Cons e es)
  have ok: "hook_ok e" and rest: "run_ok mock_step (\<lambda>_. hook_ok) (mock_step m e) es" using Cons.prems(3) by simp_all
  have s: "status_locked m \<in> H" "set (shown (mock_step m e) es) \<subseteq> H" using Cons.prems(4) by simp_all
  moreover have "status_locked (mock_step m e) \<in> set (shown (mock_step m e) es)" by (cases es) simp_all
  ultimately have "honest n H (mock_step m e)"
    using honest_step [OF Cons.prems(1,2) ok] by blast
  then show ?case using Cons.IH [OF _ ok_step [OF Cons.prems(2) ok] rest s(2)] by simp
qed simp

lemma honest_since:
  assumes "status_ok (status_locked m)" "run_ok mock_step (\<lambda>_. hook_ok) m es"
  shows "honest (length (mk_calls m)) (set (shown m es)) (run mock_step m es)"
proof -
  have "honest (length (mk_calls m)) (set (shown m es)) m" by (simp add: honest_def)
  then show ?thesis using honest_run assms by blast
qed

section \<open>What the client heard\<close>

text \<open>
  An answer the client got to one of the requests from number \<open>n\<close> on: a request fails, or its
  answer arrives whole.
\<close>

definition heard :: "nat \<Rightarrow> mock \<Rightarrow> http_answer \<Rightarrow> bool" where
  "heard n m a =
     (case a of
        Failed _ \<Rightarrow> True
      | Response code body err \<Rightarrow>
          err = None
          \<and> list_ex (\<lambda>c. mc_stage c = CallEnded (Some (code, body))) (drop n (mk_calls m)))"

lemma heard_truthful:
  assumes "honest n H m" "heard n m (Response code body err)"
  shows "truthful H (code, body)"
proof -
  obtain c where c: "c \<in> set (drop n (mk_calls m))" "mc_stage c = CallEnded (Some (code, body))"
    using assms(2) by (auto simp: heard_def list_ex_iff)
  then obtain i where "i < length (drop n (mk_calls m))" "c = drop n (mk_calls m) ! i"
    by (auto simp: in_set_conv_nth)
  then have "n + i < length (mk_calls m)" "c = mk_calls m ! (n + i)" by simp_all
  then show ?thesis using assms(1) c(2) by (auto simp: honest_def said_truly_def dest: spec [of _ "n + i"])
qed

lemma heard_reports:
  assumes "honest n H m" "heard n m a" "reports p a"
  shows "\<exists>st \<in> H. p st"
proof (cases a)
  case (Response code body err)
  then obtain st where "code = 200" "parse_status body = Inr st" "p st"
    using assms(3) by (auto simp: reports_def fetch_status_def split: option.splits if_splits sum.splits)
  then show ?thesis using heard_truthful [of n H m code body err] assms(1,2) Response by (auto simp: truthful_def)
qed (use assms in \<open>simp add: reports_def fetch_status_def\<close>)

lemma heard_posted:
  assumes "honest n H m" "heard n m a" "posted path p a"
  shows "\<exists>st \<in> H. p st"
proof (cases a)
  case (Response code body err)
  then obtain st where "code = 200" "parse_status body = Inr st" "p st"
    using assms(3) by (auto simp: posted_def post_control_def split: option.splits if_splits sum.splits)
  then show ?thesis using heard_truthful [of n H m code body err] assms(1,2) Response by (auto simp: truthful_def)
qed (use assms in \<open>simp add: posted_def post_control_def\<close>)

definition ensure_answers :: "ensure_env \<Rightarrow> http_answer list" where
  "ensure_answers env =
     [en_first env, en_second env, en_post env, en_observed env]
       @ map wp_status (en_waitPolls env @ en_loadPolls env)"

definition stop_answers :: "stop_env \<Rightarrow> http_answer list" where
  "stop_answers env = [se_first env, se_post env, se_observed env]"

text \<open>
  What an event of the client's loop heard of the runtime. The class a probe hands over is that of a
  status it was answered with.
\<close>

definition probe_reply :: "apply_cmd \<Rightarrow> mock_stage \<Rightarrow> bool" where
  "probe_reply cmd st =
     (case st of
        CallEnded (Some r) \<Rightarrow>
          (case fetch_status (Response (fst r) (snd r) None) of
             Inr remote \<Rightarrow> ac_class cmd = classify_recovery remote | Inl _ \<Rightarrow> False)
      | _ \<Rightarrow> False)"

definition hears :: "nat \<Rightarrow> mock \<Rightarrow> client_event \<Rightarrow> bool" where
  "hears n m e =
     (case e of
        COpDone env \<Rightarrow> list_all (heard n m) (ensure_answers env)
      | CStrayDone _ env \<Rightarrow> list_all (heard n m) (ensure_answers env)
      | CStopDone env \<Rightarrow> list_all (heard n m) (stop_answers env)
      | CReconcile _ a \<Rightarrow> heard n m a
      | CApply _ cmd \<Rightarrow>
          list_ex (\<lambda>c. probe_reply cmd (mc_stage c)) (drop n (mk_calls m))
      | _ \<Rightarrow> True)"

text \<open>Ready is taken for a model that is loaded, stopped for one that is not and serves nobody.\<close>

definition fits_state :: "rstate \<Rightarrow> status \<Rightarrow> bool" where
  "fits_state s st =
     (if s = StateReady then is_ready st else resid st = ResidencyNotResident \<and> activeRequests st = 0)"

lemma ready_answer:
  assumes "confirms_ready env"
  shows "\<exists>a \<in> set (ensure_answers env). reports is_ready a \<or> posted ''/control/load'' is_ready a"
  using assms unfolding confirms_ready_def ensure_answers_def list_ex_iff by auto

lemma unloaded_answer:
  assumes "confirms_unloaded env"
  shows "\<exists>a \<in> set (stop_answers env). reports is_unloaded a \<or> posted ''/control/unload'' is_unloaded a"
  using assms unfolding confirms_unloaded_def stop_answers_def by auto

lemma confirmed_heard:
  assumes "honest n H m" "hears n m e" "confirmed s c e" "s = StateReady \<or> s = StateStopped"
  shows "\<exists>st \<in> H. fits_state s st"
proof -
  have u: "is_unloaded st \<Longrightarrow> fits_state StateStopped st" and r: "is_ready st \<Longrightarrow> fits_state StateReady st" for st
    by (simp_all add: fits_state_def is_unloaded_def)
  show ?thesis
  proof (cases e)
    case (COpDone env)
    then have "s = StateReady" "confirms_ready env" "\<forall>a \<in> set (ensure_answers env). heard n m a"
      using assms by (auto simp: confirmed_def hears_def list_all_iff)
    then show ?thesis
      using ready_answer heard_reports [OF assms(1)] heard_posted [OF assms(1)] r by blast
  next
    case (CStrayDone k env)
    then have "s = StateReady" "confirms_ready env" "\<forall>a \<in> set (ensure_answers env). heard n m a"
      using assms by (auto simp: confirmed_def hears_def list_all_iff)
    then show ?thesis
      using ready_answer heard_reports [OF assms(1)] heard_posted [OF assms(1)] r by blast
  next
    case (CStopDone env)
    then have "s = StateStopped" "confirms_unloaded env" "\<forall>a \<in> set (stop_answers env). heard n m a"
      using assms by (auto simp: confirmed_def hears_def list_all_iff)
    then show ?thesis
      using unloaded_answer heard_reports [OF assms(1)] heard_posted [OF assms(1)] u by blast
  next
    case (CReconcile i a)
    then have "heard n m a" "reports (if s = StateReady then is_ready else is_unloaded) a"
      using assms(2,3) by (simp_all add: confirmed_def hears_def)
    then show ?thesis using heard_reports [OF assms(1)] assms(4) u r by (cases "s = StateReady") (auto, blast+)
  next
    case (CApply i cmd)
    then obtain call where call: "call \<in> set (drop n (mk_calls m))" "probe_reply cmd (mc_stage call)"
      using assms(2) by (auto simp: hears_def list_ex_iff)
    obtain code body st where r: "mc_stage call = CallEnded (Some (code, body))"
      and a: "fetch_status (Response code body None) = Inr st" "ac_class cmd = classify_recovery st"
      using call(2) by (auto simp: probe_reply_def split: mock_stage.splits option.splits sum.splits)
    have h: "heard n m (Response code body None)" using call(1) r by (auto simp: heard_def list_ex_iff)
    have "fits_state s st"
      using assms(3,4) a(2) CApply
      by (auto simp: confirmed_def fits_state_def is_ready_def classify_recovery_def split: if_splits)
    then show ?thesis using heard_reports [OF assms(1) h, of "fits_state s"] a(1) by (auto simp: reports_def)
  qed (use assms in \<open>simp_all add: confirmed_def\<close>)
qed

section \<open>A load\<close>

text \<open>A status request to a new runtime, a load, its job, the answer.\<close>

definition control :: "string \<Rightarrow> string \<Rightarrow> mock_request" where
  "control meth path =
     \<lparr>mq_method = meth, mq_path = path, mq_uri = path, mq_type = ''application/json'', mq_body = ''{}'',
      mq_readErr = None, mq_fault = ''''\<rparr>"

definition load_events :: "mock_event list" where
  "load_events =
     [MkPublic (control ''GET'' ''/control/status''), MkPublic (control ''POST'' ''/control/load''), MkJob 0, MkAdvance 1]"

lemma empty_object: "decode_empty_object (control m p) = None"
proof -
  have "trim_space ''{}'' = ''{}''" by (simp add: trim_space_id)
  moreover have "json_parse ''{}'' = Some (JObj [])" by code_simp
  ultimately show ?thesis by (simp add: decode_empty_object_def control_def)
qed

lemma load_replies:
  "map mc_stage (mk_calls (run mock_step (new_mock ''A'' []) load_events))
     = [CallEnded (Some (200, encode_status unloaded_status)), CallEnded (Some (200, encode_status ready_status))]"
proof -
  let ?m0 = "new_mock ''A'' []"
  let ?m1 = "mock_step ?m0 (MkPublic (control ''GET'' ''/control/status''))"
  show ?thesis
    using empty_object [of "''POST''" "''/control/load''"]
    by (simp add: load_events_def public_def handle_status_def handle_load_def begin_load_def Let_def new_mock_def
        control_def run_job_def running_def job_gate_def passes_def hit_returns_def end_job_def end_load_def advance_def
        load_reply_def status_reply_def mode_reply_def mock_parts status_locked_def hit_barrier_def
        unloaded_status_def ready_status_def)
qed

text \<open>The operation of the client that met those answers.\<close>

definition told_load :: ensure_env where
  "told_load =
     \<lparr>en_first = answers unloaded_status, en_prepBusy = False, en_prepare = PrepExit None, en_second = refused,
      en_waitNow = 0, en_waitPolls = [], en_gate = Some None, en_loadNow = 100, en_postNow = 100,
      en_post = answers ready_status, en_observed = refused, en_loadPolls = []\<rparr>"

lemma told_load_done: "snd (do_ensure demo_cfg 0 told_load) = Some None"
proof -
  have "snd (load_now (load_budget demo_cfg 0) told_load) = Some None"
    using demo_budget
    by (simp add: load_now_def post_load_def wait_load_gate_def told_load_def Let_def) (simp add: ready_status_def second_def)
  moreover have "fetch_status (en_first told_load) = Inr unloaded_status" "wire unloaded_status = WireUnloaded"
    by (simp_all add: told_load_def) (simp add: unloaded_status_def)
  ultimately show ?thesis by (simp add: do_ensure_def ensure_from_status_def)
qed

lemma told_load_ready:
  "cl_state (client_step demo_cfg (client_step demo_cfg new_client (CEnsure 1 0)) (COpDone told_load)) = StateReady"
  "cl_state (client_step demo_cfg new_client (CEnsure 1 0)) = StateStarting"
  by (simp_all add: client_step.simps new_client_def on_ensure_def told_load_done on_op_done_def client_ops)

lemma told_load_heard: "hears 0 (run mock_step (new_mock ''A'' []) load_events) (COpDone told_load)"
proof -
  have c: "map mc_stage (mk_calls (run mock_step (new_mock ''A'' []) load_events))
     = [CallEnded (Some (200, encode_status unloaded_status)), CallEnded (Some (200, encode_status ready_status))]"
    by (rule load_replies)
  have h: "heard 0 m (answers st)" if "CallEnded (Some (200, encode_status st)) \<in> set (map mc_stage (mk_calls m))" for m st
    using that by (auto simp: heard_def answers_def list_ex_iff)
  have "heard 0 (run mock_step (new_mock ''A'' []) load_events) (answers unloaded_status)"
    by (rule h) (simp only: c list.set insertI1)
  moreover have "heard 0 (run mock_step (new_mock ''A'' []) load_events) (answers ready_status)"
    by (rule h) (simp only: c list.set insertI1 insertI2)
  moreover have "heard 0 m refused" for m by (simp add: heard_def refused_def)
  ultimately show ?thesis by (simp add: hears_def ensure_answers_def told_load_def)
qed

section \<open>The client is right about its runtime\<close>

text \<open>C8: After any beginning, the runtime went through some events of its own
  while an event of the client was under way, and the client heard only answers to what it asked
  since then. If the event makes the client ready, the runtime had its model loaded at some moment
  since then; if it makes the client stopped, the runtime was without its model and served nobody.
  This holds whatever faults a test injects: delays, failing loads, malformed or contradictory
  statuses.\<close>

theorem client_is_right_about_its_runtime:
  assumes "m = run mock_step (new_mock name opts) ds" "run_ok mock_step (\<lambda>_. hook_ok) (new_mock name opts) (ds @ es)"
    and "hears (length (mk_calls m)) (run mock_step m es) e"
    and "cl_state c \<noteq> s" "cl_state (client_step cfg c e) = s" "s = StateReady \<or> s = StateStopped"
  shows "\<exists>st \<in> set (shown m es). fits_state s st"
proof -
  have ok: "run_ok mock_step (\<lambda>_. hook_ok) (new_mock name opts) ds" "run_ok mock_step (\<lambda>_. hook_ok) m es"
    using assms(1,2) by (simp_all add: run_ok_append)
  have "status_ok (status_locked m)" unfolding assms(1) by (rule mock_status.inv_run [OF ok_new ok(1)])
  then have "honest (length (mk_calls m)) (set (shown m es)) (run mock_step m es)"
    by (rule honest_since [OF _ ok(2)])
  then show ?thesis using confirmed_heard assms(3-6) state_confirmed by blast
qed

theorem client_is_right_about_its_runtime_witness:
  "cl_state (client_step demo_cfg (client_step demo_cfg new_client (CEnsure 1 0)) (COpDone told_load)) = StateReady
   \<and> (\<exists>st \<in> set (shown (new_mock ''A'' []) load_events). is_ready st)"
proof -
  have "run_ok mock_step (\<lambda>_. hook_ok) (new_mock ''A'' []) ([] @ load_events)" by (simp add: load_events_def hook_ok_def)
  moreover have "hears (length (mk_calls (new_mock ''A'' []))) (run mock_step (new_mock ''A'' []) load_events) (COpDone told_load)"
    using told_load_heard by (simp add: new_fields)
  moreover have "cl_state (client_step demo_cfg new_client (CEnsure 1 0)) \<noteq> StateReady"
    unfolding told_load_ready(2) by simp
  ultimately have "\<exists>st \<in> set (shown (new_mock ''A'' []) load_events). fits_state StateReady st"
    using client_is_right_about_its_runtime [of "new_mock ''A'' []" "''A''" "[]" "[]" load_events "COpDone told_load"
        "client_step demo_cfg new_client (CEnsure 1 0)" StateReady demo_cfg] told_load_ready(1) by simp
  then show ?thesis using told_load_ready(1) by (simp add: fits_state_def)
qed

section \<open>The runtime keeps its side\<close>

text \<open>C19: As long as no test sets its state by hand or takes its endpoint down,
  the runtime counts the inferences it works on exactly, has its model loaded while there is one,
  unloads only when there is none, runs at most one load and one unload and never both at once, and
  starts and ends balance.\<close>

theorem runtime_serves_only_while_loaded:
  assumes "WithEndpointDown \<notin> set opts" "run_ok mock_step (\<lambda>_. calm) (new_mock name opts) es"
    and "m = run mock_step (new_mock name opts) es"
  shows "mk_active m = int (in_flight m)
    \<and> (0 < in_flight m \<longrightarrow> is_ready (status_locked m) \<and> mk_load m = None \<and> mk_unload m = None)
    \<and> (mk_load m = None \<or> mk_unload m = None)
    \<and> (\<forall>n. running n m \<longrightarrow> mk_load m = Some n \<or> mk_unload m = Some n)
    \<and> LoadStarts (mk_counts m) = LoadEnds (mk_counts m) + (if mk_load m = None then 0 else 1)
    \<and> UnloadStarts (mk_counts m) = UnloadEnds (mk_counts m) + (if mk_unload m = None then 0 else 1)
    \<and> InferStarts (mk_counts m) = InferEnds (mk_counts m) + in_flight m"
proof -
  have "working m" unfolding assms(3) by (rule mock_working.inv_run [OF working_new [OF assms(1)] assms(2)])
  then have w: "at_work m" and t: "jobs_ok m" "mock_counts m" and s: "status_ok (status_locked m)"
    by (simp_all add: working_def tally_def)
  have "mk_state m = WireReady \<longrightarrow> is_ready (status_locked m)" using s by (simp add: is_ready_def status_ok_iff)
  moreover have "running n m \<longrightarrow> mk_load m = Some n \<or> mk_unload m = Some n" for n using t(1) by (auto simp: jobs_ok_def)
  moreover have "0 < in_flight m \<longrightarrow> mk_state m = WireReady" "mk_active m = int (in_flight m)"
    "mk_load m \<noteq> None \<longrightarrow> mk_state m = WireLoading" "mk_unload m \<noteq> None \<longrightarrow> mk_state m = WireUnloading"
    using w by (auto simp: at_work_def)
  ultimately show ?thesis using t(2) unfolding mock_counts_def of_open_def by fastforce
qed

lemma serving_run:
  "map mc_stage (mk_calls (run mock_step (new_mock ''A'' []) (load_events @ [MkPublic (control ''POST'' ''/v1/align'')])))
     = [CallEnded (Some (200, encode_status unloaded_status)), CallEnded (Some (200, encode_status ready_status)),
        CallInfer False]"
  using empty_object [of "''POST''" "''/control/load''"]
  by (simp add: load_events_def public_def handle_status_def handle_load_def begin_load_def Let_def new_mock_def
      control_def run_job_def running_def job_gate_def passes_def hit_returns_def end_job_def end_load_def advance_def
      load_reply_def status_reply_def mode_reply_def mock_parts status_locked_def hit_barrier_def handle_inference_def
      unloaded_status_def ready_status_def)

lemma in_flight_stages: "in_flight m = length (filter inferring (map mc_stage (mk_calls m)))"
  by (simp add: in_flight_def filter_map o_def)

theorem runtime_serves_only_while_loaded_witness:
  "(let m = run mock_step (new_mock ''A'' []) (load_events @ [MkPublic (control ''POST'' ''/v1/align'')])
    in in_flight m = 1 \<and> mk_active m = 1 \<and> is_ready (status_locked m))"
proof -
  let ?es = "load_events @ [MkPublic (control ''POST'' ''/v1/align'')]"
  have "run_ok mock_step (\<lambda>_. calm) (new_mock ''A'' []) ?es" by (simp add: load_events_def calm_def)
  note w = runtime_serves_only_while_loaded [OF _ this refl, simplified]
  have "in_flight (run mock_step (new_mock ''A'' []) ?es) = 1"
    unfolding in_flight_stages serving_run by simp
  then show ?thesis using w by (simp add: Let_def)
qed

end
