(* ===== verification/Release.thy ===== *)
theory Release
  imports Ledger Mock_Client Recovery_Client
begin

text \<open>
  The router, the client and the runtime of one model together: what an event that can release the
  reservation of a model rests on, and that a probe releases it only when the client did nothing since
  the probe began.
\<close>

section \<open>Where the router's news come from\<close>

text \<open>What an event that can release a reservation rests on: a stop of the client, or the status of a probe.\<close>

datatype ground = OnStop gdur stop_env | OnAnswer http_answer | NoGround

definition grounded :: "nat \<Rightarrow> mock \<Rightarrow> router_event \<Rightarrow> ground \<Rightarrow> bool" where
  "grounded n m e w =
     (case w of
        OnStop timeout env \<Rightarrow>
          (case e of RUnload _ \<Rightarrow> True | RReleased _ _ _ \<Rightarrow> True | _ \<Rightarrow> False)
          \<and> snd (do_stop timeout env) = None \<and> list_all (heard n m) (stop_answers env)
      | OnAnswer a \<Rightarrow>
          (case e of
             RRecover ev _ \<Rightarrow>
               heard n m a
               \<and> (case fetch_status a of Inr st \<Rightarrow> e_class ev = classify_recovery st | Inl _ \<Rightarrow> e_class ev = RecInvalid)
           | _ \<Rightarrow> False)
      | NoGround \<Rightarrow> False)"

definition gone :: "status \<Rightarrow> bool" where
  "gone st = (resid st = ResidencyNotResident \<and> activeRequests st = 0)"

lemma unloaded_is_gone: "is_unloaded st \<Longrightarrow> gone st"
  by (simp add: is_unloaded_def gone_def)

lemma grounded_release:
  assumes "honest n H m" "grounded n m e w" "releases i e"
  shows "\<exists>st \<in> H. gone st"
proof (cases w)
  case (OnStop timeout env)
  then have "confirms_unloaded env" "\<forall>a \<in> set (stop_answers env). heard n m a"
    using assms(2) do_stop_confirmed [of timeout env] by (simp_all add: grounded_def list_all_iff)
  then show ?thesis
    using unloaded_answer heard_reports [OF assms(1)] heard_posted [OF assms(1)] unloaded_is_gone by blast
next
  case (OnAnswer a)
  then obtain ev ans where e: "e = RRecover ev ans" and a: "heard n m a"
    and c: "case fetch_status a of Inr st \<Rightarrow> e_class ev = classify_recovery st | Inl _ \<Rightarrow> e_class ev = RecInvalid"
    using assms(2) by (auto simp: grounded_def split: router_event.splits)
  have k: "e_class ev \<in> {RecUnloadedIdle, RecFailedNotResidentIdle}" using assms(3) e by (simp add: releases_def)
  then obtain st where f: "fetch_status a = Inr st" "e_class ev = classify_recovery st"
    using c by (auto split: sum.splits)
  have "gone st" using k f(2) by (auto simp: classify_recovery_def gone_def split: if_splits)
  then have "reports gone a" using f(1) by (simp add: reports_def)
  then show ?thesis using heard_reports [OF assms(1) a] by blast
qed (use assms in \<open>simp add: grounded_def\<close>)

section \<open>A probe that releases is current\<close>

fun starts :: "client_eff list \<Rightarrow> nat list" where
  "starts [] = []"
| "starts (StartOp g _ # es) = g # starts es"
| "starts (_ # es) = starts es"

lemma starts_append [simp]: "starts (es @ fs) = starts es @ starts fs"
  by (induction es rule: starts.induct) simp_all

lemma starts_notify [simp]: "starts (map (\<lambda>w. Reply w err) ws) = []"
  by (induction ws) simp_all

text \<open>An operation that is started takes a new generation.\<close>

lemma starts_frame [simp]:
  "starts (cl_out (set_state st rs s)) = starts (cl_out s)" "starts (cl_out (drop_proxy s)) = starts (cl_out s)"
  "starts (cl_out (install_proxy s)) = starts (cl_out s)" "starts (cl_out (cancel_op s)) = starts (cl_out s)"
  "starts (cl_out (notify err s)) = starts (cl_out s)" "starts (cl_out (say (Reply i err) s)) = starts (cl_out s)"
  "starts (cl_out (say (Ack i x) s)) = starts (cl_out s)"
  by (simp_all add: set_state_def drop_proxy_def install_proxy_def cancel_op_def notify_def say_def split: option.split)

lemma starts_parts [simp]:
  "starts (cl_out (accept_apply cmd s)) = starts (cl_out s)" "starts (cl_out (apply_reconcile a s)) = starts (cl_out s)"
  by (simp_all add: accept_apply_def apply_reconcile_def Let_def split: recovery_class.split sum.split wire_state.split)

lemma starts_step:
  assumes "cl_gen (client_step cfg s e) = cl_gen s"
  shows "starts (cl_out (client_step cfg s e)) = starts (cl_out s)"
  using assms
  by (cases e)
    (auto simp: client_step.simps on_shutdown_client_def on_reconcile_def on_apply_def on_ensure_def on_op_done_def
      on_stray_done_def on_stop_def on_stop_stray_def on_stop_done_def Let_def split: option.split rstate.split prod.split)

lemma starts_run:
  "cl_gen (run (client_step cfg) s es) = cl_gen s \<Longrightarrow> starts (cl_out (run (client_step cfg) s es)) = starts (cl_out s)"
proof (induction es arbitrary: s)
  case (Cons e es)
  let ?t = "client_step cfg s e"
  have "cl_gen s \<le> cl_gen ?t" "cl_gen ?t \<le> cl_gen (run (client_step cfg) ?t es)" by (rule gen_step gen_run)+
  then have "cl_gen ?t = cl_gen s" "cl_gen (run (client_step cfg) ?t es) = cl_gen ?t" using Cons.prems by simp_all
  then show ?case using Cons.IH [of ?t] starts_step [of cfg s e] by simp
qed simp

text \<open>What the router does with an answer that is not applied never lowers the reservation.\<close>

lemma refused_holds:
  assumes "held_at_peak (e_model ev) r" "ack \<noteq> ApplyApplied" "calls_client ev r"
  shows "held_at_peak (e_model ev) (on_recover v ev (Answered ack shut) r)"
  using assms
  by (auto simp: on_recover_def calls_client_def Let_def finish_shutdown_def restore_tentative held_peak)

text \<open>C7: A model is held at its peak and the result of a probe of it lets the reservation go. The probe
  captured the generation of the client while no operation and no stop was in flight, asked the runtime
  for its status then, and its result went through the loop of the router and the loop of the client,
  which was receiving. Then the runtime was without the model, serving nobody, at some moment since
  the probe began, and since the capture the client has not changed and has started no operation: the
  status is not older than the last load the loop of the client asked for.\<close>

theorem probe_release_is_current:
  assumes "m = run mock_step (new_mock name opts) ds" "run_ok mock_step (\<lambda>_. hook_ok) (new_mock name opts) (ds @ es)"
    and "c0 = run (client_step cfg) new_client bs" "cl_op c0 = None" "cl_stop c0 = None"
    and "heard (length (mk_calls m)) (run mock_step m es) a"
    and "ev = probe_result q token i (cl_gen c0) completed (fetch_status a)"
    and "c = run (client_step cfg) c0 cs" "\<not> cl_ended c" "cl_stop c = None"
    and "recover_with cfg v ev shut k (r, c) = (r', c')"
    and "held_at_peak i r" "\<not> held_at_peak i r'"
  shows "same_facts c0 c \<and> starts (cl_out c) = starts (cl_out c0) \<and> list_ex gone (shown m es)"
proof -
  have i: "e_model ev = i" "e_gen ev = cl_gen c0" by (simp_all add: assms(7) probe_result_def Let_def)
  obtain ans where r': "r' = on_recover v ev ans r" using assms(11) by (auto simp: recover_with_def Let_def split: if_splits)
  have rel: "releases i (RRecover ev ans)" using held_recover [OF assms(12), of ev ans v] assms(13) r' by blast
  then have k: "e_class ev \<in> {RecUnloadedIdle, RecFailedNotResidentIdle}" by (simp add: releases_def)
  then obtain st where st: "fetch_status a = Inr st" "e_class ev = classify_recovery st"
    by (cases "fetch_status a") (auto simp: assms(7) probe_result_def Let_def)
  have "grounded (length (mk_calls m)) (run mock_step m es) (RRecover ev ans) (OnAnswer a)"
    using assms(6) st by (simp add: grounded_def)
  moreover have ok: "run_ok mock_step (\<lambda>_. hook_ok) (new_mock name opts) ds" "run_ok mock_step (\<lambda>_. hook_ok) m es"
    using assms(1,2) by (simp_all add: run_ok_append)
  moreover have "status_ok (status_locked m)" unfolding assms(1) by (rule mock_status.inv_run [OF ok_new ok(1)])
  ultimately have gone: "list_ex gone (shown m es)"
    using grounded_release [OF honest_since _ rel] by (auto simp: list_ex_iff)
  have call: "calls_client ev r"
  proof (rule ccontr)
    assume n: "\<not> calls_client ev r"
    have "e_kind ev = StatusErrNone" "e_class ev \<noteq> RecInvalid"
      using st(1) k by (auto simp: assms(7) probe_result_def Let_def classify_status_err_def)
    then have "recover_mode_of (r_sched r) (e_token ev) = RecoverDrop" using n by (simp add: calls_client_def)
    then show False using assms(12,13) by (simp add: r' on_recover_def Let_def)
  qed
  define d where "d = client_step cfg c (CApply k (cmd_of ev))"
  have d: "r' = on_recover v ev (Answered (ack_of d) shut) r"
    using assms(11) call by (auto simp: recover_with_def d_def Let_def)
  then have "ack_of d = ApplyApplied" using refused_holds [of ev r _ v shut] call assms(12,13) i(1) by blast
  then have g: "cl_gen c = cl_gen c0"
    using assms(9,10) i(2)
    by (auto simp: d_def client_step.simps on_apply_def ack_of_def say_def cmd_of_def split: if_splits)
  have "client_inv c0" using client_machine.inv_run [OF client_inv_new, of cfg bs] assms(3) by simp
  then have "same_facts c0 c" using facts_run [OF assms(4,5)] g assms(8,9) by simp
  moreover have "starts (cl_out c) = starts (cl_out c0)" using starts_run g assms(8) by simp
  ultimately show ?thesis using gone by simp
qed

text \<open>\<open>a\<close> is held at its peak; its runtime answers a status request, and the router gets the late result.\<close>

definition held_a :: router where
  "held_a = ensure_peak ''a'' awaiting"

definition status_asked :: "mock_event list" where
  "status_asked = [MkPublic (control ''GET'' ''/control/status'')]"

lemma status_replies:
  "mk_calls (run mock_step (new_mock ''A'' []) status_asked)
     = [\<lparr>mc_stage = CallEnded (Some (200, encode_status unloaded_status)), mc_gone = False\<rparr>]"
  by (simp add: status_asked_def public_def handle_status_def Let_def new_mock_def control_def status_reply_def
      mode_reply_def mock_parts status_locked_def unloaded_status_def)

theorem probe_release_is_current_witness:
  "held_at_peak ''a'' held_a
   \<and> \<not> held_at_peak ''a'' (fst (recover_with demo_cfg both_stopped late_event False 1 (held_a, new_client)))
   \<and> list_ex gone (shown (new_mock ''A'' []) status_asked)"
proof -
  let ?rc = "recover_with demo_cfg both_stopped late_event False 1 (held_a, new_client)"
  have h: "held_at_peak ''a'' held_a" "\<not> held_at_peak ''a'' (fst ?rc)" by code_simp+
  have "heard (length (mk_calls (new_mock ''A'' []))) (run mock_step (new_mock ''A'' []) status_asked) (answers unloaded_status)"
    by (simp add: heard_def answers_def status_replies new_fields)
  moreover have "late_event = probe_result (new_fifo None) 1 ''a'' (cl_gen new_client) 150 (fetch_status (answers unloaded_status))"
    by (simp add: late_event_def) (simp add: unloaded_status_def new_client_def)
  moreover have "cl_op new_client = None" "cl_stop new_client = None" "\<not> cl_ended new_client" by (simp_all add: new_client_def)
  moreover have "run_ok mock_step (\<lambda>_. hook_ok) (new_mock ''A'' []) ([] @ status_asked)"
    by (simp add: status_asked_def hook_ok_def)
  moreover have "recover_with demo_cfg both_stopped late_event False 1 (held_a, new_client) = (fst ?rc, snd ?rc)" by simp
  ultimately show ?thesis
    using h probe_release_is_current [of "new_mock ''A'' []" "''A''" "[]" "[]" status_asked new_client demo_cfg "[]"
        "answers unloaded_status" late_event "new_fifo None" 1 "''a''" 150 new_client "[]" both_stopped False 1 held_a
        "fst ?rc" "snd ?rc"]
    by simp
qed

end
