(* ===== verification/Memory.thy ===== *)
theory Memory
  imports Mock_Rest Release
begin

text \<open>
  All models together: the router and one runtime per model on one device. Whatever the order of
  their steps, the memory that the models can take is within the device.
\<close>

section \<open>One runtime and what is heard of it\<close>

text \<open>
  Since the request with number \<open>n\<close> the runtime answered truly, and if it was without its model then,
  it is so still.
\<close>

definition runtime_ok :: "nat \<Rightarrow> mock \<Rightarrow> bool" where
  "runtime_ok n m =
     (working m \<and> quiet m
      \<and> (\<exists>H. honest n H m \<and> status_locked m \<in> H \<and> ((\<exists>st \<in> H. gone st) \<longrightarrow> at_rest m)))"

lemma gone_at_rest: "quiet m \<Longrightarrow> gone (status_locked m) \<Longrightarrow> at_rest m"
  by (simp add: quiet_def gone_def)

lemma runtime_ok_start: "working m \<Longrightarrow> quiet m \<Longrightarrow> runtime_ok (length (mk_calls m)) m"
  unfolding runtime_ok_def by (auto simp: honest_def intro!: exI [of _ "{status_locked m}"] gone_at_rest)

lemma runtime_ok_step:
  assumes "runtime_ok n m" "calm e" "\<not> load_request e"
  shows "runtime_ok n (mock_step m e)"
proof -
  let ?m = "mock_step m e"
  obtain H where m: "working m" "quiet m" and H: "honest n H m" "status_locked m \<in> H" "(\<exists>st \<in> H. gone st) \<longrightarrow> at_rest m"
    using assms(1) unfolding runtime_ok_def by blast
  have rest: "quiet ?m" "at_rest m \<Longrightarrow> at_rest ?m" using rest_step [OF m assms(2)] assms(3) by blast+
  have "honest n (insert (status_locked ?m) H) ?m"
    using honest_step [of n "insert (status_locked ?m) H" m e] honest_mono [OF H(1)] H(2) m(1) calm_hook_ok [OF assms(2)]
    by (simp add: working_def subset_insertI)
  moreover have "\<exists>st \<in> insert (status_locked ?m) H. gone st \<Longrightarrow> at_rest ?m"
    using H(3) rest gone_at_rest by blast
  ultimately show ?thesis
    using working_step [OF m(1) assms(2)] rest(1) unfolding runtime_ok_def by blast
qed

lemma runtime_ok_load:
  assumes "runtime_ok n m" "calm e"
  shows "runtime_ok (length (mk_calls (mock_step m e))) (mock_step m e)"
proof -
  have m: "working m" "quiet m" using assms(1) by (simp_all add: runtime_ok_def)
  then show ?thesis using rest_step [OF m assms(2)] working_step [OF m(1) assms(2)] by (intro runtime_ok_start) simp_all
qed

text \<open>An answer that lets the router release a model is true at the moment it does.\<close>

lemma grounded_rest:
  assumes "runtime_ok n m" "grounded n m e w" "releases i e"
  shows "at_rest m"
proof -
  obtain H where H: "honest n H m" "(\<exists>st \<in> H. gone st) \<longrightarrow> at_rest m" using assms(1) unfolding runtime_ok_def by blast
  then show ?thesis using grounded_release [OF H(1) assms(2,3)] by blast
qed

section \<open>The system\<close>

text \<open>
  \<open>gs_permit\<close> and \<open>gs_since\<close> are there for the statement only. A model has a permit from an admission
  of its load, granted while no sample was awaited for it, until an event that releases it. \<open>gs_since\<close>
  counts the requests of a runtime up to the last load asked of it.
\<close>

record gpu_system =
  gs_router :: router
  gs_runtime :: "model_id \<Rightarrow> mock"
  gs_permit :: "model_id \<Rightarrow> bool"
  gs_since :: "model_id \<Rightarrow> nat"

definition new_gpu :: "config \<Rightarrow> gtime \<Rightarrow> snapshot option \<Rightarrow> (model_id \<Rightarrow> mock_option list) \<Rightarrow> gpu_system" where
  "new_gpu c wall boot opts =
     \<lparr>gs_router = new_router c wall boot, gs_runtime = (\<lambda>i. new_mock i (opts i)), gs_permit = (\<lambda>_. False),
      gs_since = (\<lambda>_. 0)\<rparr>"

text \<open>A step of the loop, with what each release it reports rests on, or a step of a runtime.\<close>

datatype gpu_event = GRouter view router_event "model_id \<Rightarrow> ground" | GRuntime model_id mock_event

definition admits :: "view \<Rightarrow> router_event \<Rightarrow> model_id \<Rightarrow> router \<Rightarrow> bool" where
  "admits v e i r = (e = RAdmit i \<and> fst (grant_load v i r) = None \<and> r_residualAfter r i = None)"

fun gpu_step :: "gpu_system \<Rightarrow> gpu_event \<Rightarrow> gpu_system" where
  "gpu_step s (GRouter v e w) =
     s\<lparr>gs_router := router_step (gs_router s) (v, e),
       gs_permit := (\<lambda>i. admits v e i (gs_router s) \<or> gs_permit s i \<and> \<not> releases i e)\<rparr>"
| "gpu_step s (GRuntime i e) =
     (let m = mock_step (gs_runtime s i) e
      in s\<lparr>gs_runtime := (gs_runtime s)(i := m),
           gs_since := (gs_since s)(i := (if load_request e then length (mk_calls m) else gs_since s i))\<rparr>)"

text \<open>The device has \<open>T\<close> bytes: what its samples may say.\<close>

definition true_sample :: "int \<Rightarrow> snapshot \<Rightarrow> bool" where
  "true_sample T s = (snap_ok s \<longrightarrow> sint (total s) \<le> T \<and> sint (free s) \<le> T)"

fun samples_of :: "router_event \<Rightarrow> snapshot list" where
  "samples_of (RObserve s) = [s]"
| "samples_of (RUnload n) = [un_sample n]"
| "samples_of (RReleased _ _ s) = [s]"
| "samples_of _ = []"

text \<open>
  The conditions on a step. Nobody tampers with the runtimes, and a load is asked of a runtime only
  with a permit. Samples are true, and a model is reported released only on answers its runtime gave
  to requests after the last load asked of it.
\<close>

fun gpu_ok :: "int \<Rightarrow> gpu_system \<Rightarrow> gpu_event \<Rightarrow> bool" where
  "gpu_ok T s (GRouter v e w) =
     (view_ok (gs_router s) (v, e) \<and> list_all (true_sample T) (samples_of e)
      \<and> list_all (\<lambda>(i, m). releases i e \<longrightarrow> grounded (gs_since s i) (gs_runtime s i) e (w i)) (models_of (gs_router s)))"
| "gpu_ok T s (GRuntime i e) = (calm e \<and> (load_request e \<longrightarrow> gs_permit s i))"

section \<open>Bytes\<close>

definition loaded_now :: "gpu_system \<Rightarrow> model_id \<Rightarrow> bool" where
  "loaded_now s i = (mk_residency (gs_runtime s i) \<noteq> ResidencyNotResident)"

text \<open>By its profile a model takes up to its peak, and without the model its runtime up to the residual.\<close>

definition need :: "(model_id \<Rightarrow> bool) \<Rightarrow> router \<Rightarrow> int" where
  "need up r = (\<Sum>im \<leftarrow> models_of r. sint (if up (fst im) then load_bound (snd im) else residual_of (snd im)))"

definition in_use :: "gpu_system \<Rightarrow> int" where
  "in_use s = need (loaded_now s) (gs_router s)"

definition claimed :: "gpu_system \<Rightarrow> model_id \<Rightarrow> bool" where
  "claimed s i = (gs_permit s i \<or> loaded_now s i)"

lemma need_mono:
  assumes "config_ok (r_cfg r)" "r_cfg r' = r_cfg r" "\<And>i. i \<in> fst ` set (models_of r) \<Longrightarrow> up' i \<Longrightarrow> up i"
  shows "need up' r' \<le> need up r"
proof -
  have "models_of r' = models_of r" using assms(2) by (simp add: models_of_def)
  moreover have "(\<Sum>im \<leftarrow> models_of r. sint (if up' (fst im) then load_bound (snd im) else residual_of (snd im)))
      \<le> (\<Sum>im \<leftarrow> models_of r. sint (if up (fst im) then load_bound (snd im) else residual_of (snd im)))"
  proof (rule sum_list_mono)
    fix im assume "im \<in> set (models_of r)"
    then show "sint (if up' (fst im) then load_bound (snd im) else residual_of (snd im))
        \<le> sint (if up (fst im) then load_bound (snd im) else residual_of (snd im))"
      using assms(3) [of "fst im"] model_bounds [OF assms(1), of "fst im" "snd im"] by auto
  qed
  ultimately show ?thesis by (simp add: need_def)
qed

lemma admit_bounds:
  assumes "capacity_ok r" "admit_load v i r = (None, r')" "(j, m) \<in> set (models_of r)"
  shows "bound_for v r j m (j = i) \<noteq> None"
proof -
  have "admit_without_evict v r i" using assms(2) by (auto simp: admit_load_def split: if_splits option.splits)
  then consider "fits_now v r i" | "others_at_residual v r i" by (auto simp: admit_without_evict_def split: if_splits)
  then show ?thesis
  proof cases
    case 1
    then show ?thesis using fits_now_iff [OF assms(1), of v i] assms(3) by blast
  next
    case 2
    then show ?thesis using assms(3) by (cases "j = i") (auto simp: others_at_residual_def list_all_iff bound_for_def)
  qed
qed

text \<open>What the ledger plans covers what is claimed.\<close>

lemma planned_covers:
  assumes ok: "capacity_ok r" and adm: "admit_load v i r = (None, r')"
    and up: "\<And>j. up j \<Longrightarrow> j = i \<or> held_at_peak j r"
  shows "need up r' \<le> planned v r'"
proof -
  obtain m where m: "model_at r i = Some m" and r': "r' = r\<lparr>r_reserved := (r_reserved r)(i \<mapsto> load_bound m), r_loadSerial := i\<rparr>"
    using adm by (auto simp: admit_load_def split: if_splits option.splits)
  have c: "config_ok (r_cfg r)" "ledger_ok r" using ok by (simp_all add: capacity_ok_def)
  have models: "models_of r' = models_of r" by (simp add: r' models_of_def)
  have "sint (if up j then load_bound n else residual_of n) \<le> sint (the (bound_for v r' j n False))"
    if j: "(j, n) \<in> set (models_of r)" for j n
  proof (cases "j = i")
    case True
    then have "n = m" using j m model_at_mem [OF c(1), of j n] by simp
    then show ?thesis using True model_bounds [OF c(1) j] by (simp add: bound_for_def r')
  next
    case False
    then obtain b where b: "bound_for v r j n False = Some b" using admit_bounds [OF ok adm j] by auto
    have eq: "bound_for v r' j n False = Some b" using b False by (simp add: bound_for_def r' router_state_def)
    have n: "model_at r j = Some n" using model_at_mem [OF c(1)] j by blast
    have "load_bound n <=s b" if "up j"
    proof -
      have "held_at_peak j r" using up that False by blast
      then show ?thesis using n b by (auto simp: held_at_peak_def bound_for_def split: option.splits)
    qed
    moreover have "sint (residual_of n) \<le> sint b"
    proof -
      have "b = load_bound n \<or> b = residual_of n"
        using b c(2) n unfolding ledger_ok_def bound_for_def by (fastforce split: option.splits if_splits)
      then show ?thesis using model_bounds [OF c(1) j] by auto
    qed
    ultimately show ?thesis using eq by (simp add: word_sle_eq)
  qed
  then show ?thesis unfolding need_def planned_def models by (intro sum_list_mono) auto
qed

section \<open>The device as the router knows it\<close>

definition known_device :: "int \<Rightarrow> router \<Rightarrow> bool" where
  "known_device T r = (r_bootGPU r \<longrightarrow> sint (total (r_snap r)) \<le> T \<and> sint (free (r_snap r)) \<le> T)"

definition same_frame :: "router \<Rightarrow> router \<Rightarrow> bool" where
  "same_frame r r' = (r_cfg r' = r_cfg r \<and> r_snap r' = r_snap r \<and> r_bootGPU r' = r_bootGPU r)"

lemma frame_simps [simp]:
  "same_frame r r" "same_frame r (tell v e r') = same_frame r r'" "same_frame r (clear_marker i r') = same_frame r r'"
  "same_frame r (note_loaded v i r') = same_frame r r'" "same_frame r (note_use v i r') = same_frame r r'"
  "same_frame r (snd (admit_load v i r')) = same_frame r r'" "same_frame r (ensure_peak i r') = same_frame r r'"
  "same_frame r (r'\<lparr>r_residualAfter := x\<rparr>) = same_frame r r'" "same_frame r (r'\<lparr>r_loadSerial := y\<rparr>) = same_frame r r'"
  "same_frame r (r'\<lparr>r_unconfirmed := z\<rparr>) = same_frame r r'" "same_frame r (r'\<lparr>r_lastStatus := u\<rparr>) = same_frame r r'"
  by (auto simp: same_frame_def tell_def clear_marker_def hold_residual_def note_loaded_def note_use_def admit_load_def
      ensure_peak_def Let_def split: option.split)

lemma frame_folds [simp]:
  "same_frame r (fold clear_marker is r') = same_frame r r'"
  "same_frame r (fold (\<lambda>i. tell v (f i)) is r') = same_frame r r'"
  "same_frame r (fold (mark_residual at) is r') = same_frame r r'"
  by (induction "is" arbitrary: r') (simp_all add: mark_residual_def)

lemma known_frame: "same_frame r r' \<Longrightarrow> known_device T r \<Longrightarrow> r_cfg r' = r_cfg r \<and> known_device T r'"
  by (simp add: same_frame_def known_device_def)

lemma frame_tentative [simp]: "same_frame r (tentative ev r') = same_frame r r'"
  by (simp add: tentative_def Let_def split: recovery_class.split)

lemma frame_confirm [simp]: "same_frame r (confirm_recover v ev r') = same_frame r r'"
  by (auto simp: confirm_recover_def note_recovered_ready_def Let_def same_frame_def)

lemma frame_recover: "same_frame r (on_recover v ev ans r)"
  by (auto simp: on_recover_def Let_def finish_shutdown_def restore_tentative split: apply_answer.split)

lemma observation_device:
  assumes "true_sample T snap"
  shows "r_cfg (apply_observation v snap r) = r_cfg r \<and> known_device T (apply_observation v snap r)"
proof -
  let ?r = "if \<not> snap_ok snap \<or> deviceID snap \<noteq> r_device r then r\<lparr>r_snap := zero_snapshot, r_bootGPU := False\<rparr>
    else r\<lparr>r_snap := snap, r_bootGPU := True\<rparr>"
  have "same_frame ?r (apply_observation v snap r)" by (simp add: apply_observation_def Let_def)
  moreover have d: "known_device T ?r" "r_cfg ?r = r_cfg r" using assms by (auto simp: known_device_def true_sample_def)
  ultimately show ?thesis using known_frame [of ?r "apply_observation v snap r" T] by simp
qed

lemma frame_step: "samples_of e = [] \<Longrightarrow> same_frame r (router_step r (v, e))"
  by (cases e) (simp_all add: finish_shutdown_def swap_done_def grant_load_def Let_def frame_recover)

lemma device_step:
  assumes "list_all (true_sample T) (samples_of e)" "known_device T r"
  shows "r_cfg (router_step r (v, e)) = r_cfg r \<and> known_device T (router_step r (v, e))"
proof -
  have obs: "r_cfg r' = r_cfg r \<and> known_device T r'"
    if "r_cfg q = r_cfg r" "true_sample T snap" "same_frame (apply_observation v snap q) r'" for q r' snap
    using observation_device [OF that(2), of v q] known_frame [OF that(3), of T] that(1) by simp
  consider n where "e = RUnload n" | snap where "e = RObserve snap" | i at snap where "e = RReleased i at snap"
    | "samples_of e = []" by (cases e) auto
  then show ?thesis
  proof cases
    case (1 n)
    have "same_frame r r' \<Longrightarrow> r_cfg r' = r_cfg r" for r r' :: router by (simp add: same_frame_def)
    from this [of r "fold (mark_residual (un_at n)) (un_ids n) r"]
    have c: "r_cfg (fold (mark_residual (un_at n)) (un_ids n) r) = r_cfg r" by simp
    show ?thesis
      using 1 assms(1) known_frame [OF _ assms(2), of "finish_unload v n r"]
        obs [OF c, of "un_sample n" "finish_unload v n r"]
      by (cases "un_err n") (simp_all add: finish_unload_def)
  next
    case (2 snap)
    then show ?thesis using assms(1) obs [of r snap] by simp
  next
    case (3 i at snap)
    then show ?thesis using assms(1) obs [of "mark_residual at i r" snap] by (simp add: mark_residual_def)
  next
    case 4
    then show ?thesis using known_frame [OF frame_step assms(2)] by blast
  qed
qed

section \<open>The invariant\<close>

text \<open>What is claimed is reserved, and fits the device as soon as there is a claim.\<close>

definition within :: "int \<Rightarrow> gpu_system \<Rightarrow> bool" where
  "within T s =
     (list_all (\<lambda>(i, m). \<not> claimed s i) (models_of (gs_router s))
      \<or> need (claimed s) (gs_router s) + sint (margin (gs_router s)) \<le> T)"

definition gpu_inv :: "int \<Rightarrow> gpu_system \<Rightarrow> bool" where
  "gpu_inv T s =
     (sched_inv (gs_router s) \<and> capacity_ok (gs_router s) \<and> known_device T (gs_router s)
      \<and> (\<forall>i. runtime_ok (gs_since s i) (gs_runtime s i))
      \<and> (\<forall>i \<in> fst ` set (models_of (gs_router s)). claimed s i \<longrightarrow> held_at_peak i (gs_router s))
      \<and> within T s)"

lemma within_mono:
  assumes "within T s" "config_ok (r_cfg (gs_router s))" "r_cfg (gs_router s') = r_cfg (gs_router s)"
    and "\<And>i. i \<in> fst ` set (models_of (gs_router s)) \<Longrightarrow> claimed s' i \<Longrightarrow> claimed s i"
  shows "within T s'"
proof -
  have m: "models_of (gs_router s') = models_of (gs_router s)" "margin (gs_router s') = margin (gs_router s)"
    using assms(3) by (simp_all add: models_of_def margin_def)
  have "need (claimed s') (gs_router s') \<le> need (claimed s) (gs_router s)"
    by (rule need_mono [OF assms(2,3,4)])
  then show ?thesis using assms(1,4) unfolding within_def m list_all_iff by force
qed

text \<open>A step of a runtime claims nothing new.\<close>

lemma loaded_step:
  assumes "runtime_ok n m" "calm e" "\<not> load_request e" "mk_residency m = ResidencyNotResident"
  shows "mk_residency (mock_step m e) = ResidencyNotResident"
proof -
  have "working m" "quiet m" using assms(1) by (simp_all add: runtime_ok_def)
  moreover have "at_rest m" using \<open>quiet m\<close> assms(4) by (simp add: quiet_def)
  ultimately show ?thesis using rest_step assms(2,3) by (simp add: at_rest_def)
qed

lemma runtime_claims:
  assumes "runtime_ok (gs_since s i) (gs_runtime s i)" "gpu_ok T s (GRuntime i e)"
  shows "claimed (gpu_step s (GRuntime i e)) j \<Longrightarrow> claimed s j"
  using assms loaded_step [of "gs_since s i" "gs_runtime s i" e]
  by (auto simp: claimed_def loaded_now_def Let_def split: if_splits)

lemma runtime_inv:
  assumes "gpu_inv T s" "gpu_ok T s (GRuntime i e)"
  shows "gpu_inv T (gpu_step s (GRuntime i e))"
proof -
  let ?s = "gpu_step s (GRuntime i e)"
  have ok: "runtime_ok (gs_since s i) (gs_runtime s i)" using assms(1) by (simp add: gpu_inv_def)
  note rev_claims = runtime_claims [OF ok assms(2)]
  have r: "gs_router ?s = gs_router s" by (simp add: Let_def)
  have "runtime_ok (gs_since ?s j) (gs_runtime ?s j)" for j
    using assms runtime_ok_step [OF ok] runtime_ok_load [OF ok] by (simp add: gpu_inv_def Let_def)
  moreover have "within T ?s"
  proof (rule within_mono)
    show "within T s" "config_ok (r_cfg (gs_router s))" using assms(1) by (simp_all add: gpu_inv_def capacity_ok_def)
    show "r_cfg (gs_router ?s) = r_cfg (gs_router s)" by (simp only: r)
    show "claimed ?s j \<Longrightarrow> claimed s j" for j by (rule rev_claims)
  qed
  ultimately show ?thesis using assms(1) rev_claims unfolding gpu_inv_def r by blast
qed

text \<open>A step of the loop: what it releases is gone, what it admits fits.\<close>

lemma router_claims:
  assumes "gpu_inv T s" "gpu_ok T s (GRouter v e w)" "i \<in> fst ` set (models_of (gs_router s))"
    and "claimed (gpu_step s (GRouter v e w)) i"
  shows "admits v e i (gs_router s) \<or> claimed s i \<and> \<not> releases i e"
proof -
  have "at_rest (gs_runtime s i)" if "releases i e"
  proof (rule grounded_rest [OF _ _ that])
    show "runtime_ok (gs_since s i) (gs_runtime s i)" using assms(1) by (simp add: gpu_inv_def)
    show "grounded (gs_since s i) (gs_runtime s i) e (w i)" using assms(2,3) that by (auto simp: list_all_iff)
  qed
  then show ?thesis using assms(4) by (auto simp: claimed_def loaded_now_def at_rest_def)
qed

lemma admits_held: "admits v e i r \<Longrightarrow> held_at_peak i (router_step r (v, e))"
  using admitted_is_held [of v i r "snd (admit_load v i r)"]
  by (auto simp: admits_def grant_load_def prod_eq_iff)

lemma admitted_within:
  assumes "gpu_inv T s" "gpu_ok T s (GRouter v e w)" "admits v e i (gs_router s)"
  shows "within T (gpu_step s (GRouter v e w))"
proof -
  let ?r = "gs_router s" and ?s = "gpu_step s (GRouter v e w)"
  obtain r' where e: "e = RAdmit i" and adm: "admit_load v i ?r = (None, r')" "gs_router ?s = r'"
    using assms(3) by (auto simp: admits_def grant_load_def prod_eq_iff)
  have inv: "capacity_ok ?r" "known_device T ?r" using assms(1) by (simp_all add: gpu_inv_def)
  have "held_at_peak j ?r \<or> j = i" if "j \<in> fst ` set (models_of ?r)" "claimed ?s j" for j
    using router_claims [OF assms(1,2) that] assms(1) that(1) by (auto simp: admits_def e gpu_inv_def)
  then have "need (\<lambda>j. j \<in> fst ` set (models_of ?r) \<and> claimed ?s j) r' \<le> planned v r'"
    by (intro planned_covers [OF inv(1) adm(1)]) blast
  moreover have frame: "same_frame ?r r'" using adm(1) frame_simps(6) [of ?r v i ?r] by simp
  then have m: "models_of r' = models_of ?r" "margin r' = margin ?r" by (simp_all add: same_frame_def models_of_def margin_def)
  moreover have "need (claimed ?s) r' = need (\<lambda>j. j \<in> fst ` set (models_of ?r) \<and> claimed ?s j) r'"
    unfolding need_def m by (intro arg_cong [where f = sum_list] map_cong) auto
  moreover have "planned v r' + sint (margin ?r) \<le> T"
    using admit_load_safe [OF inv(1) adm(1)] inv(2) by (auto simp: known_device_def gpu_fresh_def split: if_splits)
  ultimately show ?thesis unfolding within_def adm(2) m by simp
qed

lemma router_inv:
  assumes "gpu_inv T s" "gpu_ok T s (GRouter v e w)"
  shows "gpu_inv T (gpu_step s (GRouter v e w))"
proof -
  let ?r = "gs_router s" and ?s = "gpu_step s (GRouter v e w)"
  have inv: "sched_inv ?r" "capacity_ok ?r" "known_device T ?r" using assms(1) by (simp_all add: gpu_inv_def)
  have d: "r_cfg (gs_router ?s) = r_cfg ?r" "known_device T (gs_router ?s)"
    using device_step [of T e ?r v] inv(3) assms(2) by simp_all
  then have m: "models_of (gs_router ?s) = models_of ?r" by (simp add: models_of_def)
  note rev_claims = router_claims [OF assms]
  have "sched_inv (gs_router ?s) \<and> capacity_ok (gs_router ?s)"
    using inv(1,2) assms(2) router_machine.inv_step [of ?r "(v, e)"] by simp
  moreover have "held_at_peak i (gs_router ?s)" if "i \<in> fst ` set (models_of ?r)" "claimed ?s i" for i
    using rev_claims [OF that] admits_held [of v e i ?r] held_step [of i ?r e v] assms(1) that(1) by (auto simp: gpu_inv_def)
  moreover have "within T ?s"
  proof (cases "\<exists>i. admits v e i ?r")
    case True
    then show ?thesis using admitted_within [OF assms] by blast
  next
    case False
    show ?thesis
    proof (rule within_mono)
      show "within T s" "config_ok (r_cfg ?r)" using assms(1) by (simp_all add: gpu_inv_def capacity_ok_def)
      show "claimed s i" if "i \<in> fst ` set (models_of ?r)" "claimed ?s i" for i using rev_claims [OF that] False by blast
    qed (rule d(1))
  qed
  moreover have "\<forall>i. runtime_ok (gs_since ?s i) (gs_runtime ?s i)" using assms(1) by (simp add: gpu_inv_def)
  ultimately show ?thesis using d(2) unfolding gpu_inv_def m by blast
qed

lemma gpu_inv_step: "gpu_inv T s \<Longrightarrow> gpu_ok T s ev \<Longrightarrow> gpu_inv T (gpu_step s ev)"
  by (cases ev) (simp_all only: router_inv runtime_inv)

interpretation gpu_machine: machine gpu_step "gpu_ok T" "gpu_inv T" for T
  by unfold_locales (rule gpu_inv_step)

section \<open>The property\<close>

lemma options_rest:
  "WithInitialLoading \<notin> set opts \<Longrightarrow> at_rest m \<Longrightarrow> at_rest (fold set_option opts m) \<and> mk_calls (fold set_option opts m) = mk_calls m"
proof (induction opts arbitrary: m)
  case (Cons x opts)
  then have "at_rest (set_option x m) \<and> mk_calls (set_option x m) = mk_calls m" by (cases x) (auto simp: at_rest_def)
  then show ?case using Cons by simp
qed (simp add: at_rest_def)

lemma new_rest:
  assumes "WithEndpointDown \<notin> set opts" "WithInitialLoading \<notin> set opts"
  shows "at_rest (new_mock name opts) \<and> runtime_ok 0 (new_mock name opts)"
proof -
  have r: "at_rest (new_mock name opts)" "mk_calls (new_mock name opts) = []"
    using options_rest [OF assms(2)] by (simp_all add: new_mock_def at_rest_def)
  then have "runtime_ok (length (mk_calls (new_mock name opts))) (new_mock name opts)"
    using working_new [OF assms(1)] by (intro runtime_ok_start) (simp_all add: quiet_def)
  then show ?thesis using r by simp
qed

lemma gpu_inv_new:
  assumes "config_ok c" "(\<Sum>im \<leftarrow> c_models c. sint (load_bound (snd im))) < 2 ^ 63"
    and "\<forall>snap. boot = Some snap \<longrightarrow> true_sample T snap"
    and "\<forall>i. WithEndpointDown \<notin> set (opts i) \<and> WithInitialLoading \<notin> set (opts i)"
  shows "gpu_inv T (new_gpu c wall boot opts)"
proof -
  have "known_device T (new_router c wall boot)"
    using assms(3) by (auto simp: new_router_def known_device_def true_sample_def fresh_def Let_def split: option.split)
  then show ?thesis
    using assms new_rest sched_inv_new capacity_ok_new [OF assms(1,2)]
    by (simp add: gpu_inv_def new_gpu_def within_def claimed_def loaded_now_def list_all_iff) (simp add: at_rest_def)
qed


text \<open>The load of \<open>b\<close> is admitted, asked for, and done.\<close>

definition gpu_start :: gpu_system where
  "gpu_start = new_gpu demo_config 100 (Some (demo_snapshot 95 100)) (\<lambda>_. [])"

definition gpu_events :: "gpu_event list" where
  "gpu_events =
     [GRouter both_stopped (RAdmit ''b'') (\<lambda>_. NoGround), GRuntime ''b'' (MkPublic (control ''POST'' ''/control/load'')),
      GRuntime ''b'' (MkJob 0)]"

lemma gpu_events_ok: "run_ok gpu_step (gpu_ok 100) gpu_start gpu_events"
proof -
  have "fst (admit_load both_stopped ''b'' (booted 95)) = None" "r_residualAfter (booted 95) ''b'' = None"
    "view_ok (booted 95) (both_stopped, RAdmit ''b'')" "models_of (booted 95) = c_models demo_config"
    by code_simp+
  then show ?thesis
    by (simp add: gpu_events_def gpu_start_def new_gpu_def Let_def admits_def grant_load_def releases_def calm_def
        load_request_def booted_def list_all_iff)
qed

lemma gpu_loaded: "loaded_now (run gpu_step gpu_start gpu_events) ''b''"
  using empty_object [of "''POST''" "''/control/load''"]
  by (simp add: loaded_now_def gpu_events_def gpu_start_def new_gpu_def Let_def public_def handle_load_def begin_load_def
      new_mock_def control_def run_job_def running_def job_gate_def passes_def hit_returns_def end_job_def end_load_def
      mock_parts hit_barrier_def)


end
