(* ===== verification/Program.thy ===== *)
theory Program
  imports Router_Jobs Client_Inv
begin

text \<open>
  The process around the loops: the observer that reads the GPU (\<^verbatim>\<open>resource/nvml.go\<close>), calls that wait
  for a loop to answer, and the life of the program, \<^verbatim>\<open>cmd/inferswap/main.go\<close>, with the methods
  \<open>Reconcile\<close>, \<open>Preload\<close> and \<open>Shutdown\<close> of the router it calls.
\<close>

section \<open>The observer\<close>

text \<open>
  The library of the driver is a parameter: its functions return a value and a code, one code means
  success. Memory is total, free and used bytes.
\<close>

record 'd nvml =
  nv_success :: int
  nv_text :: "int \<Rightarrow> string"
  nv_init :: int
  nv_byUUID :: "string \<Rightarrow> 'd \<times> int"
  nv_memory :: "'d \<Rightarrow> (64 word \<times> 64 word \<times> 64 word) \<times> int"
  nv_uuid :: "'d \<Rightarrow> string \<times> int"

definition nvml_observe :: "'d nvml \<Rightarrow> string \<Rightarrow> gtime \<Rightarrow> goerr + snapshot" where
  "nvml_observe lib device now =
     (if device = '''' then Inl (Plain ''nvml: device is empty'')
      else if nv_init lib \<noteq> nv_success lib then Inl (Plain (''nvml init: '' @ nv_text lib (nv_init lib)))
      else
        let (dev, ret) = nv_byUUID lib device
        in if ret \<noteq> nv_success lib then Inl (Plain (''nvml device '' @ device @ '': '' @ nv_text lib ret))
           else
             let ((t, f, u), ret) = nv_memory lib dev
             in if ret \<noteq> nv_success lib then Inl (Plain (''nvml memory: '' @ nv_text lib ret))
                else
                  let (uuid, ret) = nv_uuid lib dev
                  in if ret \<noteq> nv_success lib then Inl (Plain (''nvml uuid: '' @ nv_text lib ret))
                     else if uuid \<noteq> device
                       then Inl (Plain (''nvml uuid '' @ uuid @ '' does not match '' @ device))
                     else Inr \<lparr>deviceID = uuid, total = t, free = f, used = u, observedAt = now, snap_ok = True\<rparr>)"

text \<open>The observer of a router that was given none.\<close>

datatype observer = ObserveNVML string | ObserveFake fake

definition default_observer :: "config \<Rightarrow> observer" where
  "default_observer c =
     (if g_device (c_gpu c) \<noteq> '''' then ObserveNVML (g_device (c_gpu c))
      else ObserveFake (generous (device_of c)))"

definition observe :: "'d nvml \<Rightarrow> observer \<Rightarrow> gtime \<Rightarrow> snapshot option" where
  "observe lib ob now =
     (case ob of
        ObserveNVML device \<Rightarrow> (case nvml_observe lib device now of Inr s \<Rightarrow> Some s | Inl _ \<Rightarrow> None)
      | ObserveFake f \<Rightarrow> fake_observe f now)"

lemma nvml_observe_ok:
  assumes "nvml_observe lib device now = Inr s"
  shows "snap_ok s \<and> deviceID s = device \<and> device \<noteq> '''' \<and> observedAt s = now
    \<and> (\<exists>dev. nv_byUUID lib device = (dev, nv_success lib) \<and> nv_uuid lib dev = (device, nv_success lib)
         \<and> nv_memory lib dev = ((total s, free s, used s), nv_success lib))"
  using assms by (auto simp: nvml_observe_def Let_def split: if_splits prod.splits)

text \<open>Of the observer's own device, so the loop takes every reading that succeeds.\<close>

lemma observed_device:
  "g_device (c_gpu c) \<noteq> '''' \<Longrightarrow> observe lib (default_observer c) now = Some s \<Longrightarrow>
     poll_sample (device_of c) (Some s) = s \<and> deviceID s = device_of c \<and> observedAt s = now"
  by (auto simp: observe_def default_observer_def device_of_def poll_sample_def dest: nvml_observe_ok split: sum.splits)

lemma fake_reading:
  "g_device (c_gpu c) = '''' \<Longrightarrow>
     observe lib (default_observer c) now = Some ((fake_snap (generous ''fake''))\<lparr>observedAt := now\<rparr>)"
  by (simp add: observe_def default_observer_def device_of_def fake_observe_def generous_def is_zero_time_def)

section \<open>Calls into a loop\<close>

text \<open>
  \<open>WaitLoad\<close> of the router, \<open>Reconcile\<close>, \<open>EnsureReady\<close> and \<open>Stop\<close> of a client: the request is offered to
  the loop, then its answer is awaited. Each select takes any branch that is ready: the channel, the
  context of the caller, the end of the loop. The result is the set of what the call can return;
  empty, it is still waiting.
\<close>

record call_point =
  cp_ready :: "goerr option option"
  cp_ctx :: "goerr option"
  cp_ended :: bool

definition broken_off :: "goerr \<Rightarrow> call_point \<Rightarrow> goerr option set" where
  "broken_off gone p = Some ` ((case cp_ctx p of Some e \<Rightarrow> {e} | None \<Rightarrow> {}) \<union> (if cp_ended p then {gone} else {}))"

definition round_trip :: "goerr \<Rightarrow> call_point \<Rightarrow> call_point \<Rightarrow> goerr option set" where
  "round_trip gone offer wait =
     broken_off gone offer
     \<union> (if cp_ready offer = None then {}
        else broken_off gone wait \<union> (case cp_ready wait of Some err \<Rightarrow> {err} | None \<Rightarrow> {}))"

definition wait_load :: "call_point \<Rightarrow> call_point \<Rightarrow> goerr option set" where
  "wait_load = round_trip (Sched ErrShutdown)"

definition reconcile_call :: "call_point \<Rightarrow> call_point \<Rightarrow> goerr option set" where
  "reconcile_call = round_trip runtime_shutdown"

definition ensure_call :: "call_point \<Rightarrow> call_point \<Rightarrow> goerr option set" where
  "ensure_call = round_trip runtime_shutdown"

definition stop_call :: "call_point \<Rightarrow> call_point \<Rightarrow> goerr option set" where
  "stop_call = round_trip runtime_shutdown"

text \<open>A call that returns no error was answered so by the loop.\<close>

lemma round_trip_nil: "None \<in> round_trip gone offer wait \<Longrightarrow> cp_ready offer \<noteq> None \<and> cp_ready wait = Some None"
  by (auto simp: round_trip_def broken_off_def split: if_splits option.splits)

text \<open>
  \<open>refreshStatus\<close> runs beside the loop after each end of serving and reports back with the proof it
  was given; a client that fails returns the zero status.
\<close>

definition refresh_status :: "model_id set \<Rightarrow> model_id \<Rightarrow> nat \<Rightarrow> goerr + status \<Rightarrow> router_event option" where
  "refresh_status known i gen answer =
     (if i \<notin> known then None
      else Some (case answer of Inr st \<Rightarrow> RStatus i st None gen | Inl e \<Rightarrow> RStatus i zero_status (Some e) gen))"

section \<open>The runtimes\<close>

text \<open>\<open>main\<close> makes one client for each model of the configuration: the keys of the map of runtimes.\<close>

definition runtimes_of :: "config \<Rightarrow> model_id list" where
  "runtimes_of c = map fst (c_models c)"

text \<open>A range over a map takes its keys in any order: that of some ranks of the keys.\<close>

definition go_range :: "(model_id \<Rightarrow> nat) \<Rightarrow> model_id list \<Rightarrow> model_id list" where
  "go_range rank keys = sort_key rank keys"

lemma set_go_range [simp]: "set (go_range rank keys) = set keys"
  by (simp add: go_range_def)

lemma any_order:
  assumes "distinct keys" "mset ks = mset keys"
  shows "\<exists>rank. go_range rank keys = ks"
proof -
  have d: "distinct ks" using assms by (metis mset_eq_imp_distinct_iff)
  define rank where "rank i = (LEAST n. n < length ks \<and> ks ! n = i)" for i
  have rank: "rank (ks ! n) = n" if n: "n < length ks" for n
    unfolding rank_def
  proof (rule Least_equality)
    show "n < length ks \<and> ks ! n = ks ! n" using n by simp
    show "n \<le> k" if "k < length ks \<and> ks ! k = ks ! n" for k using that n d nth_eq_iff_index_eq [of ks k n] by simp
  qed
  have m: "map rank ks = [0..<length ks]" by (rule nth_equalityI) (simp_all add: rank)
  then have dm: "distinct (map rank ks)" by simp
  have p: "mset (go_range rank keys) = mset ks" using assms(2) by (simp add: go_range_def)
  then have "mset (map rank (go_range rank keys)) = mset (map rank ks)" by simp
  moreover have "sorted (map rank (go_range rank keys))" by (simp add: go_range_def)
  ultimately have "sort (map rank ks) = map rank (go_range rank keys)" by (rule properties_for_sort)
  moreover have "sort (map rank ks) = map rank ks" by (rule sorted_sort_id) (simp add: m)
  ultimately have "map rank (go_range rank keys) = map rank ks" by simp
  moreover have "set (go_range rank keys) = set ks" using p by (rule mset_eq_setD)
  then have "inj_on rank (set (go_range rank keys) \<union> set ks)" using dm by (simp add: distinct_map)
  ultimately have "go_range rank keys = ks" by (rule map_inj_on)
  then show ?thesis by blast
qed

section \<open>Startup\<close>

text \<open>\<open>probe\<close> is what \<open>Reconcile\<close> of the client of each model returns.\<close>

fun reconcile_all :: "(model_id \<Rightarrow> goerr option) \<Rightarrow> model_id list \<Rightarrow> goerr option" where
  "reconcile_all probe [] = None"
| "reconcile_all probe (i # is) =
     (case probe i of Some e \<Rightarrow> Some (Wrapped (''reconcile '' @ i @ '': '') e) | None \<Rightarrow> reconcile_all probe is)"

text \<open>\<open>prepare\<close> is what \<open>prepareModel\<close> returns for each model.\<close>

fun preload :: "model_id list \<Rightarrow> (model_id \<Rightarrow> goerr option) \<Rightarrow> model_id list \<Rightarrow> goerr option" where
  "preload known prepare [] = None"
| "preload known prepare (i # is) =
     (if i \<notin> set known then Some (Plain (''preload unknown model '' @ i))
      else case prepare i of Some e \<Rightarrow> Some e | None \<Rightarrow> preload known prepare is)"

datatype main_fault =
    ReadFault goerr | ConfigFault config_error | ReconcileFault goerr | PreloadFault goerr | ListenFault goerr

text \<open>\<open>LoadFile\<close>.\<close>

definition load_file ::
  "(string \<Rightarrow> string + (string \<times> yaml) list) \<Rightarrow> (string \<Rightarrow> string + raw_file) \<Rightarrow>
     (string \<Rightarrow> (string \<times> string) option) \<Rightarrow> goerr + string \<Rightarrow> main_fault + config" where
  "load_file decode_map decode_file parse_url file =
     (case file of
        Inl e \<Rightarrow> Inl (ReadFault e)
      | Inr data \<Rightarrow>
          (case load decode_map decode_file parse_url data of Inl e \<Rightarrow> Inl (ConfigFault e) | Inr c \<Rightarrow> Inr c))"

definition boot_timeout :: "config \<Rightarrow> gdur" where
  "boot_timeout c = c_shutdownTimeout c + c_healthCheckTimeout c + 60 * second"

text \<open>From the configuration to the listening server: the level of the log, a client per model, the probes, the preload.\<close>

definition start_up ::
  "config \<Rightarrow> (model_id \<Rightarrow> nat) \<Rightarrow> (model_id \<Rightarrow> goerr option) \<Rightarrow> (model_id \<Rightarrow> goerr option) \<Rightarrow> main_fault option" where
  "start_up c rank probe prepare =
     (case parse_log_level (c_logLevel c) of
        Inl e \<Rightarrow> Some (ConfigFault e)
      | Inr _ \<Rightarrow>
     case reconcile_all probe (go_range rank (runtimes_of c)) of
        Some e \<Rightarrow> Some (ReconcileFault e)
      | None \<Rightarrow> map_option PreloadFault (preload (runtimes_of c) prepare (c_preload c)))"

section \<open>Shutdown\<close>

text \<open>
  What \<open>releaseOnShutdown\<close> meets for one model: its context, the clock and the deadline of the context,
  the polls of the loop, the state of the client, the polls of \<open>waitIdle\<close>, the end of the call of
  \<open>Stop\<close> (broken off, or what the client's \<open>doStop\<close> met), the clock after it, the observations.
\<close>

record release_run =
  rl_ctx :: "goerr option"
  rl_now :: gtime
  rl_limit :: "gtime option"
  rl_polls :: "release_poll list"
  rl_state :: rstate
  rl_idle :: "idle_poll list"
  rl_stop :: "goerr + stop_env"
  rl_at :: gtime
  rl_sampleFrom :: gtime
  rl_samples :: "sample_poll list"

definition release_deadline :: "config \<Rightarrow> release_run \<Rightarrow> gtime" where
  "release_deadline c sr =
     (let deadline = rl_now sr + drain_budget c
      in case rl_limit sr of Some d \<Rightarrow> if d < deadline then d else deadline | None \<Rightarrow> deadline)"

definition stop_result :: "gdur \<Rightarrow> goerr + stop_env \<Rightarrow> goerr option" where
  "stop_result timeout call = (case call of Inl e \<Rightarrow> Some e | Inr env \<Rightarrow> snd (do_stop timeout env))"

definition release_timeout :: "config \<Rightarrow> gdur" where
  "release_timeout c = (if c_shutdownTimeout c > 0 then c_shutdownTimeout c else second)"

text \<open>
  \<open>Inr None\<close> needed no release; \<open>Inr (Some (at, snap))\<close> is followed by \<open>RReleased\<close> on the loop. \<open>None\<close>
  means a loop is still polling.
\<close>

definition release_ready :: "config \<Rightarrow> string \<Rightarrow> release_run \<Rightarrow> (goerr + (gtime \<times> snapshot) option) option" where
  "release_ready c device sr =
     (case wait_idle (release_deadline c sr) (rl_idle sr) of
        None \<Rightarrow> None
      | Some (Some e) \<Rightarrow> Some (Inl e)
      | Some None \<Rightarrow>
          (case stop_result (release_timeout c) (rl_stop sr) of
             Some e \<Rightarrow> Some (Inl e)
           | None \<Rightarrow>
               (case sample_after device (rl_at sr) (rl_sampleFrom sr + drain_budget c) (rl_samples sr) of
                  None \<Rightarrow> None
                | Some (Inl e) \<Rightarrow> Some (Inl e)
                | Some (Inr s) \<Rightarrow> Some (Inr (Some (rl_at sr, s))))))"

definition release_on_shutdown ::
  "config \<Rightarrow> string \<Rightarrow> model_id \<Rightarrow> release_run \<Rightarrow> (goerr + (gtime \<times> snapshot) option) option" where
  "release_on_shutdown c device i sr =
     (case rl_ctx sr of
        Some e \<Rightarrow> Some (Inl e)
      | None \<Rightarrow>
     case wait_unprotected i (release_deadline c sr) (rl_polls sr) of
        None \<Rightarrow> None
      | Some (Some e) \<Rightarrow> Some (Inl e)
      | Some None \<Rightarrow>
          if rl_state sr = StateStopped \<or> rl_state sr = StateShutdown then Some (Inr None)
          else if rl_state sr \<noteq> StateReady
            then Some (Inl (Plain (i @ '' state '' @ rstate_text (rl_state sr))))
          else release_ready c device sr)"

fun release_all ::
  "config \<Rightarrow> string \<Rightarrow> (model_id \<Rightarrow> release_run) \<Rightarrow> model_id list \<Rightarrow>
     (model_id \<times> (goerr + (gtime \<times> snapshot) option)) list option" where
  "release_all c device runs [] = Some []"
| "release_all c device runs (i # is) =
     (case release_on_shutdown c device i (runs i) of
        None \<Rightarrow> None
      | Some x \<Rightarrow> map_option (Cons (i, x)) (release_all c device runs is))"

text \<open>
  What the shutdown meets: the two waits for the loop, the order in which Go ranges over the runtimes,
  what the release of each meets, the wait for the end of the loop.
\<close>

record shutdown_run =
  sd_sent :: "goerr option"
  sd_done :: "goerr option"
  sd_rank :: "model_id \<Rightarrow> nat"
  sd_model :: "model_id \<Rightarrow> release_run"
  sd_ended :: "goerr option"

text \<open>The events on the loop, whether the clients were shut down, the error.\<close>

definition released_events :: "(model_id \<times> (goerr + (gtime \<times> snapshot) option)) list \<Rightarrow> router_event list" where
  "released_events results =
     concat (map (\<lambda>(i, x). case x of Inr (Some (at, s)) \<Rightarrow> [RReleased i at s] | _ \<Rightarrow> []) results)"

definition end_shutdown ::
  "goerr option \<Rightarrow> (model_id \<times> (goerr + (gtime \<times> snapshot) option)) list \<Rightarrow>
     router_event list \<times> bool \<times> goerr option" where
  "end_shutdown ended results =
     (let (failed, err) = shutdown_result results;
          events = RShutdown # released_events results @ [RUnconfirmed failed]
      in case ended of Some e \<Rightarrow> (events, False, Some e) | None \<Rightarrow> (events, True, err))"

definition shutdown_router ::
  "config \<Rightarrow> string \<Rightarrow> shutdown_run \<Rightarrow> (router_event list \<times> bool \<times> goerr option) option" where
  "shutdown_router c device sr =
     (case sd_sent sr of
        Some e \<Rightarrow> Some ([], False, Some e)
      | None \<Rightarrow>
     case sd_done sr of
        Some e \<Rightarrow> Some ([RShutdown], False, Some e)
      | None \<Rightarrow> map_option (end_shutdown (sd_ended sr)) (release_all c device (sd_model sr) (go_range (sd_rank sr) (runtimes_of c))))"

section \<open>The program\<close>

datatype exit = ExitFatal main_fault | ExitUnclean goerr "model_id list" | ExitClean

text \<open>
  \<open>main\<close>: the process exits with code 1 but after a clean shutdown. The result of the server's own
  shutdown is dropped.
\<close>

definition main_program ::
  "main_fault + config \<Rightarrow> (model_id \<Rightarrow> nat) \<Rightarrow> (model_id \<Rightarrow> goerr option) \<Rightarrow> (model_id \<Rightarrow> goerr option) \<Rightarrow>
     goerr option \<Rightarrow> shutdown_run \<Rightarrow> view \<Rightarrow> exit option" where
  "main_program file rank probe prepare listen sr v =
     (case file of
        Inl e \<Rightarrow> Some (ExitFatal e)
      | Inr c \<Rightarrow>
     case start_up c rank probe prepare of
        Some e \<Rightarrow> Some (ExitFatal e)
      | None \<Rightarrow>
     case listen of
        Some e \<Rightarrow> Some (ExitFatal (ListenFault e))
      | None \<Rightarrow>
          map_option (\<lambda>(_, _, err). case err of None \<Rightarrow> ExitClean | Some e \<Rightarrow> ExitUnclean e (remaining v))
            (shutdown_router c (device_of c) sr))"

end
