(* ===== verification/Program_Props.thy ===== *)
theory Program_Props
  imports Program Core_Props Client_Props
begin

text \<open>
  The life of the program: an accepted configuration starts unless a runtime or a load fails, and a
  clean exit means that every model was released.
\<close>

section \<open>Startup\<close>

lemma global_settings_level: "global_settings raw = Inr g \<Longrightarrow> \<exists>l. parse_log_level (c_logLevel g) = Inr l"
  by (auto simp: global_settings_def)

lemma load_file_ok:
  assumes "load_file decode_map decode_file parse_url file = Inr c"
  shows "(\<exists>l. parse_log_level (c_logLevel c) = Inr l) \<and> set (c_preload c) \<subseteq> fst ` set (c_models c)"
proof -
  obtain raw where r: "to_config parse_url raw = Inr c"
    using assms by (auto simp: load_file_def load_def split: sum.splits)
  then obtain g ms tab gg ms' where "global_settings raw = Inr g"
    "c = g\<lparr>c_gpu := gg, c_models := ms', c_aliases := Some tab\<rparr>"
    unfolding to_config_iff by blast
  then have g: "global_settings raw = Inr g" "c_logLevel c = c_logLevel g" by simp_all
  have "\<exists>l. parse_log_level (c_logLevel c) = Inr l" using global_settings_level [OF g(1)] g(2) by simp
  moreover have "\<forall>i \<in> set (c_preload c). map_of (c_models c) i \<noteq> None"
    using to_config_ok [OF r] by (simp add: config_ok_def)
  then have "set (c_preload c) \<subseteq> fst ` set (c_models c)"
    unfolding map_of_eq_None_iff by blast
  ultimately show ?thesis by blast
qed

lemma reconcile_all_none: "reconcile_all probe is = None \<longleftrightarrow> (\<forall>i \<in> set is. probe i = None)"
  by (induction "is") (auto split: option.splits)

lemma reconcile_all_some:
  "reconcile_all probe is = Some f \<Longrightarrow> \<exists>i \<in> set is. \<exists>e. probe i = Some e \<and> f = Wrapped (''reconcile '' @ i @ '': '') e"
  by (induction "is") (auto split: option.splits)

lemma preload_iff:
  assumes "set is \<subseteq> set known"
  shows "preload known prepare is = None \<longleftrightarrow> (\<forall>i \<in> set is. prepare i = None)"
    and "preload known prepare is = Some e \<Longrightarrow> \<exists>i \<in> set is. prepare i = Some e"
  using assms by (induction "is") (auto split: option.splits)

text \<open>A program whose configuration file was accepted starts its server exactly when
  every runtime answered its probe without an error and every model to preload was prepared; otherwise
  it stops with the error of one of those. The log level and the names to preload are no obstacle any more.\<close>

theorem accepted_configurations_start:
  assumes "load_file decode_map decode_file parse_url file = Inr c"
  shows "case start_up c rank probe prepare of
      None \<Rightarrow> (\<forall>i \<in> set (runtimes_of c). probe i = None) \<and> (\<forall>i \<in> set (c_preload c). prepare i = None)
    | Some f \<Rightarrow> (\<exists>i \<in> set (runtimes_of c). \<exists>e. probe i = Some e \<and> f = ReconcileFault (Wrapped (''reconcile '' @ i @ '': '') e))
        \<or> (\<exists>i \<in> set (c_preload c). \<exists>e. prepare i = Some e \<and> f = PreloadFault e)"
proof -
  obtain l where "parse_log_level (c_logLevel c) = Inr l" "set (c_preload c) \<subseteq> set (runtimes_of c)"
    using load_file_ok [OF assms] by (auto simp: runtimes_of_def)
  then show ?thesis
    using reconcile_all_none [of probe "go_range rank (runtimes_of c)"]
      reconcile_all_some [of probe "go_range rank (runtimes_of c)"] preload_iff [of "c_preload c" "runtimes_of c" prepare]
    by (auto simp: start_up_def split: option.splits)
qed

text \<open>A file that the decoders read as the configuration of two models, one of them to preload.\<close>

definition demo_file :: "main_fault + config" where
  "demo_file = load_file (\<lambda>_. Inr []) (\<lambda>_. Inr demo_raw) demo_url (Inr ''models'')"

lemma demo_file_accepted:
  "\<exists>c. demo_file = Inr c \<and> c_preload c = [''a''] \<and> map fst (c_models c) = [''a'', ''b''] \<and> device_of c = ''gpu0''"
proof -
  obtain c where c: "to_config demo_url demo_raw = Inr c"
    "c_models c = [(''a'', demo_built ''a'' ''first''), (''b'', demo_built ''b'' ''second'')]"
    using demo_accepted by blast
  moreover have "reject_keys [] forbidden_keys '''' = Inr ()" by code_simp
  ultimately have "demo_file = Inr c" by (simp add: demo_file_def load_file_def load_def)
  moreover have "c_preload c = [''a'']" "device_of c = ''gpu0''"
    using c(1) demo_global
    by (auto simp: to_config_iff to_gpu_def demo_raw_def trim_space_id seconds_def device_of_def Let_def)
  ultimately show ?thesis using c(2) by (intro exI [of _ c]) simp
qed

theorem accepted_configurations_start_witness:
  "\<exists>c. demo_file = Inr c \<and> start_up c (\<lambda>_. 0) (\<lambda>_. None) (\<lambda>_. None) = None
     \<and> start_up c length (\<lambda>_. None) (\<lambda>_. Some Canceled) = Some (PreloadFault Canceled)"
proof -
  obtain c where c: "demo_file = Inr c" "c_preload c = [''a'']" using demo_file_accepted by blast
  note start = accepted_configurations_start [OF c(1) [unfolded demo_file_def]]
  show ?thesis
    using c start [where rank = "\<lambda>_. 0" and probe = "\<lambda>_. None" and prepare = "\<lambda>_. None"]
      start [where rank = length and probe = "\<lambda>_. None" and prepare = "\<lambda>_. Some Canceled"]
    by (auto split: option.splits)
qed

section \<open>Shutdown\<close>

text \<open>What a release without an error rests on.\<close>

definition released :: "config \<Rightarrow> string \<Rightarrow> model_id \<Rightarrow> release_run \<Rightarrow> router_event list \<Rightarrow> bool" where
  "released c device i rl es =
     ((\<exists>p \<in> set (rl_polls rl). \<not> rp_protected p)
      \<and> (rl_state rl \<in> {StateStopped, StateShutdown}
      \<or> rl_state rl = StateReady
        \<and> (\<exists>p \<in> set (rl_idle rl). \<exists>st. ip_status p = Inr st \<and> remote_idle st \<and> ip_before p < release_deadline c rl)
        \<and> (\<exists>env. rl_stop rl = Inr env \<and> confirms_unloaded env)
        \<and> (\<exists>s. good_sample device (rl_at rl) s \<and> RReleased i (rl_at rl) s \<in> set es)))"

lemma wait_unprotected_ok: "wait_unprotected i deadline ps = Some None \<Longrightarrow> \<exists>p \<in> set ps. \<not> rp_protected p"
  by (induction ps) (auto split: if_splits option.splits)

lemma release_ready_ok:
  assumes "release_ready c device rl = Some (Inr x)"
  shows "\<exists>s. x = Some (rl_at rl, s) \<and> good_sample device (rl_at rl) s
    \<and> (\<exists>p \<in> set (rl_idle rl). \<exists>st. ip_status p = Inr st \<and> remote_idle st \<and> ip_before p < release_deadline c rl)
    \<and> (\<exists>env. rl_stop rl = Inr env \<and> confirms_unloaded env)"
  using assms
  by (auto simp: release_ready_def stop_result_def dest!: wait_idle_ok sample_after_ok do_stop_confirmed
      split: option.splits sum.splits)

lemma release_on_shutdown_ok:
  assumes "release_on_shutdown c device i rl = Some (Inr x)"
    and "\<And>at s. x = Some (at, s) \<Longrightarrow> RReleased i at s \<in> set es"
  shows "released c device i rl es"
  using assms
  by (auto simp: release_on_shutdown_def released_def dest!: release_ready_ok wait_unprotected_ok split: option.splits if_splits)

lemma release_all_item:
  "release_all c device runs is = Some results \<Longrightarrow> i \<in> set is \<Longrightarrow>
     \<exists>x. (i, x) \<in> set results \<and> release_on_shutdown c device i (runs i) = Some x"
  by (induction "is" arbitrary: results) (fastforce split: option.splits)+

lemma no_failures: "snd (shutdown_result results) = None \<Longrightarrow> (i, x) \<in> set results \<Longrightarrow> \<exists>y. x = Inr y"
proof -
  assume none: "snd (shutdown_result results) = None" and x: "(i, x) \<in> set results"
  let ?failed = "filter (\<lambda>(i, r). case r of Inl _ \<Rightarrow> True | Inr _ \<Rightarrow> False) results"
  have "sort (map fst ?failed) = []" using none by (simp add: shutdown_result_def Let_def split: if_splits)
  then have "?failed = []" by (metis length_0_conv length_sort map_is_Nil_conv)
  then have "(i, x) \<notin> set ?failed" by simp
  then show ?thesis using x by (cases x) auto
qed

lemma end_shutdown_ok:
  "end_shutdown ended results = (es, closed, None) \<Longrightarrow>
     closed \<and> snd (shutdown_result results) = None
     \<and> es = RShutdown # released_events results @ [RUnconfirmed (fst (shutdown_result results))]"
  by (cases "shutdown_result results"; cases ended) (auto simp: end_shutdown_def)

lemma shutdown_releases:
  assumes "shutdown_router c device sr = Some (es, closed, None)"
  shows "closed \<and> (\<forall>i \<in> set (runtimes_of c). released c device i (sd_model sr i) es)"
proof -
  obtain results where all: "release_all c device (sd_model sr) (go_range (sd_rank sr) (runtimes_of c)) = Some results"
    and e: "end_shutdown (sd_ended sr) results = (es, closed, None)"
    using assms unfolding shutdown_router_def by (auto split: option.splits)
  have es: "es = RShutdown # released_events results @ [RUnconfirmed (fst (shutdown_result results))]"
    and closed: "closed" "snd (shutdown_result results) = None" using end_shutdown_ok [OF e] by simp_all
  have "released c device i (sd_model sr i) es" if m: "i \<in> set (runtimes_of c)" for i
  proof -
    obtain x where x: "(i, x) \<in> set results" "release_on_shutdown c device i (sd_model sr i) = Some x"
      using release_all_item [OF all, of i] m by auto
    then obtain y where y: "x = Inr y" using no_failures [OF closed(2)] by blast
    then have "RReleased i at s \<in> set es" if "y = Some (at, s)" for at s
      using x(1) that unfolding es released_events_def by (auto intro!: bexI [of _ "(i, x)"])
    then show ?thesis using release_on_shutdown_ok x(2) y by blast
  qed
  then show ?thesis using closed(1) by blast
qed

text \<open>C14: When the process exits cleanly it had started, and every model of the configuration is
  released, in whatever order Go ranges over them: no request of it held a slot, and its client had stopped it
  already, or it was ready, was seen idle before the deadline, its runtime confirmed the unload, and
  the loop got a sample of the device taken after that.\<close>

theorem clean_exit_releases_every_model:
  assumes "main_program file rank probe prepare listen sr v = Some ExitClean"
  shows "\<exists>c es. file = Inr c \<and> start_up c rank probe prepare = None \<and> listen = None
    \<and> shutdown_router c (device_of c) sr = Some (es, True, None)
    \<and> (\<forall>(i, m) \<in> set (c_models c). released c (device_of c) i (sd_model sr i) es)"
proof -
  obtain c es closed where c: "file = Inr c" "start_up c rank probe prepare = None" "listen = None"
    and s: "shutdown_router c (device_of c) sr = Some (es, closed, None)"
    using assms by (auto simp: main_program_def split: sum.splits option.splits prod.splits)
  then show ?thesis using shutdown_releases [OF s] by (auto simp: runtimes_of_def)
qed

text \<open>Two models: one is ready and is unloaded, the other was never loaded.\<close>

definition free_polls :: "release_poll list" where
  "free_polls = [\<lparr>rp_ctx = None, rp_protected = False, rp_now = 0, rp_done = None\<rparr>]"

definition released_a :: release_run where
  "released_a =
     \<lparr>rl_ctx = None, rl_now = 0, rl_limit = Some 50, rl_polls = free_polls, rl_state = StateReady,
      rl_idle = [\<lparr>ip_before = 0, ip_status = Inr ready_status, ip_after = 1, ip_shutdown = False\<rparr>],
      rl_stop = Inr demo_unload, rl_at = 100, rl_sampleFrom = 101,
      rl_samples = [\<lparr>sp_obs = Some \<lparr>deviceID = ''gpu0'', total = 80, free = 80, used = 0, observedAt = 102, snap_ok = True\<rparr>,
                     sp_now = 102, sp_shutdown = False\<rparr>]\<rparr>"

definition released_b :: release_run where
  "released_b = released_a\<lparr>rl_state := StateStopped\<rparr>"

definition clean_shutdown :: shutdown_run where
  "clean_shutdown =
     \<lparr>sd_sent = None, sd_done = None, sd_rank = (\<lambda>i. if i = ''a'' then 1 else 0),
      sd_model = (\<lambda>i. if i = ''a'' then released_a else released_b), sd_ended = None\<rparr>"

lemma idle_at_once: "release_deadline c released_a > 0"
  by (simp add: release_deadline_def released_a_def Let_def drain_budget_def second_def)

lemma clean_release:
  assumes "map fst (c_models c) = [''a'', ''b'']"
  shows "\<exists>es. shutdown_router c ''gpu0'' clean_shutdown = Some (es, True, None)"
proof -
  have order: "go_range (sd_rank clean_shutdown) (runtimes_of c) = [''b'', ''a'']"
    using assms by (simp add: go_range_def runtimes_of_def clean_shutdown_def)
  have "remote_idle ready_status" by (simp add: remote_idle_def ready_status_def)
  then have "release_ready c ''gpu0'' released_a = Some (Inr (Some (100, the (sp_obs (hd (rl_samples released_a))))))"
    using idle_at_once [of c]
    by (simp add: release_ready_def stop_result_def demo_unload_done good_sample_def) 
      (simp add: released_a_def stop_result_def demo_unload_done good_sample_def)
  then have "release_on_shutdown c ''gpu0'' ''a'' released_a = Some (Inr (Some (100, the (sp_obs (hd (rl_samples released_a))))))"
    by (simp add: release_on_shutdown_def) (simp add: released_a_def free_polls_def)
  moreover have "release_on_shutdown c ''gpu0'' ''b'' released_b = Some (Inr None)"
    by (simp add: release_on_shutdown_def released_b_def released_a_def free_polls_def)
  ultimately obtain x where "release_all c ''gpu0'' (sd_model clean_shutdown) [''b'', ''a''] = Some [(''b'', Inr None), (''a'', Inr x)]"
    by (simp add: clean_shutdown_def)
  moreover have "\<exists>es. end_shutdown None [(''b'', Inr None), (''a'', Inr x)] = (es, True, None)"
    by (simp add: end_shutdown_def shutdown_result_def)
  moreover have "sd_sent clean_shutdown = None" "sd_done clean_shutdown = None" "sd_ended clean_shutdown = None"
    by (simp_all add: clean_shutdown_def)
  ultimately show ?thesis by (simp add: shutdown_router_def order del: release_all.simps)
qed

theorem clean_exit_releases_every_model_witness:
  "\<exists>c es. demo_file = Inr c \<and> map fst (c_models c) = [''a'', ''b''] \<and> released c ''gpu0'' ''a'' released_a es"
proof -
  obtain c where "demo_file = Inr c \<and> c_preload c = [''a''] \<and> map fst (c_models c) = [''a'', ''b''] \<and> device_of c = ''gpu0''"
    using demo_file_accepted ..
  then have c: "demo_file = Inr c" "c_preload c = [''a'']" "map fst (c_models c) = [''a'', ''b'']"
    "device_of c = ''gpu0''" by simp_all
  obtain es where sd: "shutdown_router c ''gpu0'' clean_shutdown = Some (es, True, None)"
    using clean_release [OF c(3)] by blast
  obtain l where "parse_log_level (c_logLevel c) = Inr l"
    using load_file_ok [OF c(1) [unfolded demo_file_def]] by blast
  moreover have "reconcile_all (\<lambda>_. None) is = None" for "is" by (simp add: reconcile_all_none)
  moreover have "preload (runtimes_of c) (\<lambda>_. None) (c_preload c) = None"
    using preload_iff(1) [of "c_preload c" "runtimes_of c" "\<lambda>_. None"] c(2,3) by (simp add: runtimes_of_def)
  ultimately have "start_up c (\<lambda>_. 0) (\<lambda>_. None) (\<lambda>_. None) = None" by (simp add: start_up_def)
  then have "main_program demo_file (\<lambda>_. 0) (\<lambda>_. None) (\<lambda>_. None) None clean_shutdown v = Some ExitClean"
    using sd by (simp only: main_program_def c sum.case option.case option.map prod.case)
  note all = clean_exit_releases_every_model [OF this]
  have "''a'' \<in> fst ` set (c_models c)" using c(3) by (metis list.set_intros(1) list.set_map)
  then obtain m where m: "(''a'', m) \<in> set (c_models c)" by auto
  from all show ?thesis
  proof (elim exE conjE, goal_cases)
    case (1 d es)
    have "Inr c = (Inr d :: main_fault + config)" using 1(1) unfolding c(1) .
    then have "d = c" by simp
    then have "released c ''gpu0'' ''a'' released_a es"
      using bspec [OF 1(5), of "(''a'', m)"] m c(4) by (simp add: clean_shutdown_def)
    then show ?case by (intro exI conjI) (rule c(1), rule c(3))
  qed
qed

end
