(* ===== verification/Loop_Jobs.thy ===== *)
theory Loop_Jobs
  imports Program Testkit Proxy
begin

text \<open>
  The small goroutines that hand an event to the loop or a function to it (\<^verbatim>\<open>router/base.go\<close>,
  \<^verbatim>\<open>diagnostics.go\<close>), the command that a prepare starts (\<^verbatim>\<open>runtime/prepare.go\<close>), what a client answers
  to a request it is handed (\<^verbatim>\<open>runtime/client.go\<close>), and the shutdown of the server.
\<close>

section \<open>Handing over to the loop\<close>

text \<open>
  \<open>taken\<close> says that the loop received what was offered, \<open>shut\<close> that the router was shut down. A select
  with two ready branches takes either; the empty set says that the goroutine still waits, \<open>None\<close> that
  it gave up.
\<close>

definition hand_over :: "'e \<Rightarrow> bool \<Rightarrow> bool \<Rightarrow> 'e option set" where
  "hand_over e taken shut = (if taken then {Some e} else {}) \<union> (if shut then {None} else {})"

definition send_unload :: "unload_notice \<Rightarrow> bool \<Rightarrow> bool \<Rightarrow> router_event option set" where
  "send_unload n = hand_over (RUnload n)"

definition notify_backend_done :: "model_id \<Rightarrow> bool \<Rightarrow> bool \<Rightarrow> router_event option set" where
  "notify_backend_done i = hand_over (RBackendDone i)"

text \<open>\<open>StartLoad\<close>: the timeout given to \<open>EnsureReady\<close>, and what the loop gets once that returned.\<close>

definition load_job ::
  "config \<Rightarrow> model_id \<Rightarrow> call_point \<Rightarrow> call_point \<Rightarrow> bool \<Rightarrow> bool \<Rightarrow> gdur \<times> router_event option set" where
  "load_job c i offer wait taken shut =
     (load_timeout c i, \<Union>err \<in> ensure_call offer wait. hand_over (RSwapDone i err) taken shut)"

text \<open>The loop hears of a finished load without an error only when the client's loop answered so.\<close>

lemma load_job_done:
  "Some (RSwapDone i None) \<in> snd (load_job c i offer wait taken shut)
     \<longleftrightarrow> taken \<and> cp_ready offer \<noteq> None \<and> cp_ready wait = Some None"
  by (auto simp: load_job_def hand_over_def ensure_call_def round_trip_def broken_off_def split: if_splits option.splits)

lemma load_job_events:
  "Some e \<in> snd (load_job c i offer wait taken shut) \<Longrightarrow> \<exists>err. e = RSwapDone i err \<and> err \<in> ensure_call offer wait"
  by (auto simp: load_job_def hand_over_def split: if_splits)

text \<open>\<open>Remind\<close> asks the clock for the time left, waits for its channel, then hands \<open>OnRemind\<close> to the loop.\<close>

definition remind :: "gtime \<Rightarrow> fake_clock \<Rightarrow> nat \<times> fake_clock" where
  "remind at clk = (fc_next clk, clock_step clk (ClkAfter (at - fc_now clk)))"

definition remind_wait :: "bool \<Rightarrow> bool \<Rightarrow> bool \<Rightarrow> bool \<Rightarrow> router_event option set" where
  "remind_wait fired shut taken shut2 =
     (if fired then hand_over RRemind taken shut2 else {}) \<union> (if shut then {None} else {})"

text \<open>
  The channel gets one reading: at once when the time has come, else the first that reaches it. So
  the loop is never reminded early.
\<close>

lemma remind_fires:
  "(let clk = run clock_step (new_fake_clock t) ds; (n, clk') = remind at clk
    in received n (run clock_step clk' es)
       = (if at \<le> fc_now clk then [fc_now clk] else first_reaching at (readings clk' es)))"
  using timers_fire_once [of t ds "at - fc_now (run clock_step (new_fake_clock t) ds)" es]
  by (simp add: remind_def Let_def)

lemma remind_not_early:
  assumes "remind at (run clock_step (new_fake_clock t) ds) = (n, clk)" "r \<in> set (received n (run clock_step clk es))"
  shows "at \<le> r"
proof -
  have sub: "x \<in> set (first_reaching a rs) \<Longrightarrow> a \<le> x" for a x rs
    by (auto simp: first_reaching_def dest!: in_set_takeD)
  show ?thesis
    using remind_fires [of t ds at es] assms by (auto simp: Let_def split: if_splits dest!: sub)
qed

section \<open>Functions run on the loop\<close>

text \<open>
  \<open>onLoop\<close>: what the caller has when it returns. Shut down before the loop took the function, or
  while waiting for its end, it goes on without it.
\<close>

definition on_loop :: "'a \<Rightarrow> 'a \<Rightarrow> bool \<Rightarrow> bool \<Rightarrow> bool \<Rightarrow> 'a set" where
  "on_loop before after taken finished shut =
     (if taken \<and> finished then {after} else {}) \<union> (if shut then {before} else {})"

definition no_diagnostics :: diagnostics where
  "no_diagnostics = \<lparr>dg_queue = 0, dg_observedAt = 0, dg_fresh = False, dg_total = 0, dg_free = 0, dg_models = []\<rparr>"

definition diagnostics_call ::
  "view \<Rightarrow> (model_id \<Rightarrow> string) \<Rightarrow> router \<Rightarrow> bool \<Rightarrow> bool \<Rightarrow> bool \<Rightarrow> diagnostics set" where
  "diagnostics_call v reason r = on_loop no_diagnostics (snapshot_diagnostics v reason r)"

text \<open>Before the router is shut down the diagnostics are those of one state of the loop.\<close>

lemma diagnostics_call_live:
  "d \<in> diagnostics_call v reason r taken finished False \<Longrightarrow> d = snapshot_diagnostics v reason r"
  by (auto simp: diagnostics_call_def on_loop_def split: if_splits)

definition last_status :: "router \<Rightarrow> model_id \<Rightarrow> status option" where
  "last_status r i = r_lastStatus r i"

lemma last_status_step:
  "last_status (router_step r (v, RStatus j st err gen)) i
     = (if i = j \<and> err = None then Some st else last_status r i)"
  by (simp add: last_status_def tell_def)

section \<open>The prepare command\<close>

text \<open>Starting a process with arguments, directory and environment, and its end, is a parameter.\<close>

type_synonym spawn = "string \<Rightarrow> string list \<Rightarrow> string \<Rightarrow> string list \<Rightarrow> goerr option"

definition exec_run :: "spawn \<Rightarrow> string list \<Rightarrow> string list \<Rightarrow> string \<Rightarrow> goerr option" where
  "exec_run spawn environ argv cwd =
     (case argv of
        [] \<Rightarrow> Some (Plain ''prepare argv is empty'')
      | a # args \<Rightarrow> spawn a args cwd environ)"

text \<open>\<open>runPrepare\<close> starts at most one process: the configured command, in the directory of its program.\<close>

lemma prepare_runs_command:
  assumes "ActPrepare argv cwd \<in> set (fst (run_prepare cfg prepBusy outcome))"
  shows "cc_prepare cfg = Some argv \<and> argv \<noteq> [] \<and> \<not> prepBusy
    \<and> exec_run spawn environ argv cwd = spawn (hd argv) (tl argv) (dir_of (hd argv)) environ"
  using assms by (auto simp: run_prepare_acts exec_run_def prepare_cwd_def split: if_splits list.split)

lemma prepare_reports_exit:
  "run_prepare cfg prepBusy (PrepExit (exec_run spawn environ argv cwd)) = (ActPrepare argv cwd # acts, None, b) \<Longrightarrow>
     spawn (hd argv) (tl argv) cwd environ = None \<and> \<not> b"
  by (auto simp: run_prepare_def exec_run_def split: if_splits option.splits list.splits)

section \<open>A request at a client\<close>

definition write_json :: "int \<Rightarrow> json \<Rightarrow> http_reply" where
  "write_json status v = \<lparr>rp_status = status, rp_headers = [(''Content-Type'', ''application/json'')], rp_body = json_body v\<rparr>"

definition not_ready :: http_reply where
  "not_ready =
     write_json 503 (JObj [(''code'', JStr ''NOT_READY''), (''error'', JStr ''runtime is not ready''),
                           (''src'', JStr ''inferswap'')])"

text \<open>\<open>forward\<close> is the reverse proxy that \<open>installProxy\<close> set.\<close>

definition client_serve :: "(http_request \<Rightarrow> http_reply) \<Rightarrow> client \<Rightarrow> http_request \<Rightarrow> http_reply" where
  "client_serve forward s rq = (if cl_handler s then forward rq else not_ready)"

text \<open>Whatever came before, a ready client forwards and one that is stopped, failed or shut down refuses.\<close>

lemma client_serves_when_ready:
  "cl_state (run (client_step cfg) new_client es) = StateReady \<Longrightarrow>
     client_serve forward (run (client_step cfg) new_client es) rq = forward rq"
  "cl_state (run (client_step cfg) new_client es) \<in> {StateStopped, StateFailed, StateShutdown} \<Longrightarrow>
     client_serve forward (run (client_step cfg) new_client es) rq = not_ready"
  using client_machine.inv_run [OF client_inv_new, of cfg es]
  by (simp_all add: client_inv_def handler_ok_def client_serve_def)

lemma not_ready_text:
  "rp_status not_ready = 503 \<and> json_parse (rp_body not_ready)
     = Some (JObj [(''code'', JStr ''NOT_READY''), (''error'', JStr ''runtime is not ready''), (''src'', JStr ''inferswap'')])"
proof -
  have "numbers_ok (JObj [(''code'', JStr ''NOT_READY''), (''error'', JStr ''runtime is not ready''), (''src'', JStr ''inferswap'')])"
    by simp
  then show ?thesis
    unfolding not_ready_def write_json_def json_body_def using parse_text [where r = "[CHR 0x0A]"]
    by (simp add: json_space_def del: json_text.simps)
qed

section \<open>The shutdown of the server\<close>

definition server_shutdown ::
  "config \<Rightarrow> string \<Rightarrow> shutdown_run option \<Rightarrow> (router_event list \<times> bool \<times> goerr option) option" where
  "server_shutdown c device router =
     (case router of None \<Rightarrow> Some ([], False, None) | Some sr \<Rightarrow> shutdown_router c device sr)"

end
