(* ===== verification/Spec2Isabelle.thy ===== *)
theory Spec2Isabelle
  imports Core_Props Fifo_Props Recovery_Client Serve_Props Server_Props Memory Program_Props Loop_Jobs
begin

text \<open>
  InferSwap: a proxy that shares one GPU between several model runtimes. A client request names a
  model; the proxy queues it, and when its model is not loaded it unloads another one, loads the
  requested one within the memory budget of the device, and only then forwards the request.

  \<^bold>\<open>The parts and how they interact.\<close>
  The router (\<^verbatim>\<open>src/internal/router\<close>) runs one goroutine, \<^verbatim>\<open>Router.run\<close>, which
  receives events on channels: requests, cancellations, the ends of unload and load jobs, statuses
  of the runtimes, results of recovery probes, GPU samples, timers. Each event is handled to its end
  before the next one is received. The loop owns the memory ledger (\<^verbatim>\<open>budget.go\<close>) and the
  scheduler (\<^verbatim>\<open>scheduler/fifo.go\<close>, \<^verbatim>\<open>scheduler/recover.go\<close>), a first-in first-out
  queue with a state machine: idle, unloading victims, loading the target, probing runtimes whose
  state is not known, waiting for a GPU sample. The scheduler calls back into the router through
  the interface \<^verbatim>\<open>Effects\<close>: to start an unload, a load or a probe, to grant or refuse a
  request, to open and close the gates of the models. Those jobs run beside the loop and report
  back as events. The configuration (\<^verbatim>\<open>src/internal/config\<close>) is read once at the start.

  \<^bold>\<open>Theories and the code they model.\<close>
  \<^item> \<open>Prelude\<close>: times, counters in maps, signed 64-bit sums, sorted lists; \<open>run\<close> and
    \<open>run_ok\<close> fold a step function over a list of events, and the locale \<open>machine\<close> lifts what
    one step preserves to runs.
  \<^item> \<open>Resource\<close>: \<^verbatim>\<open>resource/admit.go\<close> and \<^verbatim>\<open>fake.go\<close>; snapshots, holds, \<open>fits\<close> with its
    loop and early exit, on \<open>64 word\<close>.
  \<^item> \<open>GoError\<close>: \<^verbatim>\<open>scheduler/errors.go\<close> and the errors of \<^verbatim>\<open>runtime/runtime.go\<close>; \<open>err_is\<close>
    and \<open>as_sched\<close> are \<^verbatim>\<open>errors.Is\<close> and \<^verbatim>\<open>errors.As\<close> over the wrapping the code builds.
  \<^item> \<open>Runtime_Types\<close>: \<^verbatim>\<open>runtime/runtime.go\<close>, \<^verbatim>\<open>runtime/recover.go\<close>; local and wire states,
    statuses, \<open>classify_recovery\<close> (the status matrix) and \<open>classify_status_err\<close>.
  \<^item> \<open>Config\<close>: \<^verbatim>\<open>config/config.go\<close>; from the decoded file to the configuration, with every check.
  \<^item> \<open>Fifo\<close>, \<open>Fifo_Dispatch\<close>, \<open>Fifo_Handlers\<close>: the scheduler. The record \<open>fifo\<close> has
    the fields of \<^verbatim>\<open>FIFO\<close>, and \<open>out\<close>, the calls it made to its host, in order. The record
    \<open>host\<close> holds what the host answers during a handler. One definition per method: the helpers and
    counters, then planning and \<open>try_dispatch\<close>, then the handlers, and \<open>fifo_step\<close> over
    the events of the interface \<^verbatim>\<open>Scheduler\<close>.
  \<^item> \<open>Fifo_Cases\<close>: one rule per handler that reduces a property of its result to the primitive
    updates. \<open>Fifo_Queue\<close>: order of the queue, answers, counters. \<open>Fifo_Inv\<close>: the invariant
    of the reachable states. \<open>Fifo_Lifecycle\<close>: what each call to the host presupposes, jobs.
    \<open>Fifo_Recovery\<close>: plans, rounds and their token, probes per request.
  \<^item> \<open>Planner\<close>: the interface of the planners (\<^verbatim>\<open>Swapper\<close> and \<^verbatim>\<open>Decider\<close> of
    \<^verbatim>\<open>scheduler.go\<close>) as locales. \<open>Budget\<close>: the ledger of the router,
    \<^verbatim>\<open>router/budget.go\<close> and \<^verbatim>\<open>exclusive.go\<close>, and the interpretations of those locales.
  \<^item> \<open>Router_Recover\<close>: \<^verbatim>\<open>router/recover.go\<close>; facts for the scheduler, the tentative ledger of
    a probe result with its confirmation and rollback. \<open>Router\<close>: the loop of
    \<^verbatim>\<open>router/base.go\<close> as \<open>router_step\<close>. \<open>Router_Jobs\<close>: the jobs beside the loop
    (waiting for an idle runtime, unloading, sampling, release at shutdown), error responses, diagnostics.
  \<^item> \<open>Json\<close>: \<^verbatim>\<open>encoding/json\<close> on byte strings, as far as the code uses it: the
    grammar with its whitespace, escapes and numbers, surrogate pairs, and the encoder. \<open>Parse\<close>:
    \<^verbatim>\<open>runtime/parse.go\<close>, with the documents \<^verbatim>\<open>runtime/mock\<close> encodes.
  \<^item> \<open>Client_Ops\<close>: \<^verbatim>\<open>runtime/client.go\<close>, the blocking calls; status reads, control
    requests, \<open>do_ensure\<close>, \<open>do_stop\<close>, the prepare command. \<open>Client\<close>: its loop, one step per
    command or result; an operation whose channel a newer one replaced goes on as a stray one
    (\<open>cl_stray\<close>), and its result comes out of the newer channel. \<open>Client_Inv\<close>: the invariant of that loop, \<open>Client_Props\<close> its properties.
    \<open>Recovery_Client\<close>: the router's handling of a probe result with the client that applies it.
  \<^item> \<open>Fifo_Serve\<close>: what each event of the scheduler does to the requests and the counters of the
    models, read off the calls it makes. \<open>Serve\<close>: the goroutines of the requests
    (\<open>ServeModel\<close>, \<open>trackedServe\<close>, \<open>watchQueueTimeout\<close>, \<open>prepareModel\<close> of
    \<^verbatim>\<open>router/base.go\<close>) interleaved with the loop, as \<open>serve_step\<close>; \<open>Serve_Inv\<close>: the
    invariant that keeps the two sides in agreement.
  \<^item> \<open>Url\<close>: query strings of \<^verbatim>\<open>net/url\<close>. \<open>Proxy\<close>: \<^verbatim>\<open>internal/proxy\<close>; error replies, the
    extraction of the model from a request. \<open>Server\<close>: \<^verbatim>\<open>internal/server/server.go\<close>; routes,
    the inference handler, the list of models.
  \<^item> \<open>Testkit\<close>: \<^verbatim>\<open>internal/testkit\<close>; the barrier and the fake clock. \<open>Mock\<close>:
    \<^verbatim>\<open>runtime/mock\<close>, the runtime the tests of the program talk to, with every fault they inject; one
    step is what one goroutine does under its lock, or the end of one of its waits. \<open>Mock_Inv\<close>: its
    invariants. \<open>Mock_Client\<close>: the client over that runtime, whose answers arrive whole or fail.
  \<^item> \<open>Ledger\<close>: how the router's reservation of a model moves. \<open>Release\<close>: the router, the
    client and the runtime of a model together. \<open>Mock_Rest\<close>: a runtime without its model stays so
    until a load is asked of it. \<open>Memory\<close>: the router and one runtime per model, as \<open>gpu_step\<close>; the
    fields \<open>gs_permit\<close> and \<open>gs_since\<close> of its state are no part of the program, they record which models
    hold an admission and the last load asked of each runtime.
  \<^item> \<open>Program\<close>: \<^verbatim>\<open>resource/nvml.go\<close> over the driver's library, the calls that wait for a
    loop, \<^verbatim>\<open>cmd/inferswap/main.go\<close> from the configuration file to the exit code, with
    \<open>Reconcile\<close>, \<open>Preload\<close> and \<open>Shutdown\<close> of the router. \<open>Program_Props\<close>: its properties.
  \<^item> \<open>Loop_Jobs\<close>: the small goroutines that hand an event or a function to the loop
    (\<open>onLoop\<close>, \<open>Remind\<close>, \<open>StartLoad\<close>, \<open>sendUnload\<close>, \<open>NotifyBackendDone\<close>, \<open>Diagnostics\<close>), \<open>Run\<close> of
    \<^verbatim>\<open>runtime/prepare.go\<close>, \<open>ServeHTTP\<close> of the client, \<open>Shutdown\<close> of the server.
  \<^item> \<open>Core_Props\<close>, \<open>Fifo_Props\<close>, \<open>Router_Props\<close>, \<open>Client_Props\<close>, \<open>Serve_Props\<close>,
    \<open>Server_Props\<close>: the numbered properties with the concrete inputs they are evaluated at.

  \<^bold>\<open>What is proved.\<close>
  The scheduler (\<open>Fifo_Props\<close>): requests are granted in the order of their arrival, the slots of a
  model stay within its limit, every call to the host is made in a state where it is safe, one job
  is in flight at a time and nothing disturbs it, a head that waits has a reason and a timer that
  wakes it, no request probes a model twice, a stale status resolves nothing, a round without a
  sample fails its owner.
  The requests (\<open>Serve_Props\<close>), for every interleaving of their goroutines with the loop: what
  holds a grant or is being served stays within the limit, a request that waits is in the queue
  once, a grant is honoured, and no model is unloaded while a request of it is being served.
  The ledger (\<open>Router_Props\<close>): an admitted load fits in the memory of the device, a confirmed
  unload releases the peak, a refused probe leaves no trace, the planner evicts the least recently
  used model and only when that helps. The router refines the scheduler: the loop passes on exactly
  what it received, in order, and every event it passes on is routed.
  The client (\<open>Client_Props\<close>): a runtime is taken for ready or stopped only when it confirmed it,
  it is loaded only with an admission and unloaded only when it is idle, every request is answered or
  still waits, and none waits with nothing in flight unless a reconciliation came during an operation
  (\<open>stray_result_strands_waiters\<close> shows what happens then), the result of a probe is
  applied only when nothing happened since it was asked for, and a status document reads back as it was encoded. With the router, the ledger follows the
  state of the client (\<open>Recovery_Client\<close>).
  Against the mock runtime (\<open>Mock_Client\<close>): whatever a test injects, when the client becomes ready or
  stopped the runtime was so at some moment since the client last asked; and the runtime itself serves
  only while its model is loaded. The reservation of a model (\<open>Ledger\<close>, \<open>Release\<close>): a load is
  started only when every unload and loss was followed by a sample, unless the model is starting with
  its load in flight; and a probe lets the reservation of a model go only when its runtime was without
  the model since the probe began and the client did nothing meanwhile. With the runtimes of all
  models (\<open>Memory\<close>): at no moment of any interleaving do the loaded models, with the residuals of the
  others and the margin, exceed the device. The client loops are not part of that system; it supposes
  that a runtime is asked to load only with an admission not given back (the gate of the client,
  \<open>loads_are_admitted\<close>), that a model is reported released on answers to requests after its last load,
  that no model is loaded at the start and nobody sets a runtime's state by hand, that samples are true,
  that the peaks sum to less than \<open>2 ^ 63\<close>, and that each model keeps to its profile.
  The program (\<open>Program_Props\<close>): an accepted configuration starts unless a runtime or a load fails,
  and a clean exit means that every model of the configuration was stopped before, or was idle, confirmed unloaded by its
  runtime and followed by a sample.
  The public interface (\<open>Server_Props\<close>): the request handed on is the client's own, the limit of the
  body is exact, the list of models is a document that reads back as the state it reports. The rest of the
  goroutines (\<open>Loop_Jobs\<close>): a reminder is never early, a load is reported done only on the word of
  the client, a client forwards while it is ready and refuses while it is stopped or failed.
  The configuration and the budget (\<open>Core_Props\<close>): a configuration is well-formed once accepted
  whatever the order of Go's maps, and \<open>fits\<close> is exact below \<open>2 ^ 63\<close>.

  \<^bold>\<open>Conventions, bounds and fuel.\<close>
  A handler is one atomic step, as it is on the goroutine of the loop. What the loop reads from
  outside while a handler runs (clock, states and jobs of the runtimes, whether a request was taken
  or cancelled) is the record \<open>view\<close>, one per event; the runtimes' states can change between two
  reads of one handler in the program, and there one answer stands for both. Durations and times
  are integers of nanoseconds, except where the code multiplies or converts and its 64-bit wrap-around
  shows. Request and token counters are naturals; they would need \<open>2 ^ 64\<close> requests to wrap. Go's
  maps are HOL maps, or association lists where the code ranges over them, and the properties on map
  order permute those lists. \<open>launch_scan\<close> ends by the distance to the end
  of the order, \<open>try_dispatch\<close> by the length of the queue; the loops of the jobs read their polls
  from a list and return \<open>None\<close> only when the list is shorter than the wait (\<open>waiting_for_idle_ends\<close>
  says that a poll at the deadline always ends it). The JSON reader alone runs on fuel, twice the length
  of the text and two more, and \<open>parse_text\<close> shows that this reads every encoded value back.

  \<open>Serve\<close> covers the time until the loop returns and what is left of the goroutines then.

  \<^bold>\<open>Parameters.\<close> The YAML decoder is outside the repository: the model starts from the decoded
  records. \<^verbatim>\<open>url.Parse\<close> is a parameter of \<open>to_config\<close>, the readers of media types and multipart
  forms are parameters of \<open>extract_model_limited\<close>. Lower-casing of log levels is that of ASCII
  letters. The answers of a runtime to the requests of the client are inputs of its operations, and
  so is the outcome of the prepare command; the process itself is a parameter of \<open>exec_run\<close>, and the
  reverse proxy one of \<open>client_serve\<close>. The library of the GPU driver is a parameter of
  \<open>nvml_observe\<close>. The text of a JSON decoder's error is a part of a request to the mock runtime.

  \<^bold>\<open>Not modelled.\<close> Signals, flags and sockets, the opening and closing of the mock's
  listeners, the wall clock, the processes of the operating system, the forwarding of the bytes of a
  request by \<^verbatim>\<open>httputil.ReverseProxy\<close>: input and output. Accessors that return a field are the field.
\<close>

end
